(* ===== verification/CoseqPrelude.thy ===== *)
theory CoseqPrelude
  imports Main "HOL-Library.Word"
begin

text \<open>
  Shared vocabulary of the development: the machine integers of the C code, the outcome
  type of code that may hit undefined behaviour or may not return, loops over lists of
  events or fibers that stop at the first such outcome, and the collections of rewrite
  rules the component theories fill.
\<close>

section \<open>Machine integers and pointers\<close>

type_synonym u8 = "8 word"
type_synonym u32 = "32 word"

text \<open>The address of a fiber (\<open>fiber_t *\<close>). The allocator never returns a live address.\<close>

type_synonym fptr = nat

text \<open>Bytes readable through a \<open>uint8_t *\<close>; a null pointer is \<open>None\<close>.\<close>

type_synonym cbuf = "u8 list option"

section \<open>Collections\<close>

named_theorems eval_defs \<open>definitions that run the model on a concrete state\<close>

section \<open>Outcomes\<close>

text \<open>
  What a piece of the scheduler does: \<open>None\<close> if it does not return (a sequence that loops
  without a wait point), \<open>Some (Inl u)\<close> if it runs into undefined behaviour \<open>u\<close> of C, and
  \<open>Some (Inr s)\<close> if it returns in state \<open>s\<close>.
\<close>

type_synonym ('u, 's) outcome = "('u + 's) option"

definition ok :: "'s \<Rightarrow> ('u, 's) outcome" where
  "ok s = Some (Inr s)"

definition undef :: "'u \<Rightarrow> ('u, 's) outcome" where
  "undef u = Some (Inl u)"

definition obind :: "('u, 's) outcome \<Rightarrow> ('s \<Rightarrow> ('u, 't) outcome) \<Rightarrow> ('u, 't) outcome" where
  "obind r g = (case r of None \<Rightarrow> None | Some (Inl u) \<Rightarrow> Some (Inl u) | Some (Inr s) \<Rightarrow> g s)"

lemma obind_simps [simp]:
  "obind (ok s) g = g s"
  "obind (undef u) g = undef u"
  "obind None g = None"
  by (simp_all add: obind_def ok_def undef_def)

lemma outcome_inject [simp]:
  "ok s = ok t \<longleftrightarrow> s = t"
  "undef u = undef v \<longleftrightarrow> u = v"
  "ok s \<noteq> undef u"
  "undef u \<noteq> ok s"
  "ok s \<noteq> None"
  "undef u \<noteq> None"
  "None \<noteq> ok s"
  "None \<noteq> undef u"
  by (auto simp: ok_def undef_def)

lemma outcome_exhaust [case_names diverges undef ok]:
  obtains "r = None" | u where "r = undef u" | s where "r = ok s"
  by (cases r) (auto simp: ok_def undef_def split: sum.splits, metis sum.exhaust)

lemma obind_eq_ok: "obind r g = ok t \<longleftrightarrow> (\<exists>s. r = ok s \<and> g s = ok t)"
  by (cases r rule: outcome_exhaust) auto

lemma obind_eq_undef:
  "obind r g = undef u \<longleftrightarrow> r = undef u \<or> (\<exists>s. r = ok s \<and> g s = undef u)"
  by (cases r rule: outcome_exhaust) auto

text \<open>The code returns, whether or not it went through undefined behaviour.\<close>

definition returns :: "('u, 's) outcome \<Rightarrow> bool" where
  "returns r \<longleftrightarrow> (case r of None \<Rightarrow> False | Some _ \<Rightarrow> True)"

lemma returns_simps [simp]:
  "returns (ok s)"
  "returns (undef u)"
  "\<not> returns None"
  by (simp_all add: returns_def ok_def undef_def)

lemma returns_obind:
  "returns (obind r g) \<longleftrightarrow> returns r \<and> (\<forall>s. r = ok s \<longrightarrow> returns (g s))"
  by (cases r rule: outcome_exhaust) auto

lemma obind_assoc: "obind (obind r g) h = obind r (\<lambda>s. obind (g s) h)"
  by (cases r rule: outcome_exhaust) auto

subsection \<open>Loops over a list\<close>

fun ofold ::
    "('a \<Rightarrow> 's \<Rightarrow> ('u, 's) outcome) \<Rightarrow> 'a list \<Rightarrow> 's \<Rightarrow> ('u, 's) outcome" where
  "ofold g [] s = ok s"
| "ofold g (x # xs) s = obind (g x s) (ofold g xs)"

lemma ofold_append: "ofold g (xs @ ys) s = obind (ofold g xs s) (ofold g ys)"
proof (induction xs arbitrary: s)
  case Nil
  then show ?case by simp
next
  case (Cons x xs)
  then show ?case by (cases "g x s" rule: outcome_exhaust) simp_all
qed

lemma ofold_inv:
  assumes "ofold g xs s = ok t" and "I s"
    and "\<And>x s t. x \<in> set xs \<Longrightarrow> I s \<Longrightarrow> g x s = ok t \<Longrightarrow> I t"
  shows "I t"
  using assms by (induction xs arbitrary: s) (auto simp: obind_eq_ok)

lemma ofold_undef:
  assumes "ofold g xs s = undef u" and "I s"
    and "\<And>x s t. x \<in> set xs \<Longrightarrow> I s \<Longrightarrow> g x s = ok t \<Longrightarrow> I t"
  shows "\<exists>x \<in> set xs. \<exists>s. I s \<and> g x s = undef u"
  using assms
proof (induction xs arbitrary: s)
  case Nil
  then show ?case by simp
next
  case (Cons x xs)
  from Cons.prems(1) consider "g x s = undef u" | t where "g x s = ok t" "ofold g xs t = undef u"
    by (auto simp: obind_eq_undef)
  then show ?case
  proof cases
    case 1
    with Cons.prems(2) show ?thesis by auto
  next
    case 2
    have "I t" by (rule Cons.prems(3) [OF _ Cons.prems(2) 2(1)]) simp
    then have "\<exists>y \<in> set xs. \<exists>s. I s \<and> g y s = undef u"
      by (rule Cons.IH [OF 2(2)]) (use Cons.prems(3) in auto)
    then show ?thesis by auto
  qed
qed

lemma ofold_returns:
  assumes "I s"
    and "\<And>x s t. x \<in> set xs \<Longrightarrow> I s \<Longrightarrow> g x s = ok t \<Longrightarrow> I t"
    and "\<And>x s. x \<in> set xs \<Longrightarrow> I s \<Longrightarrow> returns (g x s)"
  shows "returns (ofold g xs s)"
  using assms by (induction xs arbitrary: s) (auto simp: returns_obind)

section \<open>Lists\<close>

text \<open>Removing the first element that satisfies a predicate: unlinking from a C list.\<close>

fun remove_first :: "('a \<Rightarrow> bool) \<Rightarrow> 'a list \<Rightarrow> 'a list" where
  "remove_first P [] = []"
| "remove_first P (x # xs) = (if P x then xs else x # remove_first P xs)"

lemma remove_first_none [simp]: "\<forall>x \<in> set xs. \<not> P x \<Longrightarrow> remove_first P xs = xs"
  by (induction xs) auto

lemma set_remove_first_subset: "set (remove_first P xs) \<subseteq> set xs"
  by (induction xs) auto

lemma remove_first_append:
  "remove_first P (xs @ ys) =
     (if \<exists>x \<in> set xs. P x then remove_first P xs @ ys else xs @ remove_first P ys)"
  by (induction xs) auto

lemma length_remove_first:
  "length (remove_first P xs) = (if \<exists>x \<in> set xs. P x then length xs - 1 else length xs)"
proof (induction xs)
  case Nil
  then show ?case by simp
next
  case (Cons x xs)
  then show ?case by (cases xs) auto
qed

lemma distinct_map_remove_first: "distinct (map h xs) \<Longrightarrow> distinct (map h (remove_first P xs))"
  by (induction xs) (use set_remove_first_subset in fastforce)+

lemma find_SomeD: "find P xs = Some x \<Longrightarrow> x \<in> set xs \<and> P x"
  by (auto simp: find_Some_iff)

end
