(* ===== verification/CoseqEnv.thy ===== *)
theory CoseqEnv
  imports CoseqPrelude
begin

text \<open>
  What a thread of the program gets from its surroundings: the outcome of each library call
  that can fail, the readings of the clock, and the log callback. The C library is not part
  of the repository, so its answers are oracles indexed by the number of calls made so far:
  a theorem that says nothing about them holds for every pattern of failures.
\<close>

section \<open>Time values\<close>

datatype timespec = Timespec (tv_sec: int) (tv_nsec: int)

section \<open>The log\<close>

text \<open>The messages the code formats, with the values it prints.\<close>

datatype log_msg =
    Clock_gettime_failed
  | Post_invalid_module int int
  | Make_ev_calloc_failed
  | Make_ev_malloc_failed nat
  | Pending_add_failed u32
  | Set_src_realloc_failed nat
  | Ext_deliver_malloc_failed nat
  | New_fiber_calloc_failed
  | New_fiber_stack_failed
  | New_fiber_getcontext_failed
  | Handle_reply_calloc_failed u32
  | Handle_reply_malloc_failed nat
  | Start_invalid_seq int string u8 u8
  | Reg_notify_external
  | Reg_notify_malloc_failed
  | Setup_too_many u8
  | Setup_mutex_failed nat
  | Setup_cond_failed nat
  | Setup_create_failed nat
  | Setup_done u8
  | Teardown_done int
  | Request_sync_realloc_failed nat
  | Create_calloc_failed
  | Create_mutex_failed
  | Create_cond_failed
  | Scheduler_started int string
  | Scheduler_stopped int string

definition COSEQ_LOG_DEBUG :: int where "COSEQ_LOG_DEBUG = -1"
definition COSEQ_LOG_INFO :: int where "COSEQ_LOG_INFO = 0"
definition COSEQ_LOG_WARN :: int where "COSEQ_LOG_WARN = 1"
definition COSEQ_LOG_ERROR :: int where "COSEQ_LOG_ERROR = 2"
definition COSEQ_LOG_MIN :: int where "COSEQ_LOG_MIN = COSEQ_LOG_INFO"

text \<open>
  \<open>lib_ok n\<close> tells whether the \<open>n\<close>-th fallible library call (an allocation, \<open>getcontext\<close>,
  a pthread initialisation) of the thread succeeds, \<open>clock n\<close> is the \<open>n\<close>-th clock reading
  (\<open>None\<close> when \<open>clock_gettime\<close> fails), \<open>log_cb\<close> tells whether a callback is installed, and
  \<open>logs\<close> collects what was passed to it, in order.
\<close>

record env =
  lib_ok :: "nat \<Rightarrow> bool"
  lib_calls :: nat
  clock :: "nat \<Rightarrow> timespec option"
  clock_reads :: nat
  log_cb :: bool
  logs :: "(int \<times> log_msg) list"

definition lib_call :: "env \<Rightarrow> bool \<times> env" where
  "lib_call e = (lib_ok e (lib_calls e), e\<lparr>lib_calls := lib_calls e + 1\<rparr>)"

definition coseq_set_log_cb :: "bool \<Rightarrow> env \<Rightarrow> env" where
  "coseq_set_log_cb cb e = e\<lparr>log_cb := cb\<rparr>"

definition coseq__log :: "int \<Rightarrow> log_msg \<Rightarrow> env \<Rightarrow> env" where
  "coseq__log level msg e =
     (if \<not> log_cb e then e else e\<lparr>logs := logs e @ [(level, msg)]\<rparr>)"

definition LOGD :: "log_msg \<Rightarrow> env \<Rightarrow> env" where
  "LOGD msg e =
     (if COSEQ_LOG_MIN \<le> COSEQ_LOG_DEBUG then coseq__log COSEQ_LOG_DEBUG msg e else e)"

definition LOGI :: "log_msg \<Rightarrow> env \<Rightarrow> env" where
  "LOGI msg e =
     (if COSEQ_LOG_MIN \<le> COSEQ_LOG_INFO then coseq__log COSEQ_LOG_INFO msg e else e)"

definition LOGW :: "log_msg \<Rightarrow> env \<Rightarrow> env" where
  "LOGW msg e =
     (if COSEQ_LOG_MIN \<le> COSEQ_LOG_WARN then coseq__log COSEQ_LOG_WARN msg e else e)"

definition LOGE :: "log_msg \<Rightarrow> env \<Rightarrow> env" where
  "LOGE msg e =
     (if COSEQ_LOG_MIN \<le> COSEQ_LOG_ERROR then coseq__log COSEQ_LOG_ERROR msg e else e)"

lemmas log_level_defs =
  COSEQ_LOG_DEBUG_def COSEQ_LOG_INFO_def COSEQ_LOG_WARN_def COSEQ_LOG_ERROR_def COSEQ_LOG_MIN_def

lemmas log_defs = LOGD_def LOGI_def LOGW_def LOGE_def coseq__log_def log_level_defs

text \<open>In the default build the per-event trace is compiled out, so no call site models it.\<close>

lemma LOGD_off [simp]: "LOGD msg e = e"
  by (simp add: log_defs)

lemma log_keeps [simp]:
  "lib_ok (LOGI msg e) = lib_ok e" "lib_ok (LOGW msg e) = lib_ok e" "lib_ok (LOGE msg e) = lib_ok e"
  "lib_calls (LOGI msg e) = lib_calls e" "lib_calls (LOGW msg e) = lib_calls e"
  "lib_calls (LOGE msg e) = lib_calls e"
  "clock (LOGI msg e) = clock e" "clock (LOGW msg e) = clock e" "clock (LOGE msg e) = clock e"
  "log_cb (LOGI msg e) = log_cb e" "log_cb (LOGW msg e) = log_cb e" "log_cb (LOGE msg e) = log_cb e"
  by (simp_all add: log_defs)

lemma log_silent:
  assumes "\<not> log_cb e"
  shows "LOGI msg e = e" "LOGW msg e = e" "LOGE msg e = e"
  using assms by (simp_all add: log_defs)

lemma log_appends:
  assumes "log_cb e"
  shows "logs (LOGI msg e) = logs e @ [(COSEQ_LOG_INFO, msg)]"
    and "logs (LOGW msg e) = logs e @ [(COSEQ_LOG_WARN, msg)]"
    and "logs (LOGE msg e) = logs e @ [(COSEQ_LOG_ERROR, msg)]"
  using assms by (simp_all add: log_defs)

text \<open>An environment in which no library call fails.\<close>

definition all_ok :: "env \<Rightarrow> bool" where
  "all_ok e \<longleftrightarrow> lib_ok e = (\<lambda>_. True)"

lemma lib_call_fst [simp]: "fst (lib_call e) = lib_ok e (lib_calls e)"
  by (simp add: lib_call_def)

lemma lib_call_keeps [simp]:
  "lib_ok (snd (lib_call e)) = lib_ok e"
  "clock (snd (lib_call e)) = clock e"
  "clock_reads (snd (lib_call e)) = clock_reads e"
  "log_cb (snd (lib_call e)) = log_cb e"
  "logs (snd (lib_call e)) = logs e"
  by (simp_all add: lib_call_def)

lemma all_ok_lib_call: "all_ok e \<Longrightarrow> lib_call e = (True, e\<lparr>lib_calls := lib_calls e + 1\<rparr>)"
  by (simp add: all_ok_def lib_call_def)

lemma all_ok_upd [simp]:
  "all_ok (e\<lparr>lib_calls := n\<rparr>) = all_ok e"
  "all_ok (e\<lparr>clock_reads := n\<rparr>) = all_ok e"
  "all_ok (e\<lparr>logs := l\<rparr>) = all_ok e"
  by (simp_all add: all_ok_def)

text \<open>Calm surroundings: no allocation fails, nothing is logged.\<close>

definition no_env :: env where
  "no_env = \<lparr>lib_ok = (\<lambda>_. True), lib_calls = 0, clock = (\<lambda>_. None), clock_reads = 0,
     log_cb = False, logs = []\<rparr>"

section \<open>The clock\<close>

definition now_ts :: "env \<Rightarrow> timespec \<times> env" where
  "now_ts e =
     (let r = clock e (clock_reads e); e1 = e\<lparr>clock_reads := clock_reads e + 1\<rparr>
      in case r of
           None \<Rightarrow> (Timespec 0 0, LOGE Clock_gettime_failed e1)
         | Some t \<Rightarrow> (t, e1))"

definition ts_add_ms :: "timespec \<Rightarrow> u32 \<Rightarrow> timespec" where
  "ts_add_ms t ms =
     (let sec = tv_sec t + uint (ms div 1000);
          nsec = tv_nsec t + uint (ms mod 1000) * 1000000
      in if 1000000000 \<le> nsec then Timespec (sec + 1) (nsec - 1000000000)
         else Timespec sec nsec)"

definition ts_lt :: "timespec \<Rightarrow> timespec \<Rightarrow> bool" where
  "ts_lt a b \<longleftrightarrow> tv_sec a < tv_sec b \<or> (tv_sec a = tv_sec b \<and> tv_nsec a < tv_nsec b)"

text \<open>Well-formed readings, and the instant a reading stands for, in nanoseconds.\<close>

definition ts_normal :: "timespec \<Rightarrow> bool" where
  "ts_normal t \<longleftrightarrow> 0 \<le> tv_nsec t \<and> tv_nsec t < 1000000000"

definition ts_nanos :: "timespec \<Rightarrow> int" where
  "ts_nanos t = tv_sec t * 1000000000 + tv_nsec t"

lemma ts_nanos_add: "ts_nanos (ts_add_ms t ms) = ts_nanos t + uint ms * 1000000"
proof -
  have "uint ms = uint (ms div 1000) * 1000 + uint (ms mod 1000)"
    by (simp add: uint_div uint_mod)
  then show ?thesis
    by (simp add: ts_nanos_def ts_add_ms_def Let_def)
qed

lemma uint_mod_1000: "uint ((ms :: u32) mod 1000) < 1000" "0 \<le> uint (ms mod 1000)"
  by (simp_all add: uint_mod)

lemma ts_normal_add: "ts_normal t \<Longrightarrow> ts_normal (ts_add_ms t ms)"
  using uint_mod_1000 [of ms] by (auto simp: ts_normal_def ts_add_ms_def Let_def)

lemma ts_lt_nanos:
  "ts_normal a \<Longrightarrow> ts_normal b \<Longrightarrow> ts_lt a b \<longleftrightarrow> ts_nanos a < ts_nanos b"
  by (auto simp: ts_lt_def ts_normal_def ts_nanos_def)

lemma ts_add_nsec_fits:
  "ts_normal t \<Longrightarrow> tv_nsec t + uint ((ms :: u32) mod 1000) * 1000000 < 2 ^ 31"
  using uint_mod_1000 [of ms] by (auto simp: ts_normal_def)

text \<open>Deadlines are a linear order under the comparison of the code.\<close>

instantiation timespec :: linorder
begin

definition less_timespec :: "timespec \<Rightarrow> timespec \<Rightarrow> bool" where
  "less_timespec a b = ts_lt a b"

definition less_eq_timespec :: "timespec \<Rightarrow> timespec \<Rightarrow> bool" where
  "less_eq_timespec a b = (\<not> ts_lt b a)"

instance
proof
  fix a b c :: timespec
  show "(a < b) = (a \<le> b \<and> \<not> b \<le> a)"
    by (auto simp: less_timespec_def less_eq_timespec_def ts_lt_def)
  show "a \<le> a"
    by (simp add: less_eq_timespec_def ts_lt_def)
  show "a \<le> c" if "a \<le> b" "b \<le> c"
    using that by (auto simp: less_eq_timespec_def ts_lt_def)
  show "a = b" if "a \<le> b" "b \<le> a"
    using that by (auto simp: less_eq_timespec_def ts_lt_def intro: timespec.expand)
  show "a \<le> b \<or> b \<le> a"
    by (auto simp: less_eq_timespec_def ts_lt_def)
qed

end

lemma ts_lt_less [simp]: "ts_lt a b \<longleftrightarrow> a < b"
  by (simp add: less_timespec_def)

lemma all_ok_no_env [simp]: "all_ok no_env"
  by (simp add: all_ok_def no_env_def)

section \<open>Properties of the time helpers\<close>

lemma no_env_sel [simp]:
  "lib_ok no_env n" "lib_calls no_env = 0" "clock no_env n = None" "clock_reads no_env = 0"
  "\<not> log_cb no_env" "logs no_env = []"
  by (simp_all add: no_env_def)

text \<open>
  \<open>ts_add_ms\<close> is exact. From a normalised time the result is normalised and lies exactly
  \<open>ms\<close> milliseconds later, and the sum of nanoseconds formed on the way fits a 32-bit \<open>long\<close>.
\<close>

theorem ts_add_ms_exact:
  assumes "ts_normal t"
  shows "ts_normal (ts_add_ms t ms) \<and> ts_nanos (ts_add_ms t ms) = ts_nanos t + uint ms * 1000000 \<and>
    tv_nsec t + uint (ms mod 1000) * 1000000 < 2 ^ 31"
  using ts_normal_add [OF assms] ts_nanos_add ts_add_nsec_fits [OF assms] by blast

lemma ts_add_ms_exact_witness:
  "ts_nanos (ts_add_ms (Timespec 7 999000000) 1500) = 9499000000"
  using ts_add_ms_exact [of "Timespec 7 999000000" 1500]
  by (simp add: ts_normal_def ts_nanos_def)

text \<open>
  \<open>ts_lt\<close> compares instants: on normalised times it is the order of the nanosecond counts, so a
  timer set for \<open>ms\<close> milliseconds is due exactly when that much time has passed.
\<close>

theorem deadline_due_exact:
  assumes "ts_normal start" and "ts_normal now"
  shows "\<not> ts_lt now (ts_add_ms start ms) \<longleftrightarrow> ts_nanos start + uint ms * 1000000 \<le> ts_nanos now"
  using ts_lt_nanos [OF assms(2) ts_normal_add [OF assms(1)]] ts_nanos_add by (metis not_less)

lemma deadline_due_exact_witness:
  "\<not> ts_lt (Timespec 3 0) (ts_add_ms (Timespec 1 500000000) 1500)"
  using deadline_due_exact [of "Timespec 1 500000000" "Timespec 3 0" 1500]
  by (simp add: ts_normal_def ts_nanos_def)

declare lib_call_def [eval_defs] now_ts_def [eval_defs] log_defs [eval_defs]

end
