(* ===== verification/CoseqTypes.thy ===== *)
theory CoseqTypes
  imports CoseqEnv
begin

text \<open>
  The data of coseq: result codes, what a sequence sees of an event, the programs of
  sequences as trees of calls to the sequence API, and the structures of \<open>coseq.c\<close> (events,
  fibers, modules, the instance) with the accessors the C code writes as pointer
  dereferences. A linked list of the code is the list of its nodes from the head.
\<close>

section \<open>The public types\<close>

datatype coseq_result_t =
    COSEQ_RSLT_IGNORE
  | COSEQ_RSLT_SUCCESS
  | COSEQ_RSLT_ERROR
  | COSEQ_RSLT_REQ_TIMEOUT
  | COSEQ_RSLT_SEQ_TIMEOUT

text \<open>\<open>s_msg\<close> holds the \<open>msg.size\<close> bytes readable at \<open>msg.msg\<close>.\<close>

record coseq_src_t =
  s_thread_idx :: u8
  s_seq_idx :: u8
  s_req_id :: u32
  s_result :: coseq_result_t
  s_client_id :: u8
  s_msg :: "u8 list"

definition zero_src :: coseq_src_t where
  "zero_src = \<lparr>s_thread_idx = 0, s_seq_idx = 0, s_req_id = 0, s_result = COSEQ_RSLT_IGNORE,
     s_client_id = 0, s_msg = []\<rparr>"

text \<open>
  The body of a sequence, as far as the core can observe it: the next call it makes through
  its \<open>coseq_if_t *\<close> and how it goes on with the result, or its return. The type is
  coinductive, so a sequence may loop for ever. \<open>Access\<close> stands for what a sequence does with data
  outside its fiber, the members of its module or globals: it updates them and goes on with what
  they were before. The data are named lists of numbers.
\<close>

type_synonym memory = "string \<Rightarrow> int list"

codatatype seq_prog =
    Return
  | Request u8 u8 cbuf nat "coseq_src_t \<Rightarrow> seq_prog"
  | Request_timeout u8 u8 cbuf nat u32 "coseq_src_t \<Rightarrow> seq_prog"
  | Request_async u8 u8 cbuf nat "u32 \<Rightarrow> seq_prog"
  | Wait_reply "coseq_src_t option \<Rightarrow> seq_prog"
  | Send u8 u8 cbuf nat seq_prog
  | Reply coseq_result_t cbuf nat seq_prog
  | Wait_timeout u32 seq_prog
  | Source "coseq_src_t \<Rightarrow> seq_prog"
  | Self_module "u8 \<Rightarrow> seq_prog"
  | Self_seq "u8 \<Rightarrow> seq_prog"
  | Self_user "nat \<Rightarrow> seq_prog"
  | Self_seq_name "string \<Rightarrow> seq_prog"
  | Reg_notify u8 "u8 option \<Rightarrow> seq_prog"
  | Unreg_notify u8 u8 "bool \<Rightarrow> seq_prog"
  | Notify u8 cbuf nat "bool \<Rightarrow> seq_prog"
  | Lock seq_prog
  | Unlock seq_prog
  | Access "memory \<Rightarrow> memory" "memory \<Rightarrow> seq_prog"

record coseq_seq_t =
  sq_fn :: seq_prog
  sq_name :: string

record coseq_reg_t =
  r_name :: "string option"
  r_nr_que_max :: u8
  r_seq_array :: "coseq_seq_t list"
  r_nr_seq_max :: u8
  r_recv_notify :: "seq_prog option"
  r_user :: nat

section \<open>Events and replies\<close>

datatype ev_type_t = EV_START | EV_REPLY | EV_NOTIFY

definition EXTERNAL :: int where "EXTERNAL = -1"
definition MAX_MODULE :: nat where "MAX_MODULE = 32"

record ev_t =
  e_type :: ev_type_t
  e_seq_idx :: u8
  e_req_id :: u32
  e_requester :: int
  e_result :: coseq_result_t
  e_category :: u8
  e_client_id :: u8
  e_msg :: cbuf
  e_msg_size :: nat

record reply_rec_t =
  rr_req_id :: u32
  rr_result :: coseq_result_t
  rr_msg :: cbuf
  rr_size :: nat

section \<open>Fibers\<close>

text \<open>
  The saved machine context of a fiber is where it goes on when it is switched in: at the
  entry function, after the switch inside one of the three waiting calls (with the rest of
  the sequence), or nowhere because the entry function has returned. The fields \<open>stack\<close>, \<open>mod\<close>
  and \<open>iface\<close> are not modelled: the stack is only reached through the context, \<open>mod\<close> is the module
  whose list the fiber is in, and \<open>iface\<close> only leads back to the fiber.
\<close>

datatype (discs_sels) ucontext_t =
    At_entry
  | After_request "coseq_src_t \<Rightarrow> seq_prog"
  | After_wait_reply "coseq_src_t option \<Rightarrow> seq_prog"
  | After_wait_timeout seq_prog
  | Finished

record fiber_t =
  f_self :: fptr
  f_ctx :: ucontext_t
  f_fn :: seq_prog
  f_seq_idx :: u8
  f_seq_name :: "string option"
  f_reply_to :: int
  f_reply_req_id :: u32
  f_src :: coseq_src_t
  f_src_buf :: "u8 list"
  f_src_cap :: nat
  f_waiting_reply :: bool
  f_wait_req_id :: u32
  f_waiting_timer :: bool
  f_deadline :: timespec
  f_waiting_any :: bool
  f_async_outstanding :: int
  f_rq :: "reply_rec_t list"
  f_done :: bool

record pending_t =
  p_req_id :: u32
  p_f :: fptr

record notify_client_t =
  nc_category :: u8
  nc_listener_module :: int
  nc_client_id :: u8

section \<open>Modules and the instance\<close>

text \<open>
  \<open>m_mtx\<close> and \<open>m_cv\<close> tell whether the mutex and the condition variable are initialised.
  \<open>m_next_req_id\<close> counts requests without wrapping; the C counter is its value modulo
  $2^{32}$, and every use of it goes through \<open>of_nat\<close>. \<open>m_env\<close> is what the thread of the
  module gets from its surroundings, \<open>m_next_fptr\<close> the next address its allocator returns
  for a fiber. The fields \<open>mgr\<close>, \<open>th\<close> and \<open>sched_ctx\<close> are not modelled: a module belongs to the
  instance it is in, and its thread and scheduler context are its position in the run.
\<close>

record module_t =
  m_idx :: int
  m_name :: string
  m_que_max :: u8
  m_seqs :: "coseq_seq_t list"
  m_nr_seq :: u8
  m_recv_notify :: "seq_prog option"
  m_user :: nat
  m_th_started :: bool
  m_mtx :: bool
  m_cv :: bool
  m_inbox :: "ev_t list"
  m_stop :: bool
  m_fibers :: "fiber_t list"
  m_pending :: "pending_t list"
  m_notify_clients :: "notify_client_t list"
  m_next_req_id :: nat
  m_current :: "fptr option"
  m_locked_by :: "fptr option"
  m_deferred :: "ev_t list"
  m_next_fptr :: fptr
  m_env :: env

text \<open>\<open>user_mem\<close> is not in the structure: it is the memory outside the instance that the sequences use.\<close>

record coseq_ctx_private =
  modules :: "module_t list"
  nr_module :: int
  next_client_id :: u8
  ext_ready :: bool
  ext_wait_rid :: u32
  ext_result :: coseq_result_t
  ext_msg :: cbuf
  ext_size :: nat
  ext_id :: u32
  ext_mtx :: bool
  ext_cv :: bool
  user_mem :: memory

section \<open>Cleared memory\<close>

definition zero_module :: module_t where
  "zero_module = \<lparr>m_idx = 0, m_name = '''', m_que_max = 0, m_seqs = [], m_nr_seq = 0,
     m_recv_notify = None, m_user = 0, m_th_started = False, m_mtx = False, m_cv = False,
     m_inbox = [], m_stop = False, m_fibers = [], m_pending = [], m_notify_clients = [],
     m_next_req_id = 0, m_current = None, m_locked_by = None, m_deferred = [],
     m_next_fptr = 0, m_env = no_env\<rparr>"

definition zero_ctx :: coseq_ctx_private where
  "zero_ctx = \<lparr>modules = replicate MAX_MODULE zero_module, nr_module = 0, next_client_id = 0,
     ext_ready = False, ext_wait_rid = 0, ext_result = COSEQ_RSLT_IGNORE, ext_msg = None,
     ext_size = 0, ext_id = 0, ext_mtx = False, ext_cv = False, user_mem = (\<lambda>x. [])\<rparr>"

section \<open>Access through pointers\<close>

definition get_mod :: "coseq_ctx_private \<Rightarrow> nat \<Rightarrow> module_t" where
  "get_mod c i = modules c ! i"

definition set_mod :: "nat \<Rightarrow> module_t \<Rightarrow> coseq_ctx_private \<Rightarrow> coseq_ctx_private" where
  "set_mod i m c = c\<lparr>modules := (modules c)[i := m]\<rparr>"

abbreviation valid_mod :: "coseq_ctx_private \<Rightarrow> nat \<Rightarrow> bool" where
  "valid_mod c i \<equiv> i < length (modules c)"

lemma get_set_mod [simp]:
  "valid_mod c i \<Longrightarrow> get_mod (set_mod i m c) i = m"
  "i \<noteq> j \<Longrightarrow> get_mod (set_mod i m c) j = get_mod c j"
  by (simp_all add: get_mod_def set_mod_def)

lemma get_set_mod_if:
  "valid_mod c i \<Longrightarrow> get_mod (set_mod i m c) j = (if j = i then m else get_mod c j)"
  by simp

lemma set_set_mod [simp]: "set_mod i m (set_mod i m' c) = set_mod i m c"
  by (simp add: set_mod_def)

lemma set_mod_same [simp]: "set_mod i (get_mod c i) c = c"
  by (simp add: set_mod_def get_mod_def)

lemma set_mod_fields [simp]:
  "length (modules (set_mod i m c)) = length (modules c)"
  "nr_module (set_mod i m c) = nr_module c"
  "next_client_id (set_mod i m c) = next_client_id c"
  "ext_ready (set_mod i m c) = ext_ready c"
  "ext_wait_rid (set_mod i m c) = ext_wait_rid c"
  "ext_result (set_mod i m c) = ext_result c"
  "ext_msg (set_mod i m c) = ext_msg c"
  "ext_size (set_mod i m c) = ext_size c"
  "ext_id (set_mod i m c) = ext_id c"
  "user_mem (set_mod i m c) = user_mem c"
  by (simp_all add: set_mod_def)

lemma get_mod_upd [simp]:
  "get_mod (c\<lparr>next_client_id := x1\<rparr>) i = get_mod c i"
  "get_mod (c\<lparr>user_mem := x0\<rparr>) i = get_mod c i"
  "get_mod (c\<lparr>ext_ready := x2\<rparr>) i = get_mod c i"
  "get_mod (c\<lparr>ext_wait_rid := x3\<rparr>) i = get_mod c i"
  "get_mod (c\<lparr>ext_result := x4\<rparr>) i = get_mod c i"
  "get_mod (c\<lparr>ext_msg := x5\<rparr>) i = get_mod c i"
  "get_mod (c\<lparr>ext_size := x6\<rparr>) i = get_mod c i"
  "get_mod (c\<lparr>ext_id := x7\<rparr>) i = get_mod c i"
  "get_mod (c\<lparr>nr_module := x8\<rparr>) i = get_mod c i"
  by (simp_all add: get_mod_def)

definition get_fiber :: "module_t \<Rightarrow> fptr \<Rightarrow> fiber_t option" where
  "get_fiber m p = find (\<lambda>f. f_self f = p) (m_fibers m)"

definition put_fiber :: "fiber_t \<Rightarrow> module_t \<Rightarrow> module_t" where
  "put_fiber f m =
     m\<lparr>m_fibers := map (\<lambda>g. if f_self g = f_self f then f else g) (m_fibers m)\<rparr>"

lemma get_fiber_Some:
  "get_fiber m p = Some f \<Longrightarrow> f \<in> set (m_fibers m) \<and> f_self f = p"
  unfolding get_fiber_def by (rule find_SomeD)

lemma get_fiber_self: "get_fiber m p = Some f \<Longrightarrow> f_self f = p"
  by (simp add: get_fiber_Some)

lemma get_fiber_None: "get_fiber m p = None \<longleftrightarrow> p \<notin> f_self ` set (m_fibers m)"
  by (auto simp: get_fiber_def find_None_iff)

lemma get_fiber_cong: "m_fibers m = m_fibers m' \<Longrightarrow> get_fiber m p = get_fiber m' p"
  by (simp add: get_fiber_def)

lemma get_fiber_unique:
  assumes "distinct (map f_self (m_fibers m))" and "f \<in> set (m_fibers m)"
  shows "get_fiber m (f_self f) = Some f"
proof -
  have "get_fiber m (f_self f) \<noteq> None"
    using assms(2) by (auto simp: get_fiber_None)
  then obtain g where g: "get_fiber m (f_self f) = Some g" by blast
  then have "g \<in> set (m_fibers m)" "f_self g = f_self f"
    by (auto dest: get_fiber_Some)
  with assms have "g = f"
    by (auto simp: distinct_map inj_on_def)
  with g show ?thesis by simp
qed

lemma map_self_put_fiber [simp]:
  "map f_self (m_fibers (put_fiber f m)) = map f_self (m_fibers m)"
  by (auto simp: put_fiber_def)

lemma put_fiber_selves: "f_self ` set (m_fibers (put_fiber f m)) = f_self ` set (m_fibers m)"
  by (metis list.set_map map_self_put_fiber)

lemma find_put:
  "find (\<lambda>g. f_self g = p) (map (\<lambda>g. if f_self g = f_self f then f else g) fs) =
     (case find (\<lambda>g. f_self g = p) fs of
        None \<Rightarrow> None
      | Some g \<Rightarrow> Some (if p = f_self f then f else g))"
  by (induction fs) auto

lemma get_put_fiber:
  "get_fiber (put_fiber f m) p =
     (case get_fiber m p of
        None \<Rightarrow> None
      | Some g \<Rightarrow> Some (if p = f_self f then f else g))"
  by (simp add: get_fiber_def put_fiber_def find_put)

lemma get_put_fiber_same [simp]:
  "get_fiber m (f_self f) = Some g \<Longrightarrow> get_fiber (put_fiber f m) (f_self f) = Some f"
  by (simp add: get_put_fiber)

lemma put_fiber_in:
  "g \<in> set (m_fibers (put_fiber f m)) \<Longrightarrow> g = f \<or> (g \<in> set (m_fibers m) \<and> f_self g \<noteq> f_self f)"
  by (auto simp: put_fiber_def)

lemma put_fiber_keeps [simp]:
  "m_idx (put_fiber f m) = m_idx m" "m_seqs (put_fiber f m) = m_seqs m"
  "m_nr_seq (put_fiber f m) = m_nr_seq m" "m_recv_notify (put_fiber f m) = m_recv_notify m"
  "m_inbox (put_fiber f m) = m_inbox m" "m_stop (put_fiber f m) = m_stop m"
  "m_pending (put_fiber f m) = m_pending m"
  "m_notify_clients (put_fiber f m) = m_notify_clients m"
  "m_next_req_id (put_fiber f m) = m_next_req_id m" "m_current (put_fiber f m) = m_current m"
  "m_locked_by (put_fiber f m) = m_locked_by m" "m_deferred (put_fiber f m) = m_deferred m"
  "m_next_fptr (put_fiber f m) = m_next_fptr m" "m_env (put_fiber f m) = m_env m"
  by (simp_all add: put_fiber_def)

lemma get_fiber_upd [simp]:
  "get_fiber (m\<lparr>m_env := e\<rparr>) p = get_fiber m p"
  "get_fiber (m\<lparr>m_inbox := evs\<rparr>) p = get_fiber m p"
  "get_fiber (m\<lparr>m_pending := ps\<rparr>) p = get_fiber m p"
  "get_fiber (m\<lparr>m_notify_clients := ncs\<rparr>) p = get_fiber m p"
  "get_fiber (m\<lparr>m_next_req_id := n\<rparr>) p = get_fiber m p"
  "get_fiber (m\<lparr>m_current := q\<rparr>) p = get_fiber m p"
  "get_fiber (m\<lparr>m_locked_by := q\<rparr>) p = get_fiber m p"
  "get_fiber (m\<lparr>m_deferred := evs\<rparr>) p = get_fiber m p"
  by (simp_all add: get_fiber_def)

declare get_fiber_def [eval_defs] put_fiber_def [eval_defs] zero_src_def [eval_defs]
  EXTERNAL_def [eval_defs]

end
