(* ===== verification/CoseqEvents.thy ===== *)
theory CoseqEvents
  imports CoseqTypes
begin

text \<open>
  Events and the inboxes: building an event (\<open>make_ev\<close>), posting it to a module, which is
  the only way from one module's thread to another's data (\<open>post\<close>), and putting it aside
  while the module is locked (\<open>defer_ev\<close>). The contract of both queues is the locale
  \<open>fifo\<close>.
\<close>

section \<open>Building and posting events\<close>

definition make_ev ::
    "ev_type_t \<Rightarrow> u8 \<Rightarrow> u32 \<Rightarrow> int \<Rightarrow> coseq_result_t \<Rightarrow> cbuf \<Rightarrow> nat \<Rightarrow> env \<Rightarrow> ev_t option \<times> env"
where
  "make_ev type seq_idx req_id requester result msg msg_size en =
     (let (got, en1) = lib_call en;
          e = \<lparr>e_type = type, e_seq_idx = seq_idx, e_req_id = req_id, e_requester = requester,
               e_result = result, e_category = 0, e_client_id = 0, e_msg = None,
               e_msg_size = 0\<rparr>
      in if \<not> got then (None, LOGE Make_ev_calloc_failed en1)
         else case msg of
             None \<Rightarrow> (Some e, en1)
           | Some b \<Rightarrow>
               if msg_size > 0 then
                 (let (got2, en2) = lib_call en1
                  in if \<not> got2 then (Some e, LOGW (Make_ev_malloc_failed msg_size) en2)
                     else (Some (e\<lparr>e_msg := Some (take msg_size b), e_msg_size := msg_size\<rparr>), en2))
               else (Some e, en1))"

text \<open>Appending to the list between \<open>inbox_head\<close> and \<open>inbox_tail\<close>.\<close>

definition inbox_put :: "module_t \<Rightarrow> ev_t \<Rightarrow> module_t" where
  "inbox_put m e = m\<lparr>m_inbox := m_inbox m @ [e]\<rparr>"

definition post ::
    "coseq_ctx_private \<Rightarrow> int \<Rightarrow> ev_t option \<Rightarrow> env \<Rightarrow> coseq_ctx_private \<times> env" where
  "post c module_idx eo en =
     (case eo of
        None \<Rightarrow> (c, en)
      | Some e \<Rightarrow>
          if module_idx < 0 \<or> module_idx \<ge> nr_module c
          then (c, LOGE (Post_invalid_module module_idx (nr_module c)) en)
          else (set_mod (nat module_idx) (inbox_put (get_mod c (nat module_idx)) e) c, en))"

definition defer_ev :: "module_t \<Rightarrow> ev_t \<Rightarrow> module_t" where
  "defer_ev m e = m\<lparr>m_deferred := m_deferred m @ [e]\<rparr>"

text \<open>
  The calls of the sequence API build an event and post it in one expression, on the thread
  of module \<open>i\<close>. \<open>upd\<close> is what \<open>coseq_notify\<close> writes into the event in between.
\<close>

definition post_ev ::
    "coseq_ctx_private \<Rightarrow> nat \<Rightarrow> int \<Rightarrow> (ev_t option \<times> env) \<Rightarrow> coseq_ctx_private" where
  "post_ev c i dest made =
     (let (c1, en) = post c dest (fst made) (snd made)
      in set_mod i ((get_mod c1 i)\<lparr>m_env := en\<rparr>) c1)"

section \<open>What the builders promise\<close>

text \<open>The message of an event owns exactly \<open>e_msg_size\<close> bytes.\<close>

definition ev_wf :: "ev_t \<Rightarrow> bool" where
  "ev_wf e \<longleftrightarrow> (case e_msg e of None \<Rightarrow> e_msg_size e = 0 | Some b \<Rightarrow> length b = e_msg_size e)"

definition readable :: "cbuf \<Rightarrow> nat \<Rightarrow> bool" where
  "readable msg msg_size \<longleftrightarrow> (case msg of None \<Rightarrow> True | Some b \<Rightarrow> msg_size \<le> length b)"

text \<open>The bytes a caller passes as \<open>(msg, size)\<close>.\<close>

definition payload :: "cbuf \<Rightarrow> nat \<Rightarrow> u8 list" where
  "payload msg msg_size = (case msg of None \<Rightarrow> [] | Some b \<Rightarrow> take msg_size b)"

lemma make_ev_env [simp]:
  "lib_ok (snd (make_ev t s r q res msg msg_size en)) = lib_ok en"
  "clock (snd (make_ev t s r q res msg msg_size en)) = clock en"
  "log_cb (snd (make_ev t s r q res msg msg_size en)) = log_cb en"
  by (simp_all add: make_ev_def lib_call_def Let_def split: option.split)

lemma make_ev_fields:
  assumes "fst (make_ev t s r q res msg msg_size en) = Some e"
  shows "e_type e = t" "e_seq_idx e = s" "e_req_id e = r" "e_requester e = q" "e_result e = res"
    "e_category e = 0" "e_client_id e = 0"
  using assms
  by (auto simp: make_ev_def Let_def lib_call_def split: option.splits if_splits)

lemma make_ev_wf:
  assumes "fst (make_ev t s r q res msg msg_size en) = Some e" and "readable msg msg_size"
  shows "ev_wf e"
  using assms
  by (auto simp: make_ev_def Let_def lib_call_def ev_wf_def readable_def
      split: option.splits if_splits)

lemma make_ev_all_ok:
  assumes "all_ok en"
  shows "\<exists>e. fst (make_ev t s r q res msg msg_size en) = Some e \<and>
    payload (e_msg e) (e_msg_size e) = payload msg msg_size"
  using assms
  by (auto simp: make_ev_def Let_def all_ok_lib_call payload_def split: option.split)

lemma make_ev_all_ok_env: "all_ok en \<Longrightarrow> all_ok (snd (make_ev t s r q res msg msg_size en))"
  by (simp add: all_ok_def)

lemma post_None [simp]: "post c dest None en = (c, en)"
  by (simp add: post_def)

lemma post_valid:
  assumes "0 \<le> dest" and "dest < nr_module c"
  shows "post c dest (Some e) en =
    (set_mod (nat dest) (inbox_put (get_mod c (nat dest)) e) c, en)"
  using assms by (simp add: post_def)

lemma post_invalid:
  assumes "dest < 0 \<or> nr_module c \<le> dest"
  shows "post c dest (Some e) en = (c, LOGE (Post_invalid_module dest (nr_module c)) en)"
  using assms by (simp add: post_def)

section \<open>What posting leaves alone\<close>

text \<open>A module without its inbox and its environment: the data only its own thread touches.\<close>

definition m_private :: "module_t \<Rightarrow> module_t" where
  "m_private m = m\<lparr>m_inbox := [], m_env := no_env\<rparr>"

lemma m_private_upd [simp]:
  "m_private (m\<lparr>m_inbox := evs\<rparr>) = m_private m"
  "m_private (m\<lparr>m_env := en\<rparr>) = m_private m"
  "m_private (inbox_put m e) = m_private m"
  by (simp_all add: m_private_def inbox_put_def)

lemma m_private_sel:
  "m_idx (m_private m) = m_idx m" "m_seqs (m_private m) = m_seqs m"
  "m_nr_seq (m_private m) = m_nr_seq m" "m_recv_notify (m_private m) = m_recv_notify m"
  "m_stop (m_private m) = m_stop m" "m_fibers (m_private m) = m_fibers m"
  "m_pending (m_private m) = m_pending m" "m_notify_clients (m_private m) = m_notify_clients m"
  "m_next_req_id (m_private m) = m_next_req_id m" "m_current (m_private m) = m_current m"
  "m_locked_by (m_private m) = m_locked_by m" "m_deferred (m_private m) = m_deferred m"
  "m_next_fptr (m_private m) = m_next_fptr m" "m_name (m_private m) = m_name m"
  by (simp_all add: m_private_def)

lemma m_private_fields:
  assumes "m_private m' = m_private m"
  shows "m_idx m' = m_idx m" "m_seqs m' = m_seqs m" "m_nr_seq m' = m_nr_seq m"
    "m_recv_notify m' = m_recv_notify m" "m_stop m' = m_stop m" "m_fibers m' = m_fibers m"
    "m_pending m' = m_pending m" "m_notify_clients m' = m_notify_clients m"
    "m_next_req_id m' = m_next_req_id m" "m_current m' = m_current m"
    "m_locked_by m' = m_locked_by m" "m_deferred m' = m_deferred m"
    "m_next_fptr m' = m_next_fptr m" "m_name m' = m_name m"
  by (metis assms m_private_sel)+

lemma get_fiber_private: "m_private m' = m_private m \<Longrightarrow> get_fiber m' p = get_fiber m p"
  by (intro get_fiber_cong m_private_fields)

text \<open>The inbox of \<open>m'\<close> is that of \<open>m\<close> with events added at the end; nothing else differs.\<close>

definition inbox_grows :: "module_t \<Rightarrow> module_t \<Rightarrow> bool" where
  "inbox_grows m m' \<longleftrightarrow> (\<exists>evs. m' = m\<lparr>m_inbox := m_inbox m @ evs\<rparr>)"

lemma inbox_grows_refl [simp]: "inbox_grows m m"
  unfolding inbox_grows_def by (rule exI [of _ "[]"]) simp

lemma inbox_grows_put [simp]: "inbox_grows m (inbox_put m e)"
  unfolding inbox_grows_def inbox_put_def by blast

lemma inbox_grows_trans:
  assumes "inbox_grows a b" and "inbox_grows b d"
  shows "inbox_grows a d"
proof -
  obtain xs ys where "b = a\<lparr>m_inbox := m_inbox a @ xs\<rparr>" "d = b\<lparr>m_inbox := m_inbox b @ ys\<rparr>"
    using assms unfolding inbox_grows_def by blast
  then have "d = a\<lparr>m_inbox := m_inbox a @ (xs @ ys)\<rparr>" by simp
  then show ?thesis unfolding inbox_grows_def by blast
qed

text \<open>
  What a step of module \<open>i\<close>'s thread may do to the instance: to the other modules, only
  append to their inboxes.
\<close>

definition others_grow :: "nat \<Rightarrow> coseq_ctx_private \<Rightarrow> coseq_ctx_private \<Rightarrow> bool" where
  "others_grow i c c' \<longleftrightarrow>
     length (modules c') = length (modules c) \<and> nr_module c' = nr_module c \<and>
     (\<forall>j. j \<noteq> i \<longrightarrow> inbox_grows (get_mod c j) (get_mod c' j))"

lemma others_grow_refl [simp]: "others_grow i c c"
  by (simp add: others_grow_def)

lemma others_grow_trans: "others_grow i a b \<Longrightarrow> others_grow i b d \<Longrightarrow> others_grow i a d"
  unfolding others_grow_def by (metis inbox_grows_trans)

lemma others_grow_set_mod [simp]: "others_grow i c (set_mod i m c)"
  by (simp add: others_grow_def)

lemma others_grow_set_mod_right: "others_grow i c c' \<Longrightarrow> others_grow i c (set_mod i m c')"
  using others_grow_set_mod others_grow_trans by blast

lemma others_grow_length: "others_grow i c c' \<Longrightarrow> length (modules c') = length (modules c)"
  by (simp add: others_grow_def)

text \<open>The number of modules in use never exceeds the array.\<close>

definition nr_ok :: "coseq_ctx_private \<Rightarrow> bool" where
  "nr_ok c \<longleftrightarrow> nr_module c \<le> int (length (modules c))"

lemma post_effect:
  assumes "nr_ok c" and "post c dest eo en = (c', en')"
  shows "length (modules c') = length (modules c)"
    and "nr_module c' = nr_module c"
    and "inbox_grows (get_mod c j) (get_mod c' j)"
    and "next_client_id c' = next_client_id c"
    and "lib_ok en' = lib_ok en" "clock en' = clock en" "log_cb en' = log_cb en"
proof -
  have valid: "nat dest < length (modules c)" if "\<not> dest < 0" "\<not> nr_module c \<le> dest"
    using that assms(1) by (simp add: nr_ok_def)
  show "length (modules c') = length (modules c)" "nr_module c' = nr_module c"
    "next_client_id c' = next_client_id c"
    "lib_ok en' = lib_ok en" "clock en' = clock en" "log_cb en' = log_cb en"
    using assms(2) by (auto simp: post_def split: option.splits if_splits)
  show "inbox_grows (get_mod c j) (get_mod c' j)"
    using assms(2) valid
    by (cases "j = nat dest") (auto simp: post_def split: option.splits if_splits)
qed

lemma post_ev_effect:
  assumes "nr_ok c" and "valid_mod c i"
  shows "others_grow i c (post_ev c i dest made)"
    and "m_private (get_mod (post_ev c i dest made) i) = m_private (get_mod c i)"
    and "lib_ok (m_env (get_mod (post_ev c i dest made) i)) = lib_ok (snd made)"
    and "clock (m_env (get_mod (post_ev c i dest made) i)) = clock (snd made)"
    and "next_client_id (post_ev c i dest made) = next_client_id c"
    and "\<exists>evs. m_inbox (get_mod (post_ev c i dest made) i) = m_inbox (get_mod c i) @ evs"
proof -
  obtain c1 en where p: "post c dest (fst made) (snd made) = (c1, en)" by fastforce
  note eff = post_effect [OF assms(1) p]
  have eq: "post_ev c i dest made = set_mod i ((get_mod c1 i)\<lparr>m_env := en\<rparr>) c1"
    by (simp add: post_ev_def p)
  have v: "valid_mod c1 i" using eff(1) assms(2) by simp
  have "others_grow i c c1" using eff(1-3) by (simp add: others_grow_def)
  then show "others_grow i c (post_ev c i dest made)"
    unfolding eq by (rule others_grow_set_mod_right)
  show "m_private (get_mod (post_ev c i dest made) i) = m_private (get_mod c i)"
    using eff(3) [of i] v by (auto simp: eq inbox_grows_def)
  show "lib_ok (m_env (get_mod (post_ev c i dest made) i)) = lib_ok (snd made)"
    "clock (m_env (get_mod (post_ev c i dest made) i)) = clock (snd made)"
    "next_client_id (post_ev c i dest made) = next_client_id c"
    using v eff(4-6) by (simp_all add: eq)
  show "\<exists>evs. m_inbox (get_mod (post_ev c i dest made) i) = m_inbox (get_mod c i) @ evs"
    using eff(3) [of i] v by (auto simp: eq inbox_grows_def)
qed

section \<open>The queue contract\<close>

locale fifo =
  fixes contents :: "'q \<Rightarrow> 'e list" and enq :: "'q \<Rightarrow> 'e \<Rightarrow> 'q"
  assumes contents_enq: "contents (enq q e) = contents q @ [e]"
begin

lemma contents_enq_all: "contents (foldl enq q es) = contents q @ es"
  by (induction es arbitrary: q) (simp_all add: contents_enq)

lemma head_stays: "contents q \<noteq> [] \<Longrightarrow> hd (contents (foldl enq q es)) = hd (contents q)"
  by (simp add: contents_enq_all)

end

interpretation inbox_q: fifo m_inbox inbox_put
  by unfold_locales (simp add: inbox_put_def)

interpretation deferred_q: fifo m_deferred defer_ev
  by unfold_locales (simp add: defer_ev_def)

section \<open>Properties of posting\<close>

definition two_modules :: coseq_ctx_private where
  "two_modules = zero_ctx\<lparr>nr_module := 2\<rparr>"

lemma two_modules_simps [simp]:
  "nr_module two_modules = 2" "length (modules two_modules) = 32" "nr_ok two_modules"
  by (simp_all add: two_modules_def zero_ctx_def MAX_MODULE_def nr_ok_def)

lemma two_modules_get [simp]: "i < 32 \<Longrightarrow> get_mod two_modules i = zero_module"
  by (simp add: two_modules_def zero_ctx_def get_mod_def MAX_MODULE_def)

definition start_ev :: "u32 \<Rightarrow> ev_t" where
  "start_ev r = \<lparr>e_type = EV_START, e_seq_idx = 0, e_req_id = r, e_requester = 1,
     e_result = COSEQ_RSLT_IGNORE, e_category = 0, e_client_id = 0, e_msg = None, e_msg_size = 0\<rparr>"

definition post_all :: "(int \<times> ev_t) list \<Rightarrow> coseq_ctx_private \<times> env \<Rightarrow> coseq_ctx_private \<times> env" where
  "post_all ps s = foldl (\<lambda>(c, en) (dest, e). post c dest (Some e) en) s ps"

lemma post_all_step:
  assumes "nr_ok c" and "int j < nr_module c"
  shows "nr_ok (fst (post c dest eo en))" "nr_module (fst (post c dest eo en)) = nr_module c"
    "get_mod (fst (post c dest eo en)) j =
      (case eo of None \<Rightarrow> get_mod c j
       | Some e \<Rightarrow> if dest = int j then inbox_put (get_mod c j) e else get_mod c j)"
proof -
  have "j < length (modules c)" using assms by (simp add: nr_ok_def)
  then show "nr_ok (fst (post c dest eo en))" "nr_module (fst (post c dest eo en)) = nr_module c"
    "get_mod (fst (post c dest eo en)) j =
      (case eo of None \<Rightarrow> get_mod c j
       | Some e \<Rightarrow> if dest = int j then inbox_put (get_mod c j) e else get_mod c j)"
    using assms by (auto simp: post_def nr_ok_def split: option.split)
qed

text \<open>
  Posting loses, duplicates and reorders nothing. After any series of posts to any
  destinations, the inbox of a module in use holds what it held before, followed by exactly
  the events posted to it, in the order of the posts; events for an invalid index are dropped.
\<close>

theorem posts_delivered_in_order:
  assumes "nr_ok c" and "int j < nr_module c"
  shows "get_mod (fst (post_all ps (c, en))) j =
    (get_mod c j)\<lparr>m_inbox := m_inbox (get_mod c j) @ map snd (filter (\<lambda>p. fst p = int j) ps)\<rparr>"
  using assms
proof (induction ps arbitrary: c en)
  case Nil
  then show ?case by (simp add: post_all_def)
next
  case (Cons p ps)
  let ?s = "post c (fst p) (Some (snd p)) en"
  note st = post_all_step [OF Cons.prems, of "fst p" "Some (snd p)" en]
  have "post_all (p # ps) (c, en) = post_all ps (fst ?s, snd ?s)"
    by (simp add: post_all_def split_def)
  with Cons.IH [of "fst ?s" "snd ?s"] st Cons.prems(2) show ?case
    by (simp add: inbox_put_def)
qed

lemma posts_delivered_in_order_witness:
  "m_inbox (get_mod (fst (post_all [(1, start_ev 3), (0, start_ev 4), (7, start_ev 5), (1, start_ev 6)]
     (two_modules, no_env))) 1) = [start_ev 3, start_ev 6]"
  using posts_delivered_in_order [of two_modules 1
      "[(1, start_ev 3), (0, start_ev 4), (7, start_ev 5), (1, start_ev 6)]" no_env]
  by (simp add: zero_module_def)

text \<open>
  \<open>make_ev\<close> copies the message. It fails exactly when the event cannot be allocated. Otherwise the
  event carries what it was given, and its buffer holds the bytes of the message exactly, or
  nothing when the buffer cannot be allocated; \<open>msg_size\<close> is always the length of the buffer.
\<close>

theorem make_ev_copies:
  assumes "readable msg msg_size"
  shows "case fst (make_ev t s r q res msg msg_size en) of
      None \<Rightarrow> \<not> lib_ok en (lib_calls en)
    | Some e \<Rightarrow> lib_ok en (lib_calls en) \<and> ev_wf e \<and> e_type e = t \<and> e_seq_idx e = s \<and>
        e_req_id e = r \<and> e_requester e = q \<and> e_result e = res \<and>
        payload (e_msg e) (e_msg_size e) =
          (if payload msg msg_size \<noteq> [] \<and> \<not> lib_ok en (Suc (lib_calls en)) then []
           else payload msg msg_size)"
  using assms
  by (auto simp: make_ev_def Let_def lib_call_def ev_wf_def readable_def payload_def
      split: option.split)

lemma make_ev_copies_witness:
  "payload (e_msg (the (fst (make_ev EV_START 0 1 0 COSEQ_RSLT_IGNORE (Some [1, 2, 3]) 2 no_env)))) 2 = [1, 2]"
  using make_ev_copies [where msg = "Some [1, 2, 3]" and msg_size = 2 and t = EV_START and s = 0
      and r = 1 and q = 0 and res = COSEQ_RSLT_IGNORE and en = no_env]
  by (auto simp: readable_def payload_def ev_wf_def split: option.splits)

declare make_ev_def [eval_defs] inbox_put_def [eval_defs] post_def [eval_defs]
  post_ev_def [eval_defs] defer_ev_def [eval_defs]

end
