(* ===== verification/CoseqFiber.thy ===== *)
theory CoseqFiber
  imports CoseqEvents
begin

text \<open>
  The scheduler's private tables: the fibers that wait for a reply (\<open>pending\<close>), the buffer a
  fiber reads its last event from (\<open>set_src\<close>), and the creation of a fiber (\<open>new_fiber\<close>). The
  contract of the pending table is the locale \<open>waiting_table\<close>.
\<close>

section \<open>Who waits for which reply\<close>

definition pending_add :: "module_t \<Rightarrow> u32 \<Rightarrow> fptr \<Rightarrow> module_t" where
  "pending_add m req_id f =
     (let (got, en) = lib_call (m_env m)
      in if \<not> got then m\<lparr>m_env := LOGE (Pending_add_failed req_id) en\<rparr>
         else m\<lparr>m_env := en, m_pending := \<lparr>p_req_id = req_id, p_f = f\<rparr> # m_pending m\<rparr>)"

fun pending_find :: "pending_t list \<Rightarrow> u32 \<Rightarrow> fptr option" where
  "pending_find [] req_id = None"
| "pending_find (p # ps) req_id =
     (if p_req_id p = req_id then Some (p_f p) else pending_find ps req_id)"

definition pending_peek :: "module_t \<Rightarrow> u32 \<Rightarrow> fptr option" where
  "pending_peek m req_id = pending_find (m_pending m) req_id"

definition pending_take :: "module_t \<Rightarrow> u32 \<Rightarrow> fptr option \<times> module_t" where
  "pending_take m req_id =
     (pending_find (m_pending m) req_id,
      m\<lparr>m_pending := remove_first (\<lambda>p. p_req_id p = req_id) (m_pending m)\<rparr>)"

lemma pending_add_keeps [simp]:
  "m_fibers (pending_add m r f) = m_fibers m" "m_idx (pending_add m r f) = m_idx m"
  "m_inbox (pending_add m r f) = m_inbox m" "m_deferred (pending_add m r f) = m_deferred m"
  "m_locked_by (pending_add m r f) = m_locked_by m" "m_current (pending_add m r f) = m_current m"
  "m_next_req_id (pending_add m r f) = m_next_req_id m"
  "m_next_fptr (pending_add m r f) = m_next_fptr m" "m_stop (pending_add m r f) = m_stop m"
  "m_seqs (pending_add m r f) = m_seqs m" "m_nr_seq (pending_add m r f) = m_nr_seq m"
  "m_recv_notify (pending_add m r f) = m_recv_notify m"
  "m_notify_clients (pending_add m r f) = m_notify_clients m"
  "lib_ok (m_env (pending_add m r f)) = lib_ok (m_env m)"
  "clock (m_env (pending_add m r f)) = clock (m_env m)"
  "get_fiber (pending_add m r f) p = get_fiber m p"
  by (simp_all add: pending_add_def lib_call_def get_fiber_def Let_def)

lemma pending_add_pending:
  "m_pending (pending_add m r f) =
     (if lib_ok (m_env m) (lib_calls (m_env m))
      then \<lparr>p_req_id = r, p_f = f\<rparr> # m_pending m else m_pending m)"
  by (simp add: pending_add_def lib_call_def Let_def)

lemma pending_find_None: "pending_find ps r = None \<longleftrightarrow> r \<notin> p_req_id ` set ps"
  by (induction ps) auto

lemma pending_find_Some:
  "pending_find ps r = Some f \<Longrightarrow> \<exists>p \<in> set ps. p_req_id p = r \<and> p_f p = f"
  by (induction ps) (auto split: if_splits)

lemma pending_find_remove_other:
  "r \<noteq> r' \<Longrightarrow> pending_find (remove_first (\<lambda>p. p_req_id p = r) ps) r' = pending_find ps r'"
  by (induction ps) auto

lemma pending_find_remove_same:
  "distinct (map p_req_id ps) \<Longrightarrow>
    pending_find (remove_first (\<lambda>p. p_req_id p = r) ps) r = None"
  by (induction ps) (auto simp: pending_find_None)

text \<open>
  The table as its users see it. An entry that is taken is gone: a second reply with the
  same id finds nothing. The invariant says that no id waits twice.
\<close>

locale waiting_table =
  fixes look :: "'t \<Rightarrow> 'k \<Rightarrow> 'v option" and add :: "'t \<Rightarrow> 'k \<Rightarrow> 'v \<Rightarrow> 't"
    and del :: "'t \<Rightarrow> 'k \<Rightarrow> 't" and inv :: "'t \<Rightarrow> bool"
  assumes look_add: "look (add t k v) k' = (if k' = k then Some v else look t k')"
    and look_del: "inv t \<Longrightarrow> look (del t k) k' = (if k' = k then None else look t k')"
    and inv_add: "inv t \<Longrightarrow> look t k = None \<Longrightarrow> inv (add t k v)"
    and inv_del: "inv t \<Longrightarrow> inv (del t k)"
begin

lemma look_del_all: "inv t \<Longrightarrow> look (foldl del t ks) k = (if k \<in> set ks then None else look t k)"
  by (induction ks arbitrary: t) (auto simp: look_del inv_del)

lemma add_del: "inv t \<Longrightarrow> look t k = None \<Longrightarrow> look (del (add t k v) k) k' = look t k'"
  by (simp add: look_del look_add inv_add)

lemma del_again: "inv t \<Longrightarrow> look (del (del t k) k) k' = look (del t k) k'"
  by (simp add: look_del inv_del)

end

interpretation pending_tbl: waiting_table pending_find
  "\<lambda>ps r f. \<lparr>p_req_id = r, p_f = f\<rparr> # ps" "\<lambda>ps r. remove_first (\<lambda>p. p_req_id p = r) ps"
  "\<lambda>ps. distinct (map p_req_id ps)"
  by unfold_locales
    (auto simp: pending_find_remove_other pending_find_remove_same pending_find_None
      intro: distinct_map_remove_first)

section \<open>The event a fiber sees\<close>

definition set_src ::
    "fiber_t \<Rightarrow> cbuf \<Rightarrow> nat \<Rightarrow> coseq_result_t \<Rightarrow> u8 \<Rightarrow> u8 \<Rightarrow> u8 \<Rightarrow> u32 \<Rightarrow> env \<Rightarrow> fiber_t \<times> env"
where
  "set_src f msg size0 r thread_idx seq_idx client_id req_id en =
     (let (f1, msg_size, en1) =
            (if size0 > f_src_cap f then
               (let (got, en0) = lib_call en
                in if \<not> got then (f, f_src_cap f, LOGE (Set_src_realloc_failed size0) en0)
                   else (f\<lparr>f_src_buf := f_src_buf f @ replicate (size0 - f_src_cap f) 0,
                           f_src_cap := size0\<rparr>, size0, en0))
             else (f, size0, en));
          buf = (case msg of
                   None \<Rightarrow> f_src_buf f1
                 | Some b \<Rightarrow> if msg_size > 0 then take msg_size b @ drop msg_size (f_src_buf f1)
                             else f_src_buf f1)
      in (f1\<lparr>f_src_buf := buf,
             f_src := \<lparr>s_thread_idx = thread_idx, s_seq_idx = seq_idx, s_req_id = req_id,
                       s_result = r, s_client_id = client_id, s_msg = take msg_size buf\<rparr>\<rparr>,
          en1))"

text \<open>The recorded capacity is the size of the allocation.\<close>

definition buf_wf :: "fiber_t \<Rightarrow> bool" where
  "buf_wf f \<longleftrightarrow> length (f_src_buf f) = f_src_cap f \<and> length (s_msg (f_src f)) \<le> f_src_cap f"

lemma set_src_env [simp]:
  "lib_ok (snd (set_src f msg sz r t s cl rid en)) = lib_ok en"
  "clock (snd (set_src f msg sz r t s cl rid en)) = clock en"
  by (simp_all add: set_src_def lib_call_def Let_def)

text \<open>Apart from the buffer and the source, a fiber keeps everything.\<close>

definition src_only :: "fiber_t \<Rightarrow> fiber_t \<Rightarrow> bool" where
  "src_only f f' \<longleftrightarrow>
     f' = f\<lparr>f_src := f_src f', f_src_buf := f_src_buf f', f_src_cap := f_src_cap f'\<rparr>"

lemma set_src_only: "src_only f (fst (set_src f msg sz r t s cl rid en))"
  by (auto simp: src_only_def set_src_def Let_def lib_call_def)

lemma src_only_fields:
  assumes "src_only f f'"
  shows "f_self f' = f_self f" "f_ctx f' = f_ctx f" "f_fn f' = f_fn f" "f_seq_idx f' = f_seq_idx f"
    "f_reply_to f' = f_reply_to f" "f_reply_req_id f' = f_reply_req_id f"
    "f_waiting_reply f' = f_waiting_reply f" "f_wait_req_id f' = f_wait_req_id f"
    "f_waiting_timer f' = f_waiting_timer f" "f_deadline f' = f_deadline f"
    "f_waiting_any f' = f_waiting_any f" "f_async_outstanding f' = f_async_outstanding f"
    "f_rq f' = f_rq f" "f_done f' = f_done f" "f_seq_name f' = f_seq_name f"
proof -
  obtain a b d where eq: "f' = f\<lparr>f_src := a, f_src_buf := b, f_src_cap := d\<rparr>"
    using assms unfolding src_only_def by blast
  show "f_self f' = f_self f" "f_ctx f' = f_ctx f" "f_fn f' = f_fn f" "f_seq_idx f' = f_seq_idx f"
    "f_reply_to f' = f_reply_to f" "f_reply_req_id f' = f_reply_req_id f"
    "f_waiting_reply f' = f_waiting_reply f" "f_wait_req_id f' = f_wait_req_id f"
    "f_waiting_timer f' = f_waiting_timer f" "f_deadline f' = f_deadline f"
    "f_waiting_any f' = f_waiting_any f" "f_async_outstanding f' = f_async_outstanding f"
    "f_rq f' = f_rq f" "f_done f' = f_done f" "f_seq_name f' = f_seq_name f"
    by (simp_all add: eq)
qed

lemmas set_src_keeps = src_only_fields [OF set_src_only]

lemma set_src_src:
  "s_result (f_src (fst (set_src f msg sz r t s cl rid en))) = r"
  "s_thread_idx (f_src (fst (set_src f msg sz r t s cl rid en))) = t"
  "s_seq_idx (f_src (fst (set_src f msg sz r t s cl rid en))) = s"
  "s_client_id (f_src (fst (set_src f msg sz r t s cl rid en))) = cl"
  "s_req_id (f_src (fst (set_src f msg sz r t s cl rid en))) = rid"
  by (simp_all add: set_src_def Let_def split: prod.split)

lemma set_src_buf_wf:
  assumes "length (f_src_buf f) = f_src_cap f" and "readable msg sz"
  shows "buf_wf (fst (set_src f msg sz r t s cl rid en))"
  using assms
  by (auto simp: set_src_def buf_wf_def readable_def Let_def lib_call_def split: option.splits)

lemma set_src_msg:
  assumes "readable msg sz" and "msg = None \<Longrightarrow> sz = 0" and "all_ok en"
  shows "s_msg (f_src (fst (set_src f msg sz r t s cl rid en))) = payload msg sz"
  using assms
  by (auto simp: set_src_def readable_def payload_def Let_def all_ok_lib_call split: option.splits)

section \<open>Starting a sequence\<close>

definition new_fiber ::
    "module_t \<Rightarrow> seq_prog \<Rightarrow> u8 \<Rightarrow> int \<Rightarrow> u32 \<Rightarrow> cbuf \<Rightarrow> nat \<Rightarrow> coseq_result_t \<Rightarrow> u8 \<Rightarrow> u8
      \<Rightarrow> fptr option \<times> module_t"
where
  "new_fiber m fn seq_idx reply_to reply_req_id msg msg_size r thread_idx client_id =
     (let (got, en1) = lib_call (m_env m)
      in if \<not> got then (None, m\<lparr>m_env := LOGE New_fiber_calloc_failed en1\<rparr>)
         else let (got2, en2) = lib_call en1
      in if \<not> got2 then (None, m\<lparr>m_env := LOGE New_fiber_stack_failed en2\<rparr>)
         else let f0 = \<lparr>f_self = m_next_fptr m, f_ctx = At_entry, f_fn = fn, f_seq_idx = seq_idx,
                        f_seq_name = None, f_reply_to = reply_to,
                        f_reply_req_id = reply_req_id, f_src = zero_src, f_src_buf = [],
                        f_src_cap = 0, f_waiting_reply = False, f_wait_req_id = 0,
                        f_waiting_timer = False, f_deadline = Timespec 0 0,
                        f_waiting_any = False, f_async_outstanding = 0, f_rq = [],
                        f_done = False\<rparr>;
                  (f1, en3) = set_src f0 msg msg_size r thread_idx seq_idx client_id
                                reply_req_id en2;
                  (got4, en4) = lib_call en3
      in if \<not> got4 then (None, m\<lparr>m_env := LOGE New_fiber_getcontext_failed en4\<rparr>)
         else (Some (f_self f1),
               m\<lparr>m_env := en4, m_next_fptr := m_next_fptr m + 1,
                 m_fibers := f1 # m_fibers m\<rparr>))"

text \<open>A fiber that has been created and not yet been switched in.\<close>

definition fresh_fiber :: "fiber_t \<Rightarrow> bool" where
  "fresh_fiber f \<longleftrightarrow> f_ctx f = At_entry \<and> \<not> f_waiting_reply f \<and> \<not> f_waiting_timer f \<and>
     \<not> f_waiting_any f \<and> f_async_outstanding f = 0 \<and> f_rq f = [] \<and> \<not> f_done f"

lemma new_fiber_None:
  assumes "new_fiber m fn s q r msg sz res t cl = (None, m')"
  shows "\<exists>en. m' = m\<lparr>m_env := en\<rparr> \<and> lib_ok en = lib_ok (m_env m) \<and> clock en = clock (m_env m)"
  using assms by (auto simp: new_fiber_def Let_def split_def split: if_splits)

lemma new_fiber_Some:
  assumes "new_fiber m fn s q r msg sz res t cl = (Some p, m')"
  obtains f en where "m' = m\<lparr>m_env := en, m_next_fptr := m_next_fptr m + 1, m_fibers := f # m_fibers m\<rparr>"
    and "p = m_next_fptr m" and "f_self f = p" and "fresh_fiber f" and "f_fn f = fn"
    and "f_seq_idx f = s" and "f_reply_to f = q" and "f_reply_req_id f = r"
    and "lib_ok en = lib_ok (m_env m)" and "clock en = clock (m_env m)"
    and "s_result (f_src f) = res" and "s_thread_idx (f_src f) = t" and "s_client_id (f_src f) = cl"
    and "s_req_id (f_src f) = r" and "s_seq_idx (f_src f) = s"
    and "readable msg sz \<Longrightarrow> buf_wf f"
    and "readable msg sz \<Longrightarrow> (msg = None \<Longrightarrow> sz = 0) \<Longrightarrow> all_ok (m_env m) \<Longrightarrow> s_msg (f_src f) = payload msg sz"
proof -
  define f0 where "f0 = \<lparr>f_self = m_next_fptr m, f_ctx = At_entry, f_fn = fn, f_seq_idx = s,
    f_seq_name = None, f_reply_to = q, f_reply_req_id = r, f_src = zero_src, f_src_buf = [],
    f_src_cap = 0, f_waiting_reply = False, f_wait_req_id = 0, f_waiting_timer = False,
    f_deadline = Timespec 0 0, f_waiting_any = False, f_async_outstanding = 0, f_rq = [],
    f_done = False\<rparr>"
  define en2 where "en2 = snd (lib_call (snd (lib_call (m_env m))))"
  define f where "f = fst (set_src f0 msg sz res t s cl r en2)"
  define en where "en = snd (lib_call (snd (set_src f0 msg sz res t s cl r en2)))"
  have m': "m' = m\<lparr>m_env := en, m_next_fptr := m_next_fptr m + 1, m_fibers := f # m_fibers m\<rparr>"
    and p: "p = f_self f"
    using assms
    by (auto simp: new_fiber_def Let_def split_def f0_def f_def en_def en2_def split: if_splits)
  have self: "f_self f = m_next_fptr m" and fresh: "fresh_fiber f" and fn: "f_fn f = fn"
    and fs: "f_seq_idx f = s" "f_reply_to f = q" "f_reply_req_id f = r"
    unfolding f_def fresh_fiber_def set_src_keeps by (simp_all add: f0_def)
  have wf0: "length (f_src_buf f0) = f_src_cap f0" by (simp add: f0_def)
  have ok2: "all_ok en2" if "all_ok (m_env m)" using that by (simp add: en2_def all_ok_def)
  show ?thesis
  proof (rule that [OF m'])
    show "readable msg sz \<Longrightarrow> buf_wf f" unfolding f_def by (rule set_src_buf_wf [OF wf0])
    show "readable msg sz \<Longrightarrow> (msg = None \<Longrightarrow> sz = 0) \<Longrightarrow> all_ok (m_env m) \<Longrightarrow>
        s_msg (f_src f) = payload msg sz"
      unfolding f_def by (rule set_src_msg) (use ok2 in auto)
  qed (use p self fresh fn fs in \<open>simp_all add: en_def en2_def f_def set_src_src\<close>)
qed

section \<open>Properties of the tables and buffers\<close>

text \<open>
  C32: \<open>set_src\<close> never writes past the buffer of a fiber. The recorded capacity stays the size of the
  allocation and never shrinks. The sequence sees the whole message when the buffer is large
  enough or can be grown, and otherwise the prefix that fits.
\<close>

theorem set_src_bounded:
  assumes "length (f_src_buf f) = f_src_cap f" and "readable (Some b) sz"
    and "set_src f (Some b) sz r t s cl rid en = (f', en')"
  shows "buf_wf f' \<and> f_src_cap f \<le> f_src_cap f' \<and>
    s_msg (f_src f') =
      (if sz \<le> f_src_cap f \<or> lib_ok en (lib_calls en) then take sz b else take (f_src_cap f) b)"
proof -
  have "buf_wf f'"
    using set_src_buf_wf [OF assms(1,2), of r t s cl rid en] assms(3) by simp
  moreover have "f_src_cap f \<le> f_src_cap f' \<and> s_msg (f_src f') =
      (if sz \<le> f_src_cap f \<or> lib_ok en (lib_calls en) then take sz b else take (f_src_cap f) b)"
    using assms by (auto simp: set_src_def readable_def Let_def lib_call_def split: if_splits)
  ultimately show ?thesis by blast
qed

definition blank_fiber :: fiber_t where
  "blank_fiber = the (get_fiber (snd (new_fiber zero_module Return 0 0 0 None 0 COSEQ_RSLT_IGNORE 0 0)) 0)"

lemma blank_fiber_eq: "blank_fiber =
    \<lparr>f_self = 0, f_ctx = At_entry, f_fn = Return, f_seq_idx = 0, f_seq_name = None, f_reply_to = 0,
     f_reply_req_id = 0, f_src = zero_src, f_src_buf = [], f_src_cap = 0, f_waiting_reply = False,
     f_wait_req_id = 0, f_waiting_timer = False, f_deadline = Timespec 0 0, f_waiting_any = False,
     f_async_outstanding = 0, f_rq = [], f_done = False\<rparr>"
  by (simp add: blank_fiber_def new_fiber_def set_src_def zero_module_def no_env_def lib_call_def
      get_fiber_def zero_src_def)

lemma set_src_bounded_witness:
  "s_msg (f_src (fst (set_src blank_fiber (Some [5, 6, 7]) 3 COSEQ_RSLT_SUCCESS 1 2 0 9
      (no_env\<lparr>lib_ok := (\<lambda>_. False)\<rparr>)))) = []"
  using set_src_bounded [OF _ _ prod.collapse [symmetric], where f = blank_fiber and b = "[5, 6, 7]"
      and sz = 3 and r = COSEQ_RSLT_SUCCESS and t = 1 and s = 2 and cl = 0 and rid = 9
      and en = "no_env\<lparr>lib_ok := (\<lambda>_. False)\<rparr>"]
  by (simp add: blank_fiber_eq readable_def)

text \<open>
  A reply is matched at most once. Taking the entry of an id yields the fiber a look-up sees, and
  afterwards a second reply with that id finds nothing, while all other ids are untouched.
\<close>

theorem pending_take_once:
  assumes "distinct (map p_req_id (m_pending m))" and "pending_take m r = (hit, m')"
  shows "hit = pending_peek m r \<and> pending_peek m' r = None \<and>
    (\<forall>r'. r' \<noteq> r \<longrightarrow> pending_peek m' r' = pending_peek m r') \<and>
    distinct (map p_req_id (m_pending m'))"
  using assms(2) pending_tbl.look_del [OF assms(1), of r] pending_tbl.inv_del [OF assms(1), of r]
  by (auto simp: pending_take_def pending_peek_def)

lemma pending_take_once_witness:
  "pending_peek (snd (pending_take (zero_module\<lparr>m_pending :=
      [\<lparr>p_req_id = 4, p_f = 1\<rparr>, \<lparr>p_req_id = 2, p_f = 0\<rparr>]\<rparr>) 4)) 4 = None"
proof -
  let ?m = "zero_module\<lparr>m_pending := [\<lparr>p_req_id = 4, p_f = 1\<rparr>, \<lparr>p_req_id = 2, p_f = 0\<rparr>]\<rparr>"
  from pending_take_once [of ?m 4 "fst (pending_take ?m 4)" "snd (pending_take ?m 4)"]
  show ?thesis by simp
qed

text \<open>
  C26: What is sent is what is seen. Without allocation failures, the sequence that an event starts finds
  exactly the bytes of the request in its source, with the request's id and the sender's index,
  in a buffer of the right size, and its fiber is at the head of the module's list.
\<close>

theorem event_message_roundtrip:
  assumes "readable msg msg_size" and "all_ok en" and "all_ok (m_env m)"
    and "fst (make_ev EV_START s r q COSEQ_RSLT_IGNORE msg msg_size en) = Some e"
    and "new_fiber m fn (e_seq_idx e) (e_requester e) (e_req_id e) (e_msg e) (e_msg_size e)
      COSEQ_RSLT_IGNORE (word_of_int (e_requester e)) 0 = (hit, m')"
  shows "hit = Some (m_next_fptr m) \<and>
    (\<exists>f. m_fibers m' = f # m_fibers m \<and> f_self f = m_next_fptr m \<and> buf_wf f \<and>
      s_msg (f_src f) = payload msg msg_size \<and> s_req_id (f_src f) = r \<and>
      s_thread_idx (f_src f) = word_of_int q \<and> f_reply_to f = q \<and> f_reply_req_id f = r \<and>
      f_seq_idx f = s \<and> f_ctx f = At_entry \<and> f_fn f = fn)"
proof -
  note ef = make_ev_fields [OF assms(4)]
  have ewf: "ev_wf e" by (rule make_ev_wf [OF assms(4,1)])
  have pay: "payload (e_msg e) (e_msg_size e) = payload msg msg_size"
    using make_ev_all_ok [OF assms(2), of EV_START s r q COSEQ_RSLT_IGNORE msg msg_size] assms(4) by auto
  have rd: "readable (e_msg e) (e_msg_size e)" "e_msg e = None \<Longrightarrow> e_msg_size e = 0"
    using ewf by (auto simp: ev_wf_def readable_def split: option.splits)
  have hit: "hit \<noteq> None"
    using assms(3,5) by (auto simp: new_fiber_def Let_def split_def all_ok_def split: if_splits)
  then obtain p where p: "hit = Some p" by blast
  show ?thesis
  proof (rule new_fiber_Some [OF assms(5) [unfolded p]], intro conjI)
    fix f en'
    assume m': "m' = m\<lparr>m_env := en', m_next_fptr := m_next_fptr m + 1, m_fibers := f # m_fibers m\<rparr>"
      and f: "p = m_next_fptr m" "f_self f = p" "fresh_fiber f" "f_fn f = fn" "f_seq_idx f = e_seq_idx e"
        "f_reply_to f = e_requester e" "f_reply_req_id f = e_req_id e"
        "s_thread_idx (f_src f) = word_of_int (e_requester e)" "s_req_id (f_src f) = e_req_id e"
      and wf: "readable (e_msg e) (e_msg_size e) \<Longrightarrow> buf_wf f"
      and msg: "readable (e_msg e) (e_msg_size e) \<Longrightarrow> (e_msg e = None \<Longrightarrow> e_msg_size e = 0) \<Longrightarrow>
        all_ok (m_env m) \<Longrightarrow> s_msg (f_src f) = payload (e_msg e) (e_msg_size e)"
    show "hit = Some (m_next_fptr m)" using p f(1) by simp
    show "\<exists>f. m_fibers m' = f # m_fibers m \<and> f_self f = m_next_fptr m \<and> buf_wf f \<and>
      s_msg (f_src f) = payload msg msg_size \<and> s_req_id (f_src f) = r \<and>
      s_thread_idx (f_src f) = word_of_int q \<and> f_reply_to f = q \<and> f_reply_req_id f = r \<and>
      f_seq_idx f = s \<and> f_ctx f = At_entry \<and> f_fn f = fn"
      using m' f ef wf [OF rd(1)] msg [OF rd assms(3)] pay
      by (intro exI [of _ f]) (simp add: fresh_fiber_def)
  qed
qed

lemma event_message_roundtrip_witness:
  "let e = the (fst (make_ev EV_START 2 7 1 COSEQ_RSLT_IGNORE (Some [8, 9]) 2 no_env));
       m' = snd (new_fiber zero_module Return (e_seq_idx e) (e_requester e) (e_req_id e) (e_msg e)
         (e_msg_size e) COSEQ_RSLT_IGNORE (word_of_int (e_requester e)) 0)
   in s_msg (f_src (hd (m_fibers m'))) = [8, 9]"
proof -
  obtain e where e: "fst (make_ev EV_START 2 7 1 COSEQ_RSLT_IGNORE (Some [8, 9]) 2 no_env) = Some e"
    using make_ev_all_ok [of no_env] by (metis all_ok_def no_env_def env.select_convs(1))
  have en: "all_ok no_env" by (simp add: all_ok_def no_env_def)
  from event_message_roundtrip [OF _ en _ e prod.collapse [symmetric], of zero_module Return] en
  show ?thesis by (auto simp: e readable_def zero_module_def payload_def)
qed

declare pending_add_def [eval_defs] pending_peek_def [eval_defs] pending_take_def [eval_defs]
  set_src_def [eval_defs] new_fiber_def [eval_defs]

end
