(* ===== verification/CoseqApi.thy ===== *)
theory CoseqApi
  imports CoseqFiber
begin

text \<open>
  The calls a running sequence makes through its \<open>coseq_if_t *\<close>, and the run of a fiber from
  the moment it is switched in until it switches back to the scheduler. Every call takes the
  instance \<open>c\<close>, the index \<open>i\<close> of the module whose thread runs and the fiber \<open>f\<close> that \<open>p_if\<close>
  points to. A call that yields saves where the sequence goes on in the fiber's context.
\<close>

section \<open>Requests\<close>

text \<open>\<open>request_common\<close> up to its \<open>swapcontext\<close>; \<open>k\<close> is the code after the call.\<close>

definition request_common ::
    "coseq_ctx_private \<Rightarrow> nat \<Rightarrow> fiber_t \<Rightarrow> u8 \<Rightarrow> u8 \<Rightarrow> cbuf \<Rightarrow> nat \<Rightarrow> bool \<Rightarrow> u32
      \<Rightarrow> (coseq_src_t \<Rightarrow> seq_prog) \<Rightarrow> coseq_ctx_private"
where
  "request_common c i f module_idx seq_idx msg msg_size with_timeout timeout_msec k =
     (let m = get_mod c i;
          rid = of_nat (m_next_req_id m);
          m1 = pending_add (m\<lparr>m_next_req_id := m_next_req_id m + 1\<rparr>) rid (f_self f);
          f1 = f\<lparr>f_waiting_reply := True, f_wait_req_id := rid\<rparr>;
          (f2, en) =
            (if with_timeout then
               (let (now, en0) = now_ts (m_env m1)
                in (f1\<lparr>f_waiting_timer := True, f_deadline := ts_add_ms now timeout_msec\<rparr>, en0))
             else (f1, m_env m1));
          m2 = put_fiber (f2\<lparr>f_ctx := After_request k\<rparr>) m1
      in post_ev (set_mod i m2 c) i (uint module_idx)
           (make_ev EV_START seq_idx rid (m_idx m) COSEQ_RSLT_IGNORE msg msg_size en))"

definition coseq_request where
  "coseq_request c i f module_idx seq_idx msg msg_size k =
     request_common c i f module_idx seq_idx msg msg_size False 0 k"

definition coseq_request_timeout where
  "coseq_request_timeout c i f module_idx seq_idx msg msg_size timeout_msec k =
     request_common c i f module_idx seq_idx msg msg_size True timeout_msec k"

definition coseq_request_async ::
    "coseq_ctx_private \<Rightarrow> nat \<Rightarrow> fiber_t \<Rightarrow> u8 \<Rightarrow> u8 \<Rightarrow> cbuf \<Rightarrow> nat \<Rightarrow> u32 \<times> coseq_ctx_private"
where
  "coseq_request_async c i f module_idx seq_idx msg msg_size =
     (let m = get_mod c i;
          rid = of_nat (m_next_req_id m);
          m1 = pending_add (m\<lparr>m_next_req_id := m_next_req_id m + 1\<rparr>) rid (f_self f);
          m2 = put_fiber (f\<lparr>f_async_outstanding := f_async_outstanding f + 1\<rparr>) m1
      in (rid, post_ev (set_mod i m2 c) i (uint module_idx)
             (make_ev EV_START seq_idx rid (m_idx m) COSEQ_RSLT_IGNORE msg msg_size (m_env m2))))"

definition coseq_send ::
    "coseq_ctx_private \<Rightarrow> nat \<Rightarrow> fiber_t \<Rightarrow> u8 \<Rightarrow> u8 \<Rightarrow> cbuf \<Rightarrow> nat \<Rightarrow> coseq_ctx_private"
where
  "coseq_send c i f module_idx seq_idx msg msg_size =
     (let m = get_mod c i;
          rid = of_nat (m_next_req_id m);
          m1 = m\<lparr>m_next_req_id := m_next_req_id m + 1\<rparr>
      in post_ev (set_mod i m1 c) i (uint module_idx)
           (make_ev EV_START seq_idx rid (m_idx m) COSEQ_RSLT_IGNORE msg msg_size (m_env m1)))"

section \<open>Replies\<close>

text \<open>
  What one call does to a running fiber: it returns to the sequence, or it switches to the
  scheduler.
\<close>

datatype api_result =
    Continue coseq_ctx_private seq_prog
  | Yielded coseq_ctx_private

definition coseq_wait_reply ::
    "coseq_ctx_private \<Rightarrow> nat \<Rightarrow> fiber_t \<Rightarrow> (coseq_src_t option \<Rightarrow> seq_prog) \<Rightarrow> api_result"
where
  "coseq_wait_reply c i f k =
     (if f_async_outstanding f = 0 \<and> f_rq f = [] then Continue c (k None)
      else case f_rq f of
          rr # rest \<Rightarrow>
            (let m = get_mod c i;
                 (f1, en) = set_src (f\<lparr>f_rq := rest\<rparr>) (rr_msg rr) (rr_size rr) (rr_result rr) 0
                              (f_seq_idx f) 0 (rr_req_id rr) (m_env m);
                 f2 = f1\<lparr>f_async_outstanding := f_async_outstanding f1 - 1\<rparr>
             in Continue (set_mod i ((put_fiber f2 m)\<lparr>m_env := en\<rparr>) c) (k (Some (f_src f2))))
        | [] \<Rightarrow>
            Yielded (set_mod i (put_fiber (f\<lparr>f_waiting_any := True, f_ctx := After_wait_reply k\<rparr>)
                                  (get_mod c i)) c))"

definition ext_deliver ::
    "coseq_ctx_private \<Rightarrow> u32 \<Rightarrow> coseq_result_t \<Rightarrow> cbuf \<Rightarrow> nat \<Rightarrow> env \<Rightarrow> coseq_ctx_private \<times> env"
where
  "ext_deliver c req_id r msg msg_size en =
     (if req_id = ext_wait_rid c then
        (let c1 = c\<lparr>ext_result := r, ext_msg := None, ext_size := 0\<rparr>;
             (c2, en2) =
               (case msg of
                  None \<Rightarrow> (c1, en)
                | Some b \<Rightarrow>
                    if msg_size > 0 then
                      (let (got, en1) = lib_call en
                       in if \<not> got then (c1, LOGW (Ext_deliver_malloc_failed msg_size) en1)
                          else (c1\<lparr>ext_msg := Some (take msg_size b), ext_size := msg_size\<rparr>, en1))
                    else (c1, en))
         in (c2\<lparr>ext_ready := True\<rparr>, en2))
      else (c, en))"

definition coseq_reply ::
    "coseq_ctx_private \<Rightarrow> nat \<Rightarrow> fiber_t \<Rightarrow> coseq_result_t \<Rightarrow> cbuf \<Rightarrow> nat \<Rightarrow> coseq_ctx_private"
where
  "coseq_reply c i f result msg msg_size =
     (let m = get_mod c i
      in if f_reply_to f = EXTERNAL then
           (let (c1, en) = ext_deliver c (f_reply_req_id f) result msg msg_size (m_env m)
            in set_mod i (m\<lparr>m_env := en\<rparr>) c1)
         else post_ev c i (f_reply_to f)
                (make_ev EV_REPLY 0 (f_reply_req_id f) (m_idx m) result msg msg_size (m_env m)))"

section \<open>Timers\<close>

definition coseq_wait_timeout ::
    "coseq_ctx_private \<Rightarrow> nat \<Rightarrow> fiber_t \<Rightarrow> u32 \<Rightarrow> seq_prog \<Rightarrow> coseq_ctx_private" where
  "coseq_wait_timeout c i f msec k =
     (let m = get_mod c i;
          (now, en) = now_ts (m_env m);
          f1 = f\<lparr>f_waiting_timer := True, f_deadline := ts_add_ms now msec,
                 f_ctx := After_wait_timeout k\<rparr>
      in set_mod i ((put_fiber f1 m)\<lparr>m_env := en\<rparr>) c)"

section \<open>What a sequence can ask about itself\<close>

definition coseq_source :: "fiber_t \<Rightarrow> coseq_src_t" where
  "coseq_source f = f_src f"

definition coseq_self_module :: "module_t \<Rightarrow> u8" where
  "coseq_self_module m = word_of_int (m_idx m)"

definition coseq_self_seq :: "fiber_t \<Rightarrow> u8" where
  "coseq_self_seq f = f_seq_idx f"

definition coseq_self_user :: "module_t \<Rightarrow> nat" where
  "coseq_self_user m = m_user m"

definition coseq_self_seq_name :: "fiber_t \<Rightarrow> string" where
  "coseq_self_seq_name f = (case f_seq_name f of None \<Rightarrow> '''' | Some s \<Rightarrow> s)"

section \<open>Publish and subscribe\<close>

text \<open>The result is \<open>None\<close> for false and the id stored in \<open>*out_client_id\<close> for true.\<close>

definition coseq_reg_notify ::
    "coseq_ctx_private \<Rightarrow> nat \<Rightarrow> fiber_t \<Rightarrow> u8 \<Rightarrow> u8 option \<times> coseq_ctx_private" where
  "coseq_reg_notify c i f category =
     (let m = get_mod c i
      in if f_reply_to f = EXTERNAL then
           (None, set_mod i (m\<lparr>m_env := LOGW Reg_notify_external (m_env m)\<rparr>) c)
         else let nid = (if next_client_id c = 0xff then 0 else next_client_id c);
                  c1 = c\<lparr>next_client_id := nid + 1\<rparr>;
                  (got, en) = lib_call (m_env m)
      in if \<not> got then
           (None, set_mod i (m\<lparr>m_env := LOGE Reg_notify_malloc_failed en\<rparr>) c1)
         else let nc = \<lparr>nc_category = category, nc_listener_module = f_reply_to f,
                        nc_client_id = nid\<rparr>
      in (Some nid, set_mod i (m\<lparr>m_env := en, m_notify_clients := nc # m_notify_clients m\<rparr>) c1))"

definition coseq_unreg_notify ::
    "coseq_ctx_private \<Rightarrow> nat \<Rightarrow> u8 \<Rightarrow> u8 \<Rightarrow> bool \<times> coseq_ctx_private" where
  "coseq_unreg_notify c i category client_id =
     (let m = get_mod c i;
          hit = (\<lambda>nc. nc_category nc = category \<and> nc_client_id nc = client_id)
      in (list_ex hit (m_notify_clients m),
          set_mod i (m\<lparr>m_notify_clients := remove_first hit (m_notify_clients m)\<rparr>) c))"

text \<open>One turn of the loop over the registered clients.\<close>

definition notify_one ::
    "nat \<Rightarrow> u8 \<Rightarrow> cbuf \<Rightarrow> nat \<Rightarrow> notify_client_t \<Rightarrow> coseq_ctx_private \<Rightarrow> coseq_ctx_private" where
  "notify_one i category msg msg_size nc c =
     (if nc_category nc \<noteq> category then c
      else let m = get_mod c i;
               (eo, en) = make_ev EV_NOTIFY 0 0 (m_idx m) COSEQ_RSLT_SUCCESS msg msg_size (m_env m);
               eo1 = map_option (\<lambda>e. e\<lparr>e_category := category, e_client_id := nc_client_id nc\<rparr>) eo
           in post_ev c i (nc_listener_module nc) (eo1, en))"

definition coseq_notify ::
    "coseq_ctx_private \<Rightarrow> nat \<Rightarrow> u8 \<Rightarrow> cbuf \<Rightarrow> nat \<Rightarrow> bool \<times> coseq_ctx_private" where
  "coseq_notify c i category msg msg_size =
     (let clients = m_notify_clients (get_mod c i)
      in (list_ex (\<lambda>nc. nc_category nc = category) clients,
          fold (notify_one i category msg msg_size) clients c))"

section \<open>The module lock\<close>

definition coseq_lock :: "module_t \<Rightarrow> fiber_t \<Rightarrow> module_t" where
  "coseq_lock m f = m\<lparr>m_locked_by := Some (f_self f)\<rparr>"

definition coseq_unlock :: "module_t \<Rightarrow> fiber_t \<Rightarrow> module_t" where
  "coseq_unlock m f =
     (if m_locked_by m = Some (f_self f) then m\<lparr>m_locked_by := None\<rparr> else m)"

section \<open>Running a fiber\<close>

text \<open>\<open>fiber_entry\<close> after the sequence has returned.\<close>

definition fiber_return :: "coseq_ctx_private \<Rightarrow> nat \<Rightarrow> fiber_t \<Rightarrow> coseq_ctx_private" where
  "fiber_return c i f = set_mod i (put_fiber (f\<lparr>f_done := True, f_ctx := Finished\<rparr>) (get_mod c i)) c"

fun api_step :: "coseq_ctx_private \<Rightarrow> nat \<Rightarrow> fiber_t \<Rightarrow> seq_prog \<Rightarrow> api_result" where
  "api_step c i f Return = Yielded (fiber_return c i f)"
| "api_step c i f (Request mi si msg n k) = Yielded (coseq_request c i f mi si msg n k)"
| "api_step c i f (Request_timeout mi si msg n ms k) =
     Yielded (coseq_request_timeout c i f mi si msg n ms k)"
| "api_step c i f (Request_async mi si msg n k) =
     (let (rid, c') = coseq_request_async c i f mi si msg n in Continue c' (k rid))"
| "api_step c i f (Wait_reply k) = coseq_wait_reply c i f k"
| "api_step c i f (Send mi si msg n p) = Continue (coseq_send c i f mi si msg n) p"
| "api_step c i f (Reply r msg n p) = Continue (coseq_reply c i f r msg n) p"
| "api_step c i f (Wait_timeout ms p) = Yielded (coseq_wait_timeout c i f ms p)"
| "api_step c i f (Source k) = Continue c (k (coseq_source f))"
| "api_step c i f (Self_module k) = Continue c (k (coseq_self_module (get_mod c i)))"
| "api_step c i f (Self_seq k) = Continue c (k (coseq_self_seq f))"
| "api_step c i f (Self_user k) = Continue c (k (coseq_self_user (get_mod c i)))"
| "api_step c i f (Self_seq_name k) = Continue c (k (coseq_self_seq_name f))"
| "api_step c i f (Reg_notify cat k) =
     (let (r, c') = coseq_reg_notify c i f cat in Continue c' (k r))"
| "api_step c i f (Unreg_notify cat cid k) =
     (let (r, c') = coseq_unreg_notify c i cat cid in Continue c' (k r))"
| "api_step c i f (Notify cat msg n k) =
     (let (r, c') = coseq_notify c i cat msg n in Continue c' (k r))"
| "api_step c i f (Lock p) = Continue (set_mod i (coseq_lock (get_mod c i) f) c) p"
| "api_step c i f (Unlock p) = Continue (set_mod i (coseq_unlock (get_mod c i) f) c) p"
| "api_step c i f (Access upd k) = Continue (c\<lparr>user_mem := upd (user_mem c)\<rparr>) (k (user_mem c))"

text \<open>
  The undefined behaviour a scheduler thread can run into, with the state it happens in: using
  the memory of a fiber that has been freed, switching to a context whose entry function has
  returned, and reading past the end of the table of sequences.
\<close>

datatype ub =
    Use_after_free fptr (ub_state: coseq_ctx_private)
  | Resume_finished fptr (ub_state: coseq_ctx_private)
  | Out_of_bounds u8 (ub_state: coseq_ctx_private)

type_synonym run_result = "(ub, coseq_ctx_private) outcome"

text \<open>
  A sequence runs on the scheduler's thread until it yields or returns. It may loop without
  yielding, and then the scheduler never gets control back.
\<close>

partial_function (option) run_fiber ::
    "coseq_ctx_private \<Rightarrow> nat \<Rightarrow> fptr \<Rightarrow> seq_prog \<Rightarrow> run_result" where
  "run_fiber c i p prog =
     (case get_fiber (get_mod c i) p of
        None \<Rightarrow> undef (Use_after_free p c)
      | Some f \<Rightarrow>
          (case api_step c i f prog of
             Continue c' prog' \<Rightarrow> run_fiber c' i p prog'
           | Yielded c' \<Rightarrow> ok c'))"

text \<open>Switching a fiber in, and what happens between the switch and the sequence's own code.\<close>

definition switch_in ::
    "coseq_ctx_private \<Rightarrow> nat \<Rightarrow> fptr \<Rightarrow> run_result" where
  "switch_in c i p =
     (let m = get_mod c i
      in case get_fiber m p of
           None \<Rightarrow> undef (Use_after_free p c)
         | Some f \<Rightarrow>
             (case f_ctx f of
                At_entry \<Rightarrow> run_fiber c i p (f_fn f)
              | After_request k \<Rightarrow> run_fiber c i p (k (f_src f))
              | After_wait_reply k \<Rightarrow>
                  (let f1 = f\<lparr>f_async_outstanding := f_async_outstanding f - 1\<rparr>
                   in run_fiber (set_mod i (put_fiber f1 m) c) i p (k (Some (f_src f1))))
              | After_wait_timeout prog \<Rightarrow> run_fiber c i p prog
              | Finished \<Rightarrow> undef (Resume_finished p c)))"

definition resume :: "coseq_ctx_private \<Rightarrow> nat \<Rightarrow> fptr \<Rightarrow> run_result" where
  "resume c i p =
     (let m = get_mod c i
      in case get_fiber m p of
           None \<Rightarrow> undef (Use_after_free p c)
         | Some f \<Rightarrow>
             (let f1 = f\<lparr>f_waiting_timer := False, f_waiting_reply := False,
                         f_waiting_any := False\<rparr>;
                  c1 = set_mod i ((put_fiber f1 m)\<lparr>m_current := Some p\<rparr>) c
              in obind (switch_in c1 i p)
                   (\<lambda>c2. ok (set_mod i ((get_mod c2 i)\<lparr>m_current := None\<rparr>) c2))))"

text \<open>\<open>coseq_gather\<close> as the code a sequence runs: \<open>cb\<close> acts on the state behind \<open>user\<close>.\<close>

primcorec coseq_gather ::
    "(coseq_src_t \<Rightarrow> 'u \<Rightarrow> 'u) \<Rightarrow> 'u \<Rightarrow> int \<Rightarrow> (int \<Rightarrow> 'u \<Rightarrow> seq_prog) \<Rightarrow> seq_prog" where
  "coseq_gather cb user n k =
     Wait_reply (\<lambda>r. case r of
         None \<Rightarrow> k n user
       | Some s \<Rightarrow> coseq_gather cb (cb s user) (n + 1) k)"

section \<open>Collecting replies\<close>

text \<open>What a sequence sees of a queued reply.\<close>

definition reply_src :: "u8 \<Rightarrow> reply_rec_t \<Rightarrow> coseq_src_t" where
  "reply_src seq_idx rr = \<lparr>s_thread_idx = 0, s_seq_idx = seq_idx, s_req_id = rr_req_id rr,
     s_result = rr_result rr, s_client_id = 0, s_msg = payload (rr_msg rr) (rr_size rr)\<rparr>"

definition rr_wf :: "reply_rec_t \<Rightarrow> bool" where
  "rr_wf rr \<longleftrightarrow> (case rr_msg rr of None \<Rightarrow> rr_size rr = 0 | Some b \<Rightarrow> length b = rr_size rr)"

lemma set_src_reply:
  assumes "rr_wf rr" and "all_ok en"
  shows "f_src (fst (set_src f (rr_msg rr) (rr_size rr) (rr_result rr) 0 s 0 (rr_req_id rr) en)) = reply_src s rr"
proof (rule coseq_src_t.equality)
  have "readable (rr_msg rr) (rr_size rr)" "rr_msg rr = None \<Longrightarrow> rr_size rr = 0"
    using assms(1) by (auto simp: rr_wf_def readable_def split: option.splits)
  from set_src_msg [OF this assms(2)]
  show "s_msg (f_src (fst (set_src f (rr_msg rr) (rr_size rr) (rr_result rr) 0 s 0 (rr_req_id rr) en))) =
      s_msg (reply_src s rr)" by (simp add: reply_src_def)
qed (simp_all add: set_src_src reply_src_def)

lemma wait_reply_queued:
  assumes f: "get_fiber (get_mod c i) p = Some f" and rq: "f_rq f = rr # rest" and v: "valid_mod c i"
    and en: "all_ok (m_env (get_mod c i))" and wf: "rr_wf rr"
  shows "\<exists>c' f'. coseq_wait_reply c i f k = Continue c' (k (Some (reply_src (f_seq_idx f) rr))) \<and>
    get_fiber (get_mod c' i) p = Some f' \<and> f_rq f' = rest \<and>
    f_async_outstanding f' = f_async_outstanding f - 1 \<and> f_seq_idx f' = f_seq_idx f \<and>
    all_ok (m_env (get_mod c' i)) \<and> length (modules c') = length (modules c) \<and>
    m_pending (get_mod c' i) = m_pending (get_mod c i) \<and>
    (\<forall>j. j \<noteq> i \<longrightarrow> get_mod c' j = get_mod c j)"
proof -
  have p: "f_self f = p" by (rule get_fiber_self [OF f])
  define d where "d = set_src (f\<lparr>f_rq := rest\<rparr>) (rr_msg rr) (rr_size rr) (rr_result rr) 0
    (f_seq_idx f) 0 (rr_req_id rr) (m_env (get_mod c i))"
  define f2 where "f2 = (fst d)\<lparr>f_async_outstanding := f_async_outstanding (fst d) - 1\<rparr>"
  define c' where "c' = set_mod i ((put_fiber f2 (get_mod c i))\<lparr>m_env := snd d\<rparr>) c"
  have "f_src f2 = reply_src (f_seq_idx f) rr" by (simp add: f2_def d_def set_src_reply wf en)
  then have "coseq_wait_reply c i f k = Continue c' (k (Some (reply_src (f_seq_idx f) rr)))"
    by (simp add: coseq_wait_reply_def rq Let_def split_def c'_def f2_def d_def)
  moreover have "f_self f2 = p" "f_rq f2 = rest" "f_async_outstanding f2 = f_async_outstanding f - 1"
    "f_seq_idx f2 = f_seq_idx f"
    unfolding f2_def d_def by (simp_all add: set_src_keeps p)
  moreover have "all_ok (snd d)" using en by (simp add: d_def all_ok_def)
  ultimately show ?thesis
    using v f by (intro exI [of _ c'] exI [of _ f2]) (simp add: c'_def get_put_fiber)
qed

text \<open>
  C18: \<open>coseq_gather\<close> hands over every reply once, in the order of arrival. When the replies a sequence is
  owed have all arrived, gathering runs the callback over them from the first to the last, without
  giving control back, and returns their number; afterwards nothing is queued or outstanding.
\<close>

theorem gather_collects_all:
  assumes "get_fiber (get_mod c i) p = Some f" and "valid_mod c i" and "all_ok (m_env (get_mod c i))"
    and "\<forall>rr \<in> set (f_rq f). rr_wf rr" and "f_async_outstanding f = int (length (f_rq f))"
  shows "\<exists>c' f'. run_fiber c i p (coseq_gather cb u n k) =
      run_fiber c' i p (k (n + int (length (f_rq f)))
        (fold cb (map (reply_src (f_seq_idx f)) (f_rq f)) u)) \<and>
    get_fiber (get_mod c' i) p = Some f' \<and> f_rq f' = [] \<and> f_async_outstanding f' = 0 \<and>
    (\<forall>j. j \<noteq> i \<longrightarrow> get_mod c' j = get_mod c j)"
  using assms
proof (induction "f_rq f" arbitrary: c f u n)
  case Nil
  have eq: "coseq_gather cb u n k = Wait_reply (\<lambda>r. case r of
      None \<Rightarrow> k n u | Some s \<Rightarrow> coseq_gather cb (cb s u) (n + 1) k)"
    by (rule coseq_gather.code)
  have "run_fiber c i p (coseq_gather cb u n k) = run_fiber c i p (k n u)"
    by (subst run_fiber.simps) (simp add: eq Nil.prems(1,5) Nil.hyps [symmetric] coseq_wait_reply_def)
  with Nil show ?case by (intro exI [of _ c] exI [of _ f]) simp
next
  case (Cons rr rest)
  have eq: "coseq_gather cb u n k = Wait_reply (\<lambda>r. case r of
      None \<Rightarrow> k n u | Some s \<Rightarrow> coseq_gather cb (cb s u) (n + 1) k)"
    by (rule coseq_gather.code)
  let ?s = "reply_src (f_seq_idx f) rr"
  have "rr_wf rr" using Cons.prems(4) Cons.hyps(2) by (metis list.set_intros(1))
  from wait_reply_queued [OF Cons.prems(1) Cons.hyps(2) [symmetric] Cons.prems(2,3) this,
      of "\<lambda>r. case r of None \<Rightarrow> k n u | Some s \<Rightarrow> coseq_gather cb (cb s u) (n + 1) k"]
  obtain c1 f1 where st: "api_step c i f (coseq_gather cb u n k) = Continue c1 (coseq_gather cb (cb ?s u) (n + 1) k)"
    and f1: "get_fiber (get_mod c1 i) p = Some f1" "f_rq f1 = rest"
      "f_async_outstanding f1 = f_async_outstanding f - 1" "f_seq_idx f1 = f_seq_idx f"
    and c1: "all_ok (m_env (get_mod c1 i))" "length (modules c1) = length (modules c)"
      "\<And>j. j \<noteq> i \<Longrightarrow> get_mod c1 j = get_mod c j"
    by (auto simp: eq)
  have "run_fiber c i p (coseq_gather cb u n k) = run_fiber c1 i p (coseq_gather cb (cb ?s u) (n + 1) k)"
    by (subst run_fiber.simps) (simp add: Cons.prems(1) st)
  moreover have "\<exists>c' f'. run_fiber c1 i p (coseq_gather cb (cb ?s u) (n + 1) k) =
      run_fiber c' i p (k (n + 1 + int (length (f_rq f1)))
        (fold cb (map (reply_src (f_seq_idx f1)) (f_rq f1)) (cb ?s u))) \<and>
    get_fiber (get_mod c' i) p = Some f' \<and> f_rq f' = [] \<and> f_async_outstanding f' = 0 \<and>
    (\<forall>j. j \<noteq> i \<longrightarrow> get_mod c' j = get_mod c1 j)"
    by (rule Cons.hyps(1)) (use f1 c1 Cons.prems Cons.hyps(2) [symmetric] in simp_all)
  ultimately show ?case
    using f1 c1(3) Cons.hyps(2) [symmetric] by (simp add: algebra_simps)
qed

definition with_fiber :: "fiber_t \<Rightarrow> coseq_ctx_private" where
  "with_fiber f = set_mod 0 (zero_module\<lparr>m_fibers := [f]\<rparr>) two_modules"

lemma with_fiber_simps [simp]:
  "get_mod (with_fiber f) 0 = zero_module\<lparr>m_fibers := [f]\<rparr>" "nr_ok (with_fiber f)"
  "get_mod (with_fiber f) 1 = zero_module" "get_mod (with_fiber f) (Suc 0) = zero_module"
  "nr_module (with_fiber f) = 2" "length (modules (with_fiber f)) = 32"
  "get_fiber (zero_module\<lparr>m_fibers := [f]\<rparr>) (f_self f) = Some f"
  "m_env zero_module = no_env"
  by (simp_all add: with_fiber_def get_fiber_def nr_ok_def zero_module_def)

lemma gather_collects_all_witness:
  "\<exists>c'. run_fiber (with_fiber (blank_fiber\<lparr>f_async_outstanding := 2, f_rq :=
       [\<lparr>rr_req_id = 4, rr_result = COSEQ_RSLT_SUCCESS, rr_msg = None, rr_size = 0\<rparr>,
        \<lparr>rr_req_id = 7, rr_result = COSEQ_RSLT_ERROR, rr_msg = Some [1], rr_size = 1\<rparr>]\<rparr>)) 0 0
       (coseq_gather (\<lambda>s l. l @ [s_req_id s]) [] 0
         (\<lambda>n l. if n = 2 \<and> l = [4, 7] then Return else Wait_timeout 1 Return)) =
     run_fiber c' 0 0 Return"
proof -
  let ?f = "blank_fiber\<lparr>f_async_outstanding := 2, f_rq :=
       [\<lparr>rr_req_id = 4, rr_result = COSEQ_RSLT_SUCCESS, rr_msg = None, rr_size = 0\<rparr>,
        \<lparr>rr_req_id = 7, rr_result = COSEQ_RSLT_ERROR, rr_msg = Some [1], rr_size = 1\<rparr>]\<rparr>"
  have "f_self ?f = 0" by (simp add: blank_fiber_eq)
  then have "get_fiber (get_mod (with_fiber ?f) 0) 0 = Some ?f"
    using with_fiber_simps(7) [of ?f] by simp
  from gather_collects_all [OF this, of "\<lambda>s l. l @ [s_req_id s]" "[]" 0
      "\<lambda>n l. if n = 2 \<and> l = [4, 7] then Return else Wait_timeout 1 Return"]
  show ?thesis by (auto simp: rr_wf_def reply_src_def)
qed

section \<open>Publish and subscribe\<close>

text \<open>What a listener can tell of an event.\<close>

definition ev_content :: "ev_t \<Rightarrow> ev_type_t \<times> int \<times> u8 \<times> u8 \<times> coseq_result_t \<times> u8 list" where
  "ev_content e = (e_type e, e_requester e, e_category e, e_client_id e, e_result e,
     payload (e_msg e) (e_msg_size e))"

lemma notify_one_delivers:
  fixes cat :: u8
  assumes "nr_ok c" and "valid_mod c i" and "all_ok (m_env (get_mod c i))" and "readable msg n"
    and "0 \<le> nc_listener_module nc" and "nc_listener_module nc < nr_module c"
  defines "c' \<equiv> notify_one i cat msg n nc c"
  shows "nr_ok c'" "valid_mod c' i" "all_ok (m_env (get_mod c' i))" "nr_module c' = nr_module c"
    "m_idx (get_mod c' i) = m_idx (get_mod c i)"
    "\<exists>evs. m_inbox (get_mod c' j) = m_inbox (get_mod c j) @ evs \<and>
      map ev_content evs =
      (if nc_category nc = cat \<and> nat (nc_listener_module nc) = j
       then [(EV_NOTIFY, m_idx (get_mod c i), cat, nc_client_id nc, COSEQ_RSLT_SUCCESS, payload msg n)] else [])"
proof -
  let ?l = "nat (nc_listener_module nc)"
  obtain e where e: "fst (make_ev EV_NOTIFY 0 0 (m_idx (get_mod c i)) COSEQ_RSLT_SUCCESS msg n (m_env (get_mod c i))) = Some e"
    and pay: "payload (e_msg e) (e_msg_size e) = payload msg n"
    using make_ev_all_ok [OF assms(3)] by blast
  note ef = make_ev_fields [OF e]
  define e1 where "e1 = e\<lparr>e_category := cat, e_client_id := nc_client_id nc\<rparr>"
  define en where "en = snd (make_ev EV_NOTIFY 0 0 (m_idx (get_mod c i)) COSEQ_RSLT_SUCCESS msg n (m_env (get_mod c i)))"
  have en: "all_ok en" using assms(3) by (simp add: en_def all_ok_def)
  have l: "valid_mod c ?l" using assms(1,5,6) by (simp add: nr_ok_def nat_less_iff)
  define c1 where "c1 = set_mod ?l (inbox_put (get_mod c ?l) e1) c"
  have c1: "nr_ok c1" "valid_mod c1 i" "nr_module c1 = nr_module c"
    using assms(1,2) by (simp_all add: c1_def nr_ok_def)
  have c': "c' = (if nc_category nc = cat then set_mod i ((get_mod c1 i)\<lparr>m_env := en\<rparr>) c1 else c)"
    using assms(5,6) e
    by (simp add: c'_def notify_one_def post_ev_def split_def Let_def post_valid c1_def e1_def en_def)
  show "nr_ok c'" "valid_mod c' i" "all_ok (m_env (get_mod c' i))" "nr_module c' = nr_module c"
    using assms(1-3) c1 en by (simp_all add: c' nr_ok_def)
  show "m_idx (get_mod c' i) = m_idx (get_mod c i)"
    using c1 assms(2) l by (auto simp: c' c1_def get_set_mod_if inbox_put_def)
  show "\<exists>evs. m_inbox (get_mod c' j) = m_inbox (get_mod c j) @ evs \<and>
      map ev_content evs =
      (if nc_category nc = cat \<and> nat (nc_listener_module nc) = j
       then [(EV_NOTIFY, m_idx (get_mod c i), cat, nc_client_id nc, COSEQ_RSLT_SUCCESS, payload msg n)] else [])"
    by (rule exI [of _ "if nc_category nc = cat \<and> ?l = j then [e1] else []"])
      (use c1 l assms(2) pay ef in \<open>auto simp: c' c1_def get_set_mod_if inbox_put_def e1_def ev_content_def\<close>)
qed

lemma notify_fold_delivers:
  assumes "nr_ok c" and "valid_mod c i" and "all_ok (m_env (get_mod c i))" and "readable msg n"
    and "\<forall>nc \<in> set ncs. 0 \<le> nc_listener_module nc \<and> nc_listener_module nc < nr_module c"
  shows "\<exists>evs. m_inbox (get_mod (fold (notify_one i cat msg n) ncs c) j) = m_inbox (get_mod c j) @ evs \<and>
      map ev_content evs =
      map (\<lambda>nc. (EV_NOTIFY, m_idx (get_mod c i), cat, nc_client_id nc, COSEQ_RSLT_SUCCESS, payload msg n))
        (filter (\<lambda>nc. nc_category nc = cat \<and> nat (nc_listener_module nc) = j) ncs)"
  using assms
proof (induction ncs arbitrary: c)
  case Nil
  then show ?case by simp
next
  case (Cons nc ncs)
  let ?c1 = "notify_one i cat msg n nc c"
  have l: "0 \<le> nc_listener_module nc" "nc_listener_module nc < nr_module c" using Cons.prems(5) by simp_all
  note one = notify_one_delivers [OF Cons.prems(1-4) l, of cat]
  obtain evs1 where 1: "m_inbox (get_mod ?c1 j) = m_inbox (get_mod c j) @ evs1"
    "map ev_content evs1 =
      (if nc_category nc = cat \<and> nat (nc_listener_module nc) = j
       then [(EV_NOTIFY, m_idx (get_mod c i), cat, nc_client_id nc, COSEQ_RSLT_SUCCESS, payload msg n)] else [])"
    using one(6) by blast
  have "\<forall>nc \<in> set ncs. 0 \<le> nc_listener_module nc \<and> nc_listener_module nc < nr_module ?c1"
    using Cons.prems(5) one(4) by simp
  from Cons.IH [OF one(1-3) Cons.prems(4) this] obtain evs2 where
    2: "m_inbox (get_mod (fold (notify_one i cat msg n) ncs ?c1) j) = m_inbox (get_mod ?c1 j) @ evs2"
    "map ev_content evs2 =
      map (\<lambda>nc. (EV_NOTIFY, m_idx (get_mod ?c1 i), cat, nc_client_id nc, COSEQ_RSLT_SUCCESS, payload msg n))
        (filter (\<lambda>nc. nc_category nc = cat \<and> nat (nc_listener_module nc) = j) ncs)"
    by blast
  show ?case by (rule exI [of _ "evs1 @ evs2"]) (simp add: 1 2 one(5))
qed



text \<open>
  Registration and cancellation are inverse. A registration never hands out the sentinel 0xff and
  is refused to a caller outside the modules; cancelling with the category and the id it returned
  succeeds and leaves the table as it was, whatever else is registered.
\<close>

theorem reg_unreg_roundtrip:
  assumes "valid_mod c i" and "coseq_reg_notify c i f cat = (Some cid, c1)"
    and "coseq_unreg_notify c1 i cat cid = (hit, c2)"
  shows "hit \<and> cid \<noteq> 0xff \<and> f_reply_to f \<noteq> EXTERNAL \<and>
    m_notify_clients (get_mod c1 i) =
      \<lparr>nc_category = cat, nc_listener_module = f_reply_to f, nc_client_id = cid\<rparr> # m_notify_clients (get_mod c i) \<and>
    m_notify_clients (get_mod c2 i) = m_notify_clients (get_mod c i)"
  using assms
  by (auto simp: coseq_reg_notify_def coseq_unreg_notify_def Let_def split_def split: if_splits)

lemma reg_unreg_roundtrip_witness:
  "fst (coseq_unreg_notify (snd (coseq_reg_notify two_modules 0 blank_fiber 5)) 0 5 0)"
proof -
  have "fst (coseq_reg_notify two_modules 0 blank_fiber 5) = Some 0"
    by (simp add: coseq_reg_notify_def Let_def lib_call_def blank_fiber_eq EXTERNAL_def
        two_modules_def zero_ctx_def split_def)
      (simp add: get_mod_def MAX_MODULE_def)
  then have "coseq_reg_notify two_modules 0 blank_fiber 5 =
      (Some 0, snd (coseq_reg_notify two_modules 0 blank_fiber 5))"
    by (metis prod.collapse)
  from reg_unreg_roundtrip [OF _ this prod.collapse [symmetric]] show ?thesis by simp
qed

text \<open>The ids that a series of registrations hands out.\<close>

fun reg_series :: "coseq_ctx_private \<Rightarrow> (nat \<times> fiber_t \<times> u8) list \<Rightarrow> u8 option list" where
  "reg_series c [] = []"
| "reg_series c ((i, f, cat) # rs) =
     (let (r, c') = coseq_reg_notify c i f cat in r # reg_series c' rs)"

text \<open>A registration a module accepts.\<close>

definition can_register :: "coseq_ctx_private \<Rightarrow> nat \<times> fiber_t \<times> u8 \<Rightarrow> bool" where
  "can_register c = (\<lambda>(i, f, cat). valid_mod c i \<and> all_ok (m_env (get_mod c i)) \<and> f_reply_to f \<noteq> EXTERNAL)"

lemma reg_notify_id:
  assumes "can_register c (i, f, cat)" and "coseq_reg_notify c i f cat = (r, c')"
  shows "r = Some (of_nat (unat (next_client_id c) mod 255))"
    and "unat (next_client_id c') = unat (next_client_id c) mod 255 + 1"
    and "can_register c q \<Longrightarrow> can_register c' q"
proof -
  have max: "unat (next_client_id c) \<le> 255" using unsigned_less [of "next_client_id c", where ?'a = nat] by simp
  have ff: "next_client_id c = 0xff \<longleftrightarrow> unat (next_client_id c) = 255"
    using word_unat_eq_iff [of "next_client_id c" "0xff"] by simp
  show "r = Some (of_nat (unat (next_client_id c) mod 255))"
    using assms max ff
    by (cases "unat (next_client_id c) = 255")
      (auto simp: coseq_reg_notify_def can_register_def Let_def split_def all_ok_def)
  show "unat (next_client_id c') = unat (next_client_id c) mod 255 + 1"
    using assms max ff
    by (cases "unat (next_client_id c) = 255")
      (auto simp: coseq_reg_notify_def can_register_def Let_def split_def all_ok_def unat_word_ariths)
  have c': "\<exists>m c1. c' = set_mod i m c1 \<and> modules c1 = modules c \<and> lib_ok (m_env m) = lib_ok (m_env (get_mod c i))"
  proof -
    obtain en ncs nid where "c' = set_mod i ((get_mod c i)\<lparr>m_env := en, m_notify_clients := ncs\<rparr>) (c\<lparr>next_client_id := nid\<rparr>)"
      and "lib_ok en = lib_ok (m_env (get_mod c i))"
      using assms by (auto simp: coseq_reg_notify_def can_register_def all_ok_def Let_def split_def split: if_splits)
    then show ?thesis by (intro exI conjI) (assumption | simp)+
  qed
  show "can_register c' q" if "can_register c q"
  proof -
    obtain m c1 where m: "c' = set_mod i m c1" "modules c1 = modules c" "lib_ok (m_env m) = lib_ok (m_env (get_mod c i))"
      using c' by blast
    have "get_mod c1 j = get_mod c j" for j using m(2) by (simp add: get_mod_def)
    with that assms(1) m show ?thesis by (cases q) (auto simp: can_register_def get_set_mod_if all_ok_def)
  qed
qed

lemma reg_series_ids:
  assumes "\<forall>q \<in> set rs. can_register c q"
  shows "reg_series c rs =
    map (\<lambda>n. Some (of_nat ((unat (next_client_id c) + n) mod 255))) [0..<length rs]"
  using assms
proof (induction rs arbitrary: c)
  case Nil
  then show ?case by simp
next
  case (Cons q rs)
  obtain i f cat where q: "q = (i, f, cat)" by (cases q)
  obtain r c' where st: "coseq_reg_notify c i f cat = (r, c')" by fastforce
  have "can_register c (i, f, cat)" using Cons.prems q by simp
  note one = reg_notify_id [OF this st]
  have "(unat (next_client_id c') + n) mod 255 = (unat (next_client_id c) + Suc n) mod 255" for n
    unfolding one(2) by (metis add.assoc add_Suc_right plus_1_eq_Suc add_Suc mod_add_left_eq)
  then have "reg_series c' rs =
      map (\<lambda>n. Some (of_nat ((unat (next_client_id c) + Suc n) mod 255))) [0..<length rs]"
    using Cons.IH [of c'] one(3) Cons.prems by simp
  then show ?case
    by (simp add: q st one(1) map_upt_Suc del: upt_Suc)
qed

text \<open>
  C40: Client ids are unique in the instance for 255 registrations and no more. In a series of registrations
  with the modules of an instance, whichever the modules, callers and categories, two of them get the same
  id exactly when their positions differ by a multiple of 255, and none gets the sentinel 0xff: a listener
  can tell its sources apart by the id alone, also when they are different modules.
\<close>

theorem client_ids_cycle:
  assumes "\<forall>(i, f, cat) \<in> set rs. valid_mod c i \<and> all_ok (m_env (get_mod c i)) \<and> f_reply_to f \<noteq> EXTERNAL"
    and "a < length rs" and "b < length rs"
  shows "(reg_series c rs ! a = reg_series c rs ! b \<longleftrightarrow> a mod 255 = b mod 255) \<and>
    reg_series c rs ! a \<noteq> None \<and> reg_series c rs ! a \<noteq> Some 0xff"
proof -
  let ?n = "unat (next_client_id c)"
  have "\<forall>q \<in> set rs. can_register c q" using assms(1) by (simp add: can_register_def)
  from reg_series_ids [OF this]
  have id: "reg_series c rs ! k = Some (of_nat ((?n + k) mod 255))" if "k < length rs" for k
    using that by simp
  have un: "unat (of_nat (k mod 255) :: u8) = k mod 255" for k
    by (simp add: unat_of_nat)
  then have "(of_nat (k mod 255) :: u8) = of_nat (l mod 255) \<longleftrightarrow> k mod 255 = l mod 255" for k l
    by (metis (no_types))
  moreover have "(of_nat (k mod 255) :: u8) \<noteq> 0xff" for k
  proof
    assume "(of_nat (k mod 255) :: u8) = 0xff"
    then have "k mod 255 = 255" using un [of k] by simp
    then show False using mod_less_divisor [of 255 k] by simp
  qed
  moreover have "(?n + a) mod 255 = (?n + b) mod 255 \<longleftrightarrow> a mod 255 = b mod 255"
    by (simp add: nat_mod_eq_iff)
  ultimately show ?thesis using id assms(2,3) by simp
qed

lemma client_ids_cycle_witness:
  "reg_series two_modules ((0, blank_fiber, 5) # (1, blank_fiber, 5) # replicate 300 (0, blank_fiber, 6)) ! 0 \<noteq>
     reg_series two_modules ((0, blank_fiber, 5) # (1, blank_fiber, 5) # replicate 300 (0, blank_fiber, 6)) ! 1"
  using client_ids_cycle [of "(0, blank_fiber, 5) # (1, blank_fiber, 5) # replicate 300 (0, blank_fiber, 6)" two_modules 0 1]
  by (simp add: blank_fiber_eq EXTERNAL_def split: if_splits)

section \<open>Requests\<close>

text \<open>
  A request with a time limit parks its caller and reaches its target. The caller waits for exactly
  the id the request carries, its deadline lies the given time after the clock reading, the table
  maps the id to it, and the target's inbox gains exactly one start event, which carries the id,
  the caller's module and the message.
\<close>

theorem request_timeout_parks:
  assumes "nr_ok c" and "valid_mod c i" and "all_ok (m_env (get_mod c i))" and "readable msg n"
    and "uint mi < nr_module c" and "get_fiber (get_mod c i) p = Some f"
    and "coseq_request_timeout c i f mi si msg n ms k = c'"
  defines "m \<equiv> get_mod c i"
  shows "(\<exists>now. (\<forall>t. clock (m_env m) (clock_reads (m_env m)) = Some t \<longrightarrow> now = t) \<and>
      get_fiber (get_mod c' i) p = Some (f\<lparr>f_waiting_reply := True,
        f_wait_req_id := of_nat (m_next_req_id m), f_waiting_timer := True,
        f_deadline := ts_add_ms now ms, f_ctx := After_request k\<rparr>)) \<and>
    pending_peek (get_mod c' i) (of_nat (m_next_req_id m)) = Some p \<and>
    m_next_req_id (get_mod c' i) = m_next_req_id m + 1 \<and>
    (\<exists>e. m_inbox (get_mod c' (unat mi)) = m_inbox (get_mod c (unat mi)) @ [e] \<and>
      e_type e = EV_START \<and> e_seq_idx e = si \<and> e_req_id e = of_nat (m_next_req_id m) \<and>
      e_requester e = m_idx m \<and> payload (e_msg e) (e_msg_size e) = payload msg n)"
proof -
  let ?rid = "of_nat (m_next_req_id m) :: u32"
  have p: "f_self f = p" by (rule get_fiber_self [OF assms(6)])
  define m1 where "m1 = pending_add (m\<lparr>m_next_req_id := m_next_req_id m + 1\<rparr>) ?rid p"
  define now where "now = fst (now_ts (m_env m1))"
  define f2 where "f2 = f\<lparr>f_waiting_reply := True, f_wait_req_id := ?rid, f_waiting_timer := True,
    f_deadline := ts_add_ms now ms, f_ctx := After_request k\<rparr>"
  define made where "made = make_ev EV_START si ?rid (m_idx m) COSEQ_RSLT_IGNORE msg n (snd (now_ts (m_env m1)))"
  define c1 where "c1 = set_mod i (put_fiber f2 m1) c"
  have c': "c' = post_ev c1 i (uint mi) made"
    using assms(7) by (simp add: coseq_request_timeout_def request_common_def Let_def split_def
        m_def p m1_def now_def f2_def made_def c1_def)
  have all: "all_ok (m_env m)" using assms(3) by (simp add: m_def)
  then have pend: "m_pending m1 = \<lparr>p_req_id = ?rid, p_f = p\<rparr> # m_pending m"
    by (simp add: m1_def pending_add_pending all_ok_def)
  have "all_ok (m_env m1)" using all by (simp add: m1_def all_ok_def)
  then have "all_ok (snd (now_ts (m_env m1)))"
    by (auto simp: now_ts_def Let_def all_ok_def split: option.split)
  then obtain e where e: "fst made = Some e" and pay: "payload (e_msg e) (e_msg_size e) = payload msg n"
    unfolding made_def using make_ev_all_ok by blast
  note ef = make_ev_fields [OF e [unfolded made_def]]
  have nat: "nat (uint mi) = unat mi" by simp
  have j: "unat mi < length (modules c)"
    using assms(1,5) unfolding nr_ok_def by (metis nat nat_less_iff order_less_le_trans uint_ge_0)
  have post: "c' = set_mod i ((get_mod (set_mod (unat mi) (inbox_put (get_mod c1 (unat mi)) e) c1) i)\<lparr>m_env := snd made\<rparr>)
      (set_mod (unat mi) (inbox_put (get_mod c1 (unat mi)) e) c1)"
    using assms(5) by (simp add: c' post_ev_def e post_valid c1_def nat)
  have inbox: "m_inbox (get_mod c' (unat mi)) = m_inbox (get_mod c (unat mi)) @ [e]"
    using j assms(2) by (cases "unat mi = i") (auto simp: post c1_def get_set_mod_if inbox_put_def m1_def m_def)
  have priv: "m_private (get_mod c' i) = m_private (put_fiber f2 m1)"
    using j assms(2) by (cases "unat mi = i") (auto simp: post c1_def get_set_mod_if)
  note fl = m_private_fields [OF priv]
  have "get_fiber (get_mod c' i) p = Some f2"
    using assms(6) fl(6) by (simp add: get_fiber_private [OF priv] get_put_fiber f2_def p m1_def m_def)
  moreover have "clock (m_env m) (clock_reads (m_env m)) = Some t \<longrightarrow> now = t" for t
    by (simp add: now_def m1_def pending_add_def all_ok_lib_call [OF all] now_ts_def)
  ultimately show ?thesis
    using fl pend inbox ef pay by (auto simp: pending_peek_def f2_def m1_def)
qed

lemma request_timeout_parks_witness:
  "\<exists>e. m_inbox (get_mod (coseq_request_timeout (with_fiber blank_fiber) 0 blank_fiber 1 3
      (Some [4]) 1 100 (\<lambda>s. Return)) 1) = [e] \<and> payload (e_msg e) (e_msg_size e) = [4]"
proof -
  have "get_fiber (get_mod (with_fiber blank_fiber) 0) 0 = Some blank_fiber"
    using with_fiber_simps(7) [of blank_fiber] by (simp add: blank_fiber_eq)
  from request_timeout_parks [OF _ _ _ _ _ this refl, of "Some [4]" 1 1 3 100 "\<lambda>s. Return"]
  show ?thesis by (auto simp: readable_def payload_def zero_module_def)
qed

declare request_common_def [eval_defs] coseq_request_def [eval_defs]
  coseq_request_timeout_def [eval_defs] coseq_request_async_def [eval_defs]
  coseq_send_def [eval_defs] coseq_wait_reply_def [eval_defs] ext_deliver_def [eval_defs]
  coseq_reply_def [eval_defs] coseq_wait_timeout_def [eval_defs] coseq_source_def [eval_defs]
  coseq_lock_def [eval_defs] coseq_unlock_def [eval_defs] fiber_return_def [eval_defs]
  run_fiber.simps [eval_defs] switch_in_def [eval_defs] resume_def [eval_defs]

end
