(* ===== verification/CoseqSteps.thy ===== *)
theory CoseqSteps
  imports CoseqApi
begin

text \<open>
  The module as a labelled transition system: what the calls of a running sequence do to the
  data that only the module's own thread touches. The relations forget the messages, the
  inboxes and the other modules; \<open>api_step_continue\<close> and \<open>api_step_yield\<close> show that every
  call of the API is one of their steps and only appends to the other modules' inboxes.
\<close>

section \<open>The steps\<close>

text \<open>Calls after which a sequence goes on at once whatever they return.\<close>

inductive plain_next :: "seq_prog \<Rightarrow> seq_prog \<Rightarrow> bool" where
  pn_send: "plain_next (Send mi si msg n p) p"
| pn_reply: "plain_next (Reply r msg n p) p"
| pn_source: "plain_next (Source ks) (ks s)"
| pn_module: "plain_next (Self_module kw) (kw w)"
| pn_seq: "plain_next (Self_seq kw) (kw w)"
| pn_user: "plain_next (Self_user kn) (kn u)"
| pn_name: "plain_next (Self_seq_name kt) (kt t)"
| pn_reg: "plain_next (Reg_notify cat kr) (kr r')"
| pn_unreg: "plain_next (Unreg_notify cat cid kb) (kb b)"
| pn_notify: "plain_next (Notify cat msg n kb) (kb b)"
| pn_lock: "plain_next (Lock p) p"
| pn_unlock: "plain_next (Unlock p) p"
| pn_access: "plain_next (Access upd ka) (ka u)"

text \<open>What these calls may change.\<close>

inductive plain_change :: "module_t \<Rightarrow> fiber_t \<Rightarrow> module_t \<Rightarrow> bool" where
  pc_same: "m_private m' = m_private m \<Longrightarrow> plain_change m f m'"
| pc_id: "m_private m' = m_private (m\<lparr>m_next_req_id := m_next_req_id m + 1\<rparr>) \<Longrightarrow> plain_change m f m'"
| pc_clients: "m_private m' = m_private (m\<lparr>m_notify_clients := ncs\<rparr>) \<Longrightarrow> plain_change m f m'"
| pc_lock: "m_private m' = m_private (coseq_lock m f) \<Longrightarrow> plain_change m f m'"
| pc_unlock: "m_private m' = m_private (coseq_unlock m f) \<Longrightarrow> plain_change m f m'"

inductive continues :: "module_t \<Rightarrow> fiber_t \<Rightarrow> seq_prog \<Rightarrow> module_t \<Rightarrow> seq_prog \<Rightarrow> bool" where
  c_plain: "plain_next prog prog' \<Longrightarrow> plain_change m f m' \<Longrightarrow> continues m f prog m' prog'"
| c_async: "rid = of_nat (m_next_req_id m) \<Longrightarrow>
    m_private m' = m_private (put_fiber (f\<lparr>f_async_outstanding := f_async_outstanding f + 1\<rparr>)
      (pending_add (m\<lparr>m_next_req_id := m_next_req_id m + 1\<rparr>) rid (f_self f))) \<Longrightarrow>
    continues m f (Request_async mi si msg n k) m' (k rid)"
| c_wait_none: "f_async_outstanding f = 0 \<Longrightarrow> f_rq f = [] \<Longrightarrow> m_private m' = m_private m \<Longrightarrow>
    continues m f (Wait_reply kw) m' (kw None)"
| c_wait_some: "f_rq f = rr # rest \<Longrightarrow> src_only (f\<lparr>f_rq := rest\<rparr>) f1 \<Longrightarrow>
    m_private m' = m_private
      (put_fiber (f1\<lparr>f_async_outstanding := f_async_outstanding f1 - 1\<rparr>) m) \<Longrightarrow>
    continues m f (Wait_reply kw) m' (kw (Some (f_src f1)))"

inductive yields :: "module_t \<Rightarrow> fiber_t \<Rightarrow> seq_prog \<Rightarrow> module_t \<Rightarrow> bool" where
  y_return: "m_private m' = m_private (put_fiber (f\<lparr>f_done := True, f_ctx := Finished\<rparr>) m) \<Longrightarrow>
    yields m f Return m'"
| y_request: "rid = of_nat (m_next_req_id m) \<Longrightarrow>
    m_private m' = m_private
      (put_fiber (f\<lparr>f_waiting_reply := True, f_wait_req_id := rid, f_ctx := After_request k\<rparr>)
        (pending_add (m\<lparr>m_next_req_id := m_next_req_id m + 1\<rparr>) rid (f_self f))) \<Longrightarrow>
    yields m f (Request mi si msg n k) m'"
| y_request_timeout: "rid = of_nat (m_next_req_id m) \<Longrightarrow>
    m_private m' = m_private
      (put_fiber (f\<lparr>f_waiting_reply := True, f_wait_req_id := rid, f_waiting_timer := True,
                    f_deadline := d, f_ctx := After_request k\<rparr>)
        (pending_add (m\<lparr>m_next_req_id := m_next_req_id m + 1\<rparr>) rid (f_self f))) \<Longrightarrow>
    yields m f (Request_timeout mi si msg n ms k) m'"
| y_wait_reply: "f_rq f = [] \<Longrightarrow> f_async_outstanding f \<noteq> 0 \<Longrightarrow>
    m_private m' = m_private
      (put_fiber (f\<lparr>f_waiting_any := True, f_ctx := After_wait_reply kw\<rparr>) m) \<Longrightarrow>
    yields m f (Wait_reply kw) m'"
| y_wait_timeout: "m_private m' = m_private
      (put_fiber (f\<lparr>f_waiting_timer := True, f_deadline := d, f_ctx := After_wait_timeout p\<rparr>) m) \<Longrightarrow>
    yields m f (Wait_timeout ms p) m'"

inductive_cases plain_nextE: "plain_next prog prog'"
inductive_cases plain_changeE: "plain_change m f m'"
inductive_cases continuesE: "continues m f prog m' prog'"
inductive_cases yieldsE: "yields m f prog m'"

section \<open>The calls are steps\<close>

text \<open>
  A step of module \<open>i\<close>'s thread: the other modules only see their inboxes grow, and the
  thread's surroundings stay the same.
\<close>

definition step_frame :: "nat \<Rightarrow> coseq_ctx_private \<Rightarrow> coseq_ctx_private \<Rightarrow> bool" where
  "step_frame i c c' \<longleftrightarrow> others_grow i c c' \<and>
     lib_ok (m_env (get_mod c' i)) = lib_ok (m_env (get_mod c i))"

lemma step_frame_refl [simp]: "step_frame i c c"
  by (simp add: step_frame_def)

lemma step_frame_trans: "step_frame i a b \<Longrightarrow> step_frame i b d \<Longrightarrow> step_frame i a d"
  unfolding step_frame_def using others_grow_trans by metis

lemma step_frame_set_mod:
  "valid_mod c i \<Longrightarrow> lib_ok (m_env m) = lib_ok (m_env (get_mod c i)) \<Longrightarrow> step_frame i c (set_mod i m c)"
  by (simp add: step_frame_def)

lemma step_frame_nr_ok: "step_frame i c c' \<Longrightarrow> nr_ok c \<Longrightarrow> nr_ok c'"
  by (simp add: step_frame_def others_grow_def nr_ok_def)

lemma step_frame_length: "step_frame i c c' \<Longrightarrow> length (modules c') = length (modules c)"
  by (simp add: step_frame_def others_grow_def)

lemma nr_ok_set_mod [simp]: "nr_ok (set_mod i m c) = nr_ok c"
  by (simp add: nr_ok_def)

lemma post_ev_step:
  assumes "nr_ok c" and "valid_mod c i" and "lib_ok (snd made) = lib_ok (m_env (get_mod c i))"
  shows "step_frame i c (post_ev c i dest made)"
    and "m_private (get_mod (post_ev c i dest made) i) = m_private (get_mod c i)"
  using post_ev_effect [OF assms(1,2)] assms(3) by (simp_all add: step_frame_def)

text \<open>Changing the module first and posting then.\<close>

lemma set_post_step:
  assumes "nr_ok c" and "valid_mod c i"
    and "lib_ok (m_env m) = lib_ok (m_env (get_mod c i))"
    and "lib_ok (snd made) = lib_ok (m_env (get_mod c i))"
  shows "step_frame i c (post_ev (set_mod i m c) i dest made)"
    and "m_private (get_mod (post_ev (set_mod i m c) i dest made) i) = m_private m"
proof -
  have "step_frame i (set_mod i m c) (post_ev (set_mod i m c) i dest made)"
    and priv: "m_private (get_mod (post_ev (set_mod i m c) i dest made) i) = m_private m"
    using post_ev_step [of "set_mod i m c" i made dest] assms by simp_all
  then show "step_frame i c (post_ev (set_mod i m c) i dest made)"
    using step_frame_set_mod [of i c m] assms(2,3) by (blast intro: step_frame_trans)
  show "m_private (get_mod (post_ev (set_mod i m c) i dest made) i) = m_private m"
    by (rule priv)
qed

lemma now_ts_env: "lib_ok (snd (now_ts en)) = lib_ok en"
  by (simp add: now_ts_def Let_def split: option.split)

lemma request_common_step:
  assumes "nr_ok c" and "valid_mod c i"
  defines "m \<equiv> get_mod c i"
  defines "rid \<equiv> of_nat (m_next_req_id m)"
  shows "step_frame i c (request_common c i f mi si msg n wt ms k)"
    and "m_private (get_mod (request_common c i f mi si msg n wt ms k) i) =
      m_private (put_fiber
        (if wt then f\<lparr>f_waiting_reply := True, f_wait_req_id := rid, f_waiting_timer := True,
                      f_deadline := ts_add_ms (fst (now_ts (m_env (pending_add
                        (m\<lparr>m_next_req_id := m_next_req_id m + 1\<rparr>) rid (f_self f))))) ms,
                      f_ctx := After_request k\<rparr>
         else f\<lparr>f_waiting_reply := True, f_wait_req_id := rid, f_ctx := After_request k\<rparr>)
        (pending_add (m\<lparr>m_next_req_id := m_next_req_id m + 1\<rparr>) rid (f_self f)))"
proof -
  define m1 where "m1 = pending_add (m\<lparr>m_next_req_id := m_next_req_id m + 1\<rparr>) rid (f_self f)"
  define en where "en = (if wt then snd (now_ts (m_env m1)) else m_env m1)"
  define f2 where "f2 = (if wt then f\<lparr>f_waiting_reply := True, f_wait_req_id := rid, f_waiting_timer := True,
      f_deadline := ts_add_ms (fst (now_ts (m_env m1))) ms, f_ctx := After_request k\<rparr>
    else f\<lparr>f_waiting_reply := True, f_wait_req_id := rid, f_ctx := After_request k\<rparr>)"
  have eq: "request_common c i f mi si msg n wt ms k =
      post_ev (set_mod i (put_fiber f2 m1) c) i (uint mi)
        (make_ev EV_START si rid (m_idx m) COSEQ_RSLT_IGNORE msg n en)"
    by (simp add: request_common_def Let_def m_def rid_def m1_def en_def f2_def split_def)
  have l1: "lib_ok (m_env m1) = lib_ok (m_env m)" by (simp add: m1_def)
  have l2: "lib_ok en = lib_ok (m_env m)" by (simp add: en_def now_ts_env l1)
  note st = set_post_step [OF assms(1,2), of "put_fiber f2 m1"
      "make_ev EV_START si rid (m_idx m) COSEQ_RSLT_IGNORE msg n en" "uint mi"]
  show "step_frame i c (request_common c i f mi si msg n wt ms k)"
    unfolding eq by (rule st) (use l1 l2 in \<open>simp_all add: m_def\<close>)
  have "m_private (get_mod (request_common c i f mi si msg n wt ms k) i) =
      m_private (put_fiber f2 m1)"
    unfolding eq by (rule st) (use l1 l2 in \<open>simp_all add: m_def\<close>)
  then show "m_private (get_mod (request_common c i f mi si msg n wt ms k) i) =
      m_private (put_fiber
        (if wt then f\<lparr>f_waiting_reply := True, f_wait_req_id := rid, f_waiting_timer := True,
                      f_deadline := ts_add_ms (fst (now_ts (m_env (pending_add
                        (m\<lparr>m_next_req_id := m_next_req_id m + 1\<rparr>) rid (f_self f))))) ms,
                      f_ctx := After_request k\<rparr>
         else f\<lparr>f_waiting_reply := True, f_wait_req_id := rid, f_ctx := After_request k\<rparr>)
        (pending_add (m\<lparr>m_next_req_id := m_next_req_id m + 1\<rparr>) rid (f_self f)))"
    unfolding f2_def m1_def .
qed

lemma request_async_step:
  assumes "nr_ok c" and "valid_mod c i" and "coseq_request_async c i f mi si msg n = (rid, c')"
  shows "step_frame i c c'" and "rid = of_nat (m_next_req_id (get_mod c i))"
    and "m_private (get_mod c' i) =
      m_private (put_fiber (f\<lparr>f_async_outstanding := f_async_outstanding f + 1\<rparr>)
        (pending_add ((get_mod c i)\<lparr>m_next_req_id := m_next_req_id (get_mod c i) + 1\<rparr>) rid (f_self f)))"
proof -
  define m2 where "m2 = put_fiber (f\<lparr>f_async_outstanding := f_async_outstanding f + 1\<rparr>)
    (pending_add ((get_mod c i)\<lparr>m_next_req_id := m_next_req_id (get_mod c i) + 1\<rparr>) rid (f_self f))"
  define made where "made = make_ev EV_START si rid (m_idx (get_mod c i)) COSEQ_RSLT_IGNORE msg n (m_env m2)"
  show "rid = of_nat (m_next_req_id (get_mod c i))"
    using assms(3) by (simp add: coseq_request_async_def Let_def)
  then have c': "c' = post_ev (set_mod i m2 c) i (uint mi) made"
    using assms(3) by (auto simp: coseq_request_async_def Let_def m2_def made_def)
  note st = set_post_step [OF assms(1,2), of m2 made "uint mi"]
  show "step_frame i c c'"
    unfolding c' by (rule st) (simp_all add: m2_def made_def)
  have "m_private (get_mod c' i) = m_private m2"
    unfolding c' by (rule st) (simp_all add: m2_def made_def)
  then show "m_private (get_mod c' i) =
      m_private (put_fiber (f\<lparr>f_async_outstanding := f_async_outstanding f + 1\<rparr>)
        (pending_add ((get_mod c i)\<lparr>m_next_req_id := m_next_req_id (get_mod c i) + 1\<rparr>) rid (f_self f)))"
    unfolding m2_def .
qed

lemma send_step:
  assumes "nr_ok c" and "valid_mod c i"
  shows "step_frame i c (coseq_send c i f mi si msg n)"
    and "m_private (get_mod (coseq_send c i f mi si msg n) i) =
      m_private ((get_mod c i)\<lparr>m_next_req_id := m_next_req_id (get_mod c i) + 1\<rparr>)"
  unfolding coseq_send_def Let_def
  by (rule set_post_step; use assms in simp)+

lemma ext_deliver_keeps:
  "modules (fst (ext_deliver c r res msg n en)) = modules c"
  "nr_module (fst (ext_deliver c r res msg n en)) = nr_module c"
  "next_client_id (fst (ext_deliver c r res msg n en)) = next_client_id c"
  "lib_ok (snd (ext_deliver c r res msg n en)) = lib_ok en"
  by (simp_all add: ext_deliver_def lib_call_def Let_def split: option.split)

lemma same_modules_step:
  assumes "modules c1 = modules c" and "nr_module c1 = nr_module c" and "valid_mod c i"
    and "lib_ok (m_env m) = lib_ok (m_env (get_mod c i))"
  shows "step_frame i c (set_mod i m c1)" and "get_mod (set_mod i m c1) i = m"
proof -
  have "get_mod c1 j = get_mod c j" for j using assms(1) by (simp add: get_mod_def)
  then show "step_frame i c (set_mod i m c1)"
    using assms by (simp add: step_frame_def others_grow_def)
  show "get_mod (set_mod i m c1) i = m" using assms by simp
qed

lemma reply_step:
  assumes "nr_ok c" and "valid_mod c i"
  shows "step_frame i c (coseq_reply c i f r msg n)"
    and "m_private (get_mod (coseq_reply c i f r msg n) i) = m_private (get_mod c i)"
proof -
  define d where "d = ext_deliver c (f_reply_req_id f) r msg n (m_env (get_mod c i))"
  have eq: "coseq_reply c i f r msg n =
      (if f_reply_to f = EXTERNAL then set_mod i ((get_mod c i)\<lparr>m_env := snd d\<rparr>) (fst d)
       else post_ev c i (f_reply_to f)
         (make_ev EV_REPLY 0 (f_reply_req_id f) (m_idx (get_mod c i)) r msg n (m_env (get_mod c i))))"
    by (simp add: coseq_reply_def Let_def d_def split_def)
  note ext = same_modules_step [of "fst d" c i "(get_mod c i)\<lparr>m_env := snd d\<rparr>"]
  note int = post_ev_step [OF assms, of
      "make_ev EV_REPLY 0 (f_reply_req_id f) (m_idx (get_mod c i)) r msg n (m_env (get_mod c i))"
      "f_reply_to f"]
  show "step_frame i c (coseq_reply c i f r msg n)"
    using ext(1) int(1) assms(2) by (simp add: eq ext_deliver_keeps d_def)
  show "m_private (get_mod (coseq_reply c i f r msg n) i) = m_private (get_mod c i)"
    using ext(2) int(2) assms(2) by (simp add: eq ext_deliver_keeps d_def)
qed

lemma reg_notify_step:
  assumes "valid_mod c i" and "coseq_reg_notify c i f cat = (r, c')"
  shows "step_frame i c c'"
    and "\<exists>ncs. m_private (get_mod c' i) = m_private ((get_mod c i)\<lparr>m_notify_clients := ncs\<rparr>)"
proof -
  define m' where "m' = (get_mod c i)\<lparr>m_env := m_env (get_mod c' i),
    m_notify_clients := m_notify_clients (get_mod c' i)\<rparr>"
  define c1 where "c1 = c\<lparr>next_client_id := next_client_id c'\<rparr>"
  have c': "c' = set_mod i m' c1" and l: "lib_ok (m_env m') = lib_ok (m_env (get_mod c i))"
    using assms by (auto simp: coseq_reg_notify_def Let_def split_def m'_def c1_def
        split: if_splits)
  have c1: "modules c1 = modules c" "nr_module c1 = nr_module c" by (simp_all add: c1_def)
  show "step_frame i c c'"
    unfolding c' by (rule same_modules_step [OF c1 assms(1) l])
  have g: "get_mod c' i = m'"
    unfolding c' by (rule same_modules_step [OF c1 assms(1) l])
  have "m_private m' = m_private ((get_mod c i)\<lparr>m_notify_clients := m_notify_clients (get_mod c' i)\<rparr>)"
    by (simp add: m'_def m_private_def)
  then show "\<exists>ncs. m_private (get_mod c' i) = m_private ((get_mod c i)\<lparr>m_notify_clients := ncs\<rparr>)"
    unfolding g by blast
qed

lemma notify_one_step:
  assumes "nr_ok c" and "valid_mod c i"
  shows "step_frame i c (notify_one i cat msg n nc c)"
    and "m_private (get_mod (notify_one i cat msg n nc c) i) = m_private (get_mod c i)"
  using assms by (simp_all add: notify_one_def Let_def split_def post_ev_step)

lemma notify_step:
  assumes "nr_ok c" and "valid_mod c i"
  shows "step_frame i c (fold (notify_one i cat msg n) ncs c) \<and>
    m_private (get_mod (fold (notify_one i cat msg n) ncs c) i) = m_private (get_mod c i)"
  using assms
proof (induction ncs arbitrary: c)
  case Nil
  then show ?case by simp
next
  case (Cons nc ncs)
  let ?c1 = "notify_one i cat msg n nc c"
  note one = notify_one_step [OF Cons.prems, of cat msg n nc]
  have "nr_ok ?c1" "valid_mod ?c1 i"
    using one(1) Cons.prems by (auto simp: step_frame_nr_ok step_frame_length)
  from Cons.IH [OF this] one show ?case
    by (auto intro: step_frame_trans)
qed

text \<open>Every call after which the sequence goes on.\<close>

lemma plain_unchanged:
  "plain_next prog prog' \<Longrightarrow> m_private m' = m_private m \<Longrightarrow> continues m f prog m' prog'"
  by (rule c_plain [OF _ pc_same])

lemma wait_reply_step:
  assumes "valid_mod c i" and "coseq_wait_reply c i f k = Continue c' prog'"
  shows "step_frame i c c' \<and> continues (get_mod c i) f (Wait_reply k) (get_mod c' i) prog'"
proof (cases "f_rq f")
  case Nil
  with assms show ?thesis
    by (auto simp: coseq_wait_reply_def intro: c_wait_none split: if_splits)
next
  case (Cons rr rest)
  define d where "d = set_src (f\<lparr>f_rq := rest\<rparr>) (rr_msg rr) (rr_size rr) (rr_result rr) 0
    (f_seq_idx f) 0 (rr_req_id rr) (m_env (get_mod c i))"
  define f2 where "f2 = (fst d)\<lparr>f_async_outstanding := f_async_outstanding (fst d) - 1\<rparr>"
  have c': "c' = set_mod i ((put_fiber f2 (get_mod c i))\<lparr>m_env := snd d\<rparr>) c"
    and p: "prog' = k (Some (f_src (fst d)))"
    using assms(2) Cons by (auto simp: coseq_wait_reply_def d_def f2_def Let_def split_def)
  have "step_frame i c c'"
    unfolding c' by (rule step_frame_set_mod [OF assms(1)]) (simp add: d_def)
  moreover have "continues (get_mod c i) f (Wait_reply k) (get_mod c' i) prog'"
    unfolding p
  proof (rule c_wait_some [OF Cons])
    show "src_only (f\<lparr>f_rq := rest\<rparr>) (fst d)" unfolding d_def by (rule set_src_only)
    show "m_private (get_mod c' i) = m_private
        (put_fiber ((fst d)\<lparr>f_async_outstanding := f_async_outstanding (fst d) - 1\<rparr>) (get_mod c i))"
      using assms(1) by (simp add: c' f2_def)
  qed
  ultimately show ?thesis by simp
qed

lemma api_step_continue:
  assumes "nr_ok c" and "valid_mod c i" and "api_step c i f prog = Continue c' prog'"
  shows "step_frame i c c'" and "continues (get_mod c i) f prog (get_mod c' i) prog'"
proof -
  have "step_frame i c c' \<and> continues (get_mod c i) f prog (get_mod c' i) prog'"
  proof (cases prog)
    case (Request_async mi si msg n k)
    then obtain rid where eq: "coseq_request_async c i f mi si msg n = (rid, c')" "prog' = k rid"
      using assms(3) by (auto split: prod.splits)
    note st = request_async_step [OF assms(1,2) eq(1)]
    from st show ?thesis
      unfolding Request_async eq(2) by (auto intro: c_async)
  next
    case (Wait_reply k)
    with assms wait_reply_step [OF assms(2), of f k c' prog'] show ?thesis by simp
  next
    case (Send mi si msg n p)
    with assms send_step [OF assms(1,2)] show ?thesis
      by (auto intro!: c_plain pc_id plain_next.intros)
  next
    case (Reply r msg n p)
    with assms reply_step [OF assms(1,2)] show ?thesis
      by (auto intro!: plain_unchanged plain_next.intros)
  next
    case (Reg_notify cat k)
    then obtain r where eq: "coseq_reg_notify c i f cat = (r, c')" "prog' = k r"
      using assms(3) by (auto split: prod.splits)
    from reg_notify_step [OF assms(2) eq(1)] show ?thesis
      unfolding Reg_notify eq(2) by (auto intro!: c_plain pc_clients plain_next.intros)
  next
    case (Unreg_notify cat cid k)
    with assms show ?thesis
      by (auto simp: coseq_unreg_notify_def Let_def step_frame_set_mod
          intro!: c_plain pc_clients plain_next.intros)
  next
    case (Notify cat msg n k)
    with assms notify_step [OF assms(1,2), of cat msg n "m_notify_clients (get_mod c i)"]
    show ?thesis
      by (auto simp: coseq_notify_def Let_def intro!: plain_unchanged plain_next.intros)
  next
    case (Lock p)
    with assms show ?thesis
      by (auto simp: step_frame_set_mod coseq_lock_def intro!: c_plain pc_lock plain_next.intros)
  next
    case (Unlock p)
    with assms show ?thesis
      by (auto simp: step_frame_set_mod coseq_unlock_def intro!: c_plain pc_unlock plain_next.intros)
  next
    case (Access upd k)
    with assms show ?thesis
      by (auto simp: step_frame_def others_grow_def intro!: plain_unchanged plain_next.intros)
  qed (use assms in \<open>auto intro: plain_unchanged plain_next.intros\<close>)
  then show "step_frame i c c'" "continues (get_mod c i) f prog (get_mod c' i) prog'"
    by simp_all
qed

lemma api_step_yield:
  assumes "nr_ok c" and "valid_mod c i" and "api_step c i f prog = Yielded c'"
  shows "step_frame i c c'" and "yields (get_mod c i) f prog (get_mod c' i)"
proof -
  have "step_frame i c c' \<and> yields (get_mod c i) f prog (get_mod c' i)"
  proof (cases prog)
    case Return
    with assms show ?thesis
      by (auto simp: fiber_return_def step_frame_set_mod intro!: y_return)
  next
    case (Request mi si msg n k)
    with assms request_common_step [OF assms(1,2), of f mi si msg n False 0 k] show ?thesis
      by (auto simp: coseq_request_def intro!: y_request)
  next
    case (Request_timeout mi si msg n ms k)
    with assms request_common_step [OF assms(1,2), of f mi si msg n True ms k] show ?thesis
      by (auto simp: coseq_request_timeout_def intro!: y_request_timeout)
  next
    case (Wait_reply k)
    with assms show ?thesis
      by (auto simp: coseq_wait_reply_def step_frame_set_mod Let_def split_def
          intro!: y_wait_reply split: if_splits list.splits)
  next
    case (Wait_timeout ms p)
    with assms show ?thesis
      by (auto simp: coseq_wait_timeout_def Let_def split_def now_ts_env step_frame_set_mod
          intro!: y_wait_timeout)
  qed (use assms in \<open>auto split: prod.splits\<close>)
  then show "step_frame i c c'" "yields (get_mod c i) f prog (get_mod c' i)"
    by simp_all
qed

end
