(* ===== verification/CoseqSched.thy ===== *)
theory CoseqSched
  imports CoseqSteps
begin

text \<open>
  The scheduler of a module: delivering replies, firing timers, dispatching events, reaping
  finished fibers, and one turn of \<open>sched_loop\<close>.
\<close>

section \<open>Replies\<close>

text \<open>Appending to the list between \<open>rq_head\<close> and \<open>rq_tail\<close>.\<close>

definition rq_put :: "fiber_t \<Rightarrow> reply_rec_t \<Rightarrow> fiber_t" where
  "rq_put f rr = f\<lparr>f_rq := f_rq f @ [rr]\<rparr>"

text \<open>Both branches of \<open>handle_reply\<close> that wake the fiber: fill its source and switch to it.\<close>

definition deliver_reply ::
    "coseq_ctx_private \<Rightarrow> nat \<Rightarrow> module_t \<Rightarrow> fiber_t \<Rightarrow> ev_t \<Rightarrow> run_result" where
  "deliver_reply c i m f e =
     (let (f1, en) = set_src f (e_msg e) (e_msg_size e) (e_result e) (word_of_int (e_requester e))
                       (f_seq_idx f) 0 (e_req_id e) (m_env m)
      in resume (set_mod i ((put_fiber f1 m)\<lparr>m_env := en\<rparr>) c) i (f_self f))"

text \<open>The third branch: keep the reply until the sequence asks for it.\<close>

definition queue_reply :: "module_t \<Rightarrow> fiber_t \<Rightarrow> ev_t \<Rightarrow> module_t" where
  "queue_reply m f e =
     (let (got, en1) = lib_call (m_env m)
      in if \<not> got then m\<lparr>m_env := LOGE (Handle_reply_calloc_failed (e_req_id e)) en1\<rparr>
         else let rr = \<lparr>rr_req_id = e_req_id e, rr_result = e_result e, rr_msg = None, rr_size = 0\<rparr>;
                  (rr1, en2) =
                    (case e_msg e of
                       None \<Rightarrow> (rr, en1)
                     | Some b \<Rightarrow>
                         if e_msg_size e > 0 then
                           (let (got2, en2) = lib_call en1
                            in if \<not> got2
                               then (rr, LOGW (Handle_reply_malloc_failed (e_msg_size e)) en2)
                               else (rr\<lparr>rr_msg := Some (take (e_msg_size e) b),
                                       rr_size := e_msg_size e\<rparr>, en2))
                         else (rr, en1))
      in (put_fiber (rq_put f rr1) m)\<lparr>m_env := en2\<rparr>)"

definition handle_reply :: "coseq_ctx_private \<Rightarrow> nat \<Rightarrow> ev_t \<Rightarrow> run_result" where
  "handle_reply c i e =
     (let m = get_mod c i
      in case pending_peek m (e_req_id e) of
           None \<Rightarrow> ok c
         | Some p \<Rightarrow>
             (let m1 = snd (pending_take m (e_req_id e))
              in case get_fiber m1 p of
                   None \<Rightarrow> undef (Use_after_free p c)
                 | Some f \<Rightarrow>
                     if f_waiting_reply f \<and> f_wait_req_id f = e_req_id e
                     then deliver_reply c i m1 f e
                     else if f_waiting_any f then deliver_reply c i m1 f e
                     else ok (set_mod i (queue_reply m1 f e) c)))"

section \<open>Reaping\<close>

definition reap_done :: "module_t \<Rightarrow> module_t" where
  "reap_done m =
     m\<lparr>m_locked_by :=
         (if list_ex (\<lambda>f. f_done f \<and> m_locked_by m = Some (f_self f)) (m_fibers m) then None
          else m_locked_by m),
       m_fibers := filter (\<lambda>f. \<not> f_done f) (m_fibers m)\<rparr>"

section \<open>The top of the loop\<close>

definition sched_splice :: "module_t \<Rightarrow> module_t" where
  "sched_splice m =
     (if m_locked_by m = None \<and> m_deferred m \<noteq> []
      then m\<lparr>m_inbox := m_deferred m @ m_inbox m, m_deferred := []\<rparr> else m)"

text \<open>The earliest deadline among the fibers whose timers may fire.\<close>

definition timer_eligible :: "module_t \<Rightarrow> fiber_t \<Rightarrow> bool" where
  "timer_eligible m f \<longleftrightarrow>
     f_waiting_timer f \<and> \<not> (m_locked_by m \<noteq> None \<and> m_locked_by m \<noteq> Some (f_self f))"

fun nearest_from :: "(fiber_t \<Rightarrow> bool) \<Rightarrow> timespec option \<Rightarrow> fiber_t list \<Rightarrow> timespec option" where
  "nearest_from el nearest [] = nearest"
| "nearest_from el nearest (f # fs) =
     (if \<not> el f then nearest_from el nearest fs
      else case nearest of
             None \<Rightarrow> nearest_from el (Some (f_deadline f)) fs
           | Some t \<Rightarrow>
               if ts_lt (f_deadline f) t then nearest_from el (Some (f_deadline f)) fs
               else nearest_from el nearest fs)"

definition nearest_deadline :: "module_t \<Rightarrow> timespec option" where
  "nearest_deadline m = nearest_from (timer_eligible m) None (m_fibers m)"

datatype wait_kind = No_wait | Timed_wait timespec | Cond_wait

definition sched_wait :: "module_t \<Rightarrow> wait_kind" where
  "sched_wait m =
     (if m_inbox m = [] \<and> \<not> m_stop m then
        (case nearest_deadline m of Some t \<Rightarrow> Timed_wait t | None \<Rightarrow> Cond_wait)
      else No_wait)"

section \<open>Timers\<close>

definition timer_one ::
    "nat \<Rightarrow> timespec \<Rightarrow> fptr \<Rightarrow> coseq_ctx_private \<Rightarrow> run_result" where
  "timer_one i now p c =
     (let m = get_mod c i
      in case get_fiber m p of
           None \<Rightarrow> undef (Use_after_free p c)
         | Some f \<Rightarrow>
             if f_waiting_timer f \<and> \<not> ts_lt now (f_deadline f) then
               if \<not> (m_locked_by m \<noteq> None \<and> m_locked_by m \<noteq> Some p) then
                 (if f_waiting_reply f then
                    (let m1 = snd (pending_take m (f_wait_req_id f));
                         (f1, en) = set_src f None 0 COSEQ_RSLT_REQ_TIMEOUT 0 (f_seq_idx f) 0
                                      (f_wait_req_id f) (m_env m1)
                     in resume (set_mod i ((put_fiber f1 m1)\<lparr>m_env := en\<rparr>) c) i p)
                  else resume c i p)
               else ok c
             else ok c)"

section \<open>Events\<close>

definition start_sequence :: "coseq_ctx_private \<Rightarrow> nat \<Rightarrow> ev_t \<Rightarrow> run_result" where
  "start_sequence c i e =
     (let m = get_mod c i
      in if e_seq_idx e \<ge> m_nr_seq m then
           ok (set_mod i (m\<lparr>m_env := LOGE (Start_invalid_seq (m_idx m) (m_name m) (e_seq_idx e) (m_nr_seq m)) (m_env m)\<rparr>) c)
         else if length (m_seqs m) \<le> unat (e_seq_idx e) then undef (Out_of_bounds (e_seq_idx e) c)
         else let sq = m_seqs m ! unat (e_seq_idx e);
                  (r, m1) = new_fiber m (sq_fn sq) (e_seq_idx e) (e_requester e) (e_req_id e)
                              (e_msg e) (e_msg_size e) COSEQ_RSLT_IGNORE
                              (word_of_int (e_requester e)) 0
      in case r of
           None \<Rightarrow> ok (set_mod i m1 c)
         | Some p \<Rightarrow>
             (case get_fiber m1 p of
                None \<Rightarrow> undef (Use_after_free p c)
              | Some f \<Rightarrow>
                  resume (set_mod i (put_fiber (f\<lparr>f_seq_name := Some (sq_name sq)\<rparr>) m1) c) i p))"

definition run_notify :: "coseq_ctx_private \<Rightarrow> nat \<Rightarrow> ev_t \<Rightarrow> run_result" where
  "run_notify c i e =
     (let m = get_mod c i
      in case m_recv_notify m of
           None \<Rightarrow> ok c
         | Some fn \<Rightarrow>
             (let (r, m1) = new_fiber m fn 0 EXTERNAL 0 (e_msg e) (e_msg_size e)
                              COSEQ_RSLT_SUCCESS (word_of_int (e_requester e)) (e_client_id e)
              in case r of
                   None \<Rightarrow> ok (set_mod i m1 c)
                 | Some p \<Rightarrow>
                     (case get_fiber m1 p of
                        None \<Rightarrow> undef (Use_after_free p c)
                      | Some f \<Rightarrow>
                          resume (set_mod i (put_fiber (f\<lparr>f_seq_name := Some ''recv_notify''\<rparr>) m1) c)
                            i p)))"

definition event_one :: "nat \<Rightarrow> ev_t \<Rightarrow> coseq_ctx_private \<Rightarrow> run_result" where
  "event_one i e c =
     (let m = get_mod c i
      in if m_locked_by m \<noteq> None \<and> e_type e \<noteq> EV_NOTIFY then
           (if e_type e = EV_REPLY \<and> pending_peek m (e_req_id e) = m_locked_by m
            then handle_reply c i e
            else ok (set_mod i (defer_ev m e) c))
         else if e_type e = EV_START then start_sequence c i e
         else if e_type e = EV_REPLY then handle_reply c i e
         else run_notify c i e)"

section \<open>One turn of the loop\<close>

text \<open>
  From the return of the wait to the end of the loop body. \<open>False\<close> stands for the \<open>break\<close>.
\<close>

definition sched_turn :: "nat \<Rightarrow> coseq_ctx_private \<Rightarrow> (ub, bool \<times> coseq_ctx_private) outcome" where
  "sched_turn i c =
     (let m = get_mod c i
      in if m_stop m then ok (False, c)
         else let evs = m_inbox m;
                  (now, en) = now_ts (m_env m);
                  c1 = set_mod i (m\<lparr>m_inbox := [], m_env := en\<rparr>) c
      in obind (ofold (timer_one i now) (map f_self (m_fibers m)) c1)
           (\<lambda>c2. obind (ofold (event_one i) evs c2)
             (\<lambda>c3. ok (True, set_mod i (reap_done (get_mod c3 i)) c3))))"

definition sched_iter :: "nat \<Rightarrow> coseq_ctx_private \<Rightarrow> (ub, bool \<times> coseq_ctx_private) outcome" where
  "sched_iter i c = sched_turn i (set_mod i (sched_splice (get_mod c i)) c)"

text \<open>What \<open>sched_loop\<close> logs before its loop and after it.\<close>

definition sched_begin :: "module_t \<Rightarrow> module_t" where
  "sched_begin m = m\<lparr>m_env := LOGI (Scheduler_started (m_idx m) (m_name m)) (m_env m)\<rparr>"

definition sched_end :: "module_t \<Rightarrow> module_t" where
  "sched_end m = m\<lparr>m_env := LOGI (Scheduler_stopped (m_idx m) (m_name m)) (m_env m)\<rparr>"

section \<open>Properties of the lock\<close>

text \<open>An event that must wait while the fiber \<open>q\<close> holds the lock.\<close>

definition must_wait :: "module_t \<Rightarrow> fptr \<Rightarrow> ev_t \<Rightarrow> bool" where
  "must_wait m q e \<longleftrightarrow> e_type e \<noteq> EV_NOTIFY \<and>
     \<not> (e_type e = EV_REPLY \<and> pending_find (m_pending m) (e_req_id e) = Some q)"

lemma event_one_waits:
  assumes "m_locked_by (get_mod c i) = Some q" and "must_wait (get_mod c i) q e"
  shows "event_one i e c = ok (set_mod i (defer_ev (get_mod c i) e) c)"
  using assms by (auto simp: event_one_def must_wait_def pending_peek_def)

lemma defer_all:
  assumes "m_locked_by (get_mod c i) = Some q" and "valid_mod c i"
    and "\<forall>e \<in> set evs. must_wait (get_mod c i) q e"
  shows "ofold (event_one i) evs c = ok (set_mod i (foldl defer_ev (get_mod c i) evs) c)"
  using assms
proof (induction evs arbitrary: c)
  case Nil
  then show ?case by simp
next
  case (Cons e evs)
  let ?c1 = "set_mod i (defer_ev (get_mod c i) e) c"
  have "event_one i e c = ok ?c1"
    by (rule event_one_waits [OF Cons.prems(1)]) (use Cons.prems(3) in simp)
  moreover have "ofold (event_one i) evs ?c1 = ok (set_mod i (foldl defer_ev (get_mod ?c1 i) evs) ?c1)"
    by (rule Cons.IH) (use Cons.prems in \<open>auto simp: defer_ev_def must_wait_def\<close>)
  ultimately show ?case using Cons.prems(2) by simp
qed

lemma foldl_defer: "foldl defer_ev m evs = m\<lparr>m_deferred := m_deferred m @ evs\<rparr>"
  by (induction evs arbitrary: m) (simp_all add: defer_ev_def)



section \<open>Properties of the timers\<close>

lemma nearest_from_Some:
  "nearest_from el (Some t) fs = Some (Min (insert t (f_deadline ` {f \<in> set fs. el f})))"
proof (induction fs arbitrary: t)
  case Nil
  then show ?case by simp
next
  case (Cons f fs)
  let ?D = "f_deadline ` {g \<in> set fs. el g}"
  have set: "f_deadline ` {g \<in> set (f # fs). el g} = (if el f then insert (f_deadline f) ?D else ?D)"
    by auto
  have "Min (insert t (insert (f_deadline f) ?D)) = Min (insert (min t (f_deadline f)) ?D)"
  proof (cases "?D = {}")
    case True
    show ?thesis unfolding True by simp
  next
    case False
    have "finite ?D" by simp
    with False show ?thesis by (simp only: Min_insert finite.insertI insert_not_empty not_False_eq_True min.assoc)
  qed
  then show ?case
    unfolding set by (auto simp: Cons min_def not_less)
qed

lemma nearest_from_None:
  "nearest_from el None fs =
     (if {f \<in> set fs. el f} = {} then None else Some (Min (f_deadline ` {f \<in> set fs. el f})))"
proof (induction fs)
  case Nil
  then show ?case by simp
next
  case (Cons f fs)
  have "{g \<in> set (f # fs). el g} = (if el f then insert f {g \<in> set fs. el g} else {g \<in> set fs. el g})"
    by auto
  with Cons show ?case by (simp add: nearest_from_Some)
qed

lemma timer_one_idle:
  assumes "get_fiber (get_mod c i) p = Some f" and "\<not> timer_eligible (get_mod c i) f \<or> ts_lt now (f_deadline f)"
  shows "timer_one i now p c = ok c"
  using assms get_fiber_self [OF assms(1)] by (auto simp: timer_one_def timer_eligible_def Let_def)

lemma timer_one_fires:
  assumes "valid_mod c i" and "get_fiber (get_mod c i) p = Some f" and "timer_eligible (get_mod c i) f"
    and "\<not> ts_lt now (f_deadline f)"
  shows "\<exists>c1 f1. timer_one i now p c = resume c1 i p \<and> get_fiber (get_mod c1 i) p = Some f1 \<and> src_only f f1"
proof (cases "f_waiting_reply f")
  case True
  let ?m1 = "snd (pending_take (get_mod c i) (f_wait_req_id f))"
  let ?d = "set_src f None 0 COSEQ_RSLT_REQ_TIMEOUT 0 (f_seq_idx f) 0 (f_wait_req_id f) (m_env ?m1)"
  have p: "f_self f = p" by (rule get_fiber_self [OF assms(2)])
  have "timer_one i now p c = resume (set_mod i ((put_fiber (fst ?d) ?m1)\<lparr>m_env := snd ?d\<rparr>) c) i p"
    using assms True p by (auto simp: timer_one_def timer_eligible_def Let_def split_def)
  moreover have "get_fiber (get_mod (set_mod i ((put_fiber (fst ?d) ?m1)\<lparr>m_env := snd ?d\<rparr>) c) i) p = Some (fst ?d)"
    using assms(1,2) set_src_keeps(1) p by (simp add: get_put_fiber pending_take_def)
  moreover have "src_only f (fst ?d)" by (rule set_src_only)
  ultimately show ?thesis by blast
next
  case False
  have p: "f_self f = p" by (rule get_fiber_self [OF assms(2)])
  have "timer_one i now p c = resume c i p"
    using assms False p by (auto simp: timer_one_def timer_eligible_def Let_def)
  moreover have "src_only f f" by (simp add: src_only_def)
  ultimately show ?thesis using assms(2) by blast
qed

text \<open>
  C20: The scheduler sleeps exactly until the next timer can fire. It sleeps only with an empty inbox and no
  stop request. \<open>free\<close> are the fibers with a running timer that the lock does not hold back. Without any the
  scheduler sleeps without limit, and then no timer fires at whatever time it wakes. Otherwise it
  sleeps until the minimum of their deadlines: woken before, no timer fires, and from that instant on the
  turn resumes a fiber whose timer it is.
\<close>

theorem wait_until_nearest_deadline:
  assumes "valid_mod c i" and "distinct (map f_self (m_fibers (get_mod c i)))"
  defines "m \<equiv> get_mod c i"
  defines "free \<equiv> {f \<in> set (m_fibers m). f_waiting_timer f \<and> (m_locked_by m = None \<or> m_locked_by m = Some (f_self f))}"
  shows "case sched_wait m of
     No_wait \<Rightarrow> m_inbox m \<noteq> [] \<or> m_stop m
   | Cond_wait \<Rightarrow> m_inbox m = [] \<and> \<not> m_stop m \<and> free = {} \<and>
       (\<forall>f \<in> set (m_fibers m). \<forall>now. timer_one i now (f_self f) c = ok c)
   | Timed_wait t \<Rightarrow> m_inbox m = [] \<and> \<not> m_stop m \<and> free \<noteq> {} \<and> t = Min (f_deadline ` free) \<and>
       (\<forall>f \<in> set (m_fibers m). \<forall>now. ts_lt now t \<longrightarrow> timer_one i now (f_self f) c = ok c) \<and>
       (\<exists>f \<in> free. \<forall>now. \<not> ts_lt now t \<longrightarrow> (\<exists>c1 f1. timer_one i now (f_self f) c = resume c1 i (f_self f) \<and>
          get_fiber (get_mod c1 i) (f_self f) = Some f1 \<and> src_only f f1))"
proof -
  have free: "free = {f \<in> set (m_fibers m). timer_eligible m f}"
    by (auto simp: free_def timer_eligible_def)
  have get: "get_fiber (get_mod c i) (f_self f) = Some f" if "f \<in> set (m_fibers m)" for f
    using get_fiber_unique that assms(2) m_def by blast
  have fin: "finite (f_deadline ` free)" by (simp add: free)
  have least: "\<exists>f \<in> free. Min (f_deadline ` free) = f_deadline f" if "free \<noteq> {}"
    using Min_in [OF fin] that by auto
  have idle: "timer_one i now (f_self f) c = ok c"
    if "f \<in> set (m_fibers m)" "f \<notin> free \<or> ts_lt now (Min (f_deadline ` free))" for f now
  proof (rule timer_one_idle [OF get [OF that(1)]])
    have "Min (f_deadline ` free) \<le> f_deadline f" if "f \<in> free" using that Min_le [OF fin] by blast
    then show "\<not> timer_eligible (get_mod c i) f \<or> ts_lt now (f_deadline f)"
      using that free m_def by (auto simp: order.strict_trans2)
  qed
  have fires: "\<exists>c1 f1. timer_one i now (f_self f) c = resume c1 i (f_self f) \<and>
      get_fiber (get_mod c1 i) (f_self f) = Some f1 \<and> src_only f f1"
    if "f \<in> free" "\<not> ts_lt now (f_deadline f)" for f now
    using timer_one_fires [OF assms(1) get, of f now] that free m_def by blast
  have first: "\<exists>f \<in> free. \<forall>now. \<not> ts_lt now (Min (f_deadline ` free)) \<longrightarrow>
      (\<exists>c1 f1. timer_one i now (f_self f) c = resume c1 i (f_self f) \<and>
        get_fiber (get_mod c1 i) (f_self f) = Some f1 \<and> src_only f f1)" if "free \<noteq> {}"
  proof -
    from least [OF that] obtain f where "f \<in> free" "Min (f_deadline ` free) = f_deadline f" by blast
    then show ?thesis using fires [of f] by (metis (no_types))
  qed
  have "sched_wait m = (if m_inbox m = [] \<and> \<not> m_stop m
      then (if free = {} then Cond_wait else Timed_wait (Min (f_deadline ` free))) else No_wait)"
    by (simp add: sched_wait_def nearest_deadline_def nearest_from_None free del: Collect_empty_eq)
  then show ?thesis
    using first idle by (auto simp del: ts_lt_less split: if_splits)
qed

lemma wait_until_nearest_deadline_witness:
  "sched_wait (zero_module\<lparr>m_locked_by := Some 1, m_fibers := [
      blank_fiber\<lparr>f_self := 2, f_waiting_timer := True, f_deadline := Timespec 3 0\<rparr>,
      blank_fiber\<lparr>f_self := 1, f_waiting_timer := True, f_deadline := Timespec 4 7\<rparr>]\<rparr>) = Timed_wait (Timespec 4 7)"
proof -
  let ?m = "zero_module\<lparr>m_locked_by := Some 1, m_fibers := [
      blank_fiber\<lparr>f_self := 2, f_waiting_timer := True, f_deadline := Timespec 3 0\<rparr>,
      blank_fiber\<lparr>f_self := 1, f_waiting_timer := True, f_deadline := Timespec 4 7\<rparr>]\<rparr>"
  let ?c = "set_mod 0 ?m two_modules"
  have g: "get_mod ?c 0 = ?m" by simp
  have free: "{f \<in> set (m_fibers ?m). f_waiting_timer f \<and> (m_locked_by ?m = None \<or> m_locked_by ?m = Some (f_self f))} =
      {blank_fiber\<lparr>f_self := 1, f_waiting_timer := True, f_deadline := Timespec 4 7\<rparr>}"
    by auto
  have "valid_mod ?c 0" "distinct (map f_self (m_fibers (get_mod ?c 0)))" by simp_all
  from wait_until_nearest_deadline [OF this] show ?thesis
    unfolding g free by (auto simp: zero_module_def split: wait_kind.splits)
qed

text \<open>
  C17: A request that has timed out stays timed out. When its deadline has passed and the lock allows it,
  the caller is switched in with the result \<open>REQ_TIMEOUT\<close>, the id of its request and no message,
  and the id is forgotten: a reply that comes later changes nothing, and the replies that other
  requests wait for are not affected.
\<close>

theorem request_timeout_expires:
  assumes "valid_mod c i" and "distinct (map p_req_id (m_pending (get_mod c i)))"
    and "get_fiber (get_mod c i) p = Some f" and "f_waiting_timer f" and "f_waiting_reply f"
    and "\<not> ts_lt now (f_deadline f)"
    and "m_locked_by (get_mod c i) = None \<or> m_locked_by (get_mod c i) = Some p"
  shows "\<exists>c1 f1. timer_one i now p c = resume c1 i p \<and>
    get_fiber (get_mod c1 i) p = Some f1 \<and> src_only f f1 \<and>
    s_result (f_src f1) = COSEQ_RSLT_REQ_TIMEOUT \<and> s_req_id (f_src f1) = f_wait_req_id f \<and>
    s_msg (f_src f1) = [] \<and>
    (\<forall>e. e_req_id e = f_wait_req_id f \<longrightarrow> handle_reply c1 i e = ok c1) \<and>
    (\<forall>r. r \<noteq> f_wait_req_id f \<longrightarrow>
      pending_peek (get_mod c1 i) r = pending_peek (get_mod c i) r)"
proof -
  let ?m = "get_mod c i" and ?r = "f_wait_req_id f"
  have p: "f_self f = p" by (rule get_fiber_self [OF assms(3)])
  define m1 where "m1 = snd (pending_take ?m ?r)"
  define d where "d = set_src f None 0 COSEQ_RSLT_REQ_TIMEOUT 0 (f_seq_idx f) 0 ?r (m_env m1)"
  define c1 where "c1 = set_mod i ((put_fiber (fst d) m1)\<lparr>m_env := snd d\<rparr>) c"
  have "src_only f (fst d)" unfolding d_def by (rule set_src_only)
  moreover have "s_msg (f_src (fst d)) = []" "s_result (f_src (fst d)) = COSEQ_RSLT_REQ_TIMEOUT"
    "s_req_id (f_src (fst d)) = ?r"
    by (simp_all add: d_def set_src_src) (simp add: set_src_def Let_def)
  moreover have "timer_one i now p c = resume c1 i p"
    using assms(3-7) by (auto simp: timer_one_def Let_def split_def c1_def d_def m1_def)
  moreover have "get_fiber (get_mod c1 i) p = Some (fst d)"
    using assms(1,3) set_src_keeps(1) p
    by (simp add: c1_def get_put_fiber m1_def pending_take_def d_def)
  moreover have "pending_peek (get_mod c1 i) r = (if r = ?r then None else pending_peek ?m r)" for r
    using assms(1) pending_tbl.look_del [OF assms(2), of ?r r]
    by (simp add: pending_peek_def c1_def m1_def pending_take_def)
  ultimately show ?thesis
    by (intro exI [of _ c1] exI [of _ "fst d"]) (simp add: handle_reply_def Let_def)
qed

lemma request_timeout_expires_witness:
  "\<exists>c1 f1. timer_one 0 (Timespec 5 0) 0 (set_mod 0 (zero_module\<lparr>m_fibers :=
      [blank_fiber\<lparr>f_waiting_reply := True, f_wait_req_id := 3, f_waiting_timer := True,
        f_deadline := Timespec 4 0\<rparr>], m_pending := [\<lparr>p_req_id = 3, p_f = 0\<rparr>]\<rparr>) two_modules) =
    resume c1 0 0 \<and> get_fiber (get_mod c1 0) 0 = Some f1 \<and> s_result (f_src f1) = COSEQ_RSLT_REQ_TIMEOUT"
proof -
  let ?f = "blank_fiber\<lparr>f_waiting_reply := True, f_wait_req_id := 3, f_waiting_timer := True,
        f_deadline := Timespec 4 0\<rparr>"
  let ?c = "set_mod 0 (zero_module\<lparr>m_fibers := [?f], m_pending := [\<lparr>p_req_id = 3, p_f = 0\<rparr>]\<rparr>) two_modules"
  have "get_fiber (get_mod ?c 0) 0 = Some ?f" by (simp add: get_fiber_def blank_fiber_eq)
  moreover have "valid_mod ?c 0" "distinct (map p_req_id (m_pending (get_mod ?c 0)))"
    "f_waiting_timer ?f" "f_waiting_reply ?f" "\<not> ts_lt (Timespec 5 0) (f_deadline ?f)"
    "m_locked_by (get_mod ?c 0) = None \<or> m_locked_by (get_mod ?c 0) = Some 0"
    by (simp_all add: zero_module_def ts_lt_def del: ts_lt_less)
  ultimately show ?thesis using request_timeout_expires by blast
qed

section \<open>Properties of replies\<close>

text \<open>
  C16: A reply goes to the fiber that its id is entered for, and is not lost. If the fiber blocks on this
  request, or waits for any reply, it is switched in and sees the reply's result, id, sender and
  message; otherwise the reply is appended to the fiber's queue. In both cases the entry is gone,
  so the reply is counted once.
\<close>

theorem reply_matched:
  assumes "valid_mod c i" and "all_ok (m_env (get_mod c i))" and "ev_wf e"
    and "pending_peek (get_mod c i) (e_req_id e) = Some p" and "get_fiber (get_mod c i) p = Some f"
  shows "\<exists>c1 f1. get_fiber (get_mod c1 i) p = Some f1 \<and>
    m_pending (get_mod c1 i) = remove_first (\<lambda>q. p_req_id q = e_req_id e) (m_pending (get_mod c i)) \<and>
    (if (f_waiting_reply f \<and> f_wait_req_id f = e_req_id e) \<or> f_waiting_any f
     then handle_reply c i e = resume c1 i p \<and> src_only f f1 \<and>
       f_src f1 = \<lparr>s_thread_idx = word_of_int (e_requester e), s_seq_idx = f_seq_idx f,
         s_req_id = e_req_id e, s_result = e_result e, s_client_id = 0,
         s_msg = payload (e_msg e) (e_msg_size e)\<rparr>
     else handle_reply c i e = ok c1 \<and>
       (\<exists>rr. f1 = f\<lparr>f_rq := f_rq f @ [rr]\<rparr> \<and> rr_wf rr \<and> rr_req_id rr = e_req_id e \<and>
         rr_result rr = e_result e \<and> payload (rr_msg rr) (rr_size rr) = payload (e_msg e) (e_msg_size e)))"
proof -
  let ?m = "get_mod c i" and ?r = "e_req_id e"
  have p: "f_self f = p" by (rule get_fiber_self [OF assms(5)])
  define m1 where "m1 = snd (pending_take ?m ?r)"
  have m1: "get_fiber m1 p = Some f" "m_env m1 = m_env ?m"
    "m_pending m1 = remove_first (\<lambda>q. p_req_id q = ?r) (m_pending ?m)"
    using assms(5) by (simp_all add: m1_def pending_take_def)
  have eq: "handle_reply c i e =
      (if (f_waiting_reply f \<and> f_wait_req_id f = ?r) \<or> f_waiting_any f then deliver_reply c i m1 f e
       else ok (set_mod i (queue_reply m1 f e) c))"
    using assms(4) m1(1) by (auto simp: handle_reply_def Let_def m1_def)
  show ?thesis
  proof (cases "(f_waiting_reply f \<and> f_wait_req_id f = ?r) \<or> f_waiting_any f")
    case True
    define d where "d = set_src f (e_msg e) (e_msg_size e) (e_result e) (word_of_int (e_requester e))
      (f_seq_idx f) 0 ?r (m_env m1)"
    define c1 where "c1 = set_mod i ((put_fiber (fst d) m1)\<lparr>m_env := snd d\<rparr>) c"
    have "s_msg (f_src (fst d)) = payload (e_msg e) (e_msg_size e)"
      unfolding d_def by (rule set_src_msg)
        (use assms(2,3) m1(2) in \<open>auto simp: ev_wf_def readable_def split: option.splits\<close>)
    then have "f_src (fst d) = \<lparr>s_thread_idx = word_of_int (e_requester e), s_seq_idx = f_seq_idx f,
         s_req_id = ?r, s_result = e_result e, s_client_id = 0, s_msg = payload (e_msg e) (e_msg_size e)\<rparr>"
      by (intro coseq_src_t.equality) (simp_all add: d_def set_src_src)
    moreover have "src_only f (fst d)" unfolding d_def by (rule set_src_only)
    moreover have "handle_reply c i e = resume c1 i p"
      using True by (simp add: eq deliver_reply_def split_def Let_def c1_def d_def p)
    moreover have "get_fiber (get_mod c1 i) p = Some (fst d)"
      using assms(1) m1(1) p by (simp add: c1_def get_put_fiber d_def set_src_keeps(1))
    moreover have "m_pending (get_mod c1 i) = m_pending m1" using assms(1) by (simp add: c1_def)
    ultimately show ?thesis using True m1(3)
      by (intro exI [of _ c1] exI [of _ "fst d"]) simp
  next
    case False
    define rr where "rr = \<lparr>rr_req_id = ?r, rr_result = e_result e,
      rr_msg = (if payload (e_msg e) (e_msg_size e) = [] then None else e_msg e),
      rr_size = length (payload (e_msg e) (e_msg_size e))\<rparr>"
    have "\<exists>en. queue_reply m1 f e = (put_fiber (rq_put f rr) m1)\<lparr>m_env := en\<rparr>"
    proof (cases "e_msg e")
      case None
      then show ?thesis using assms(2) m1(2)
        by (simp add: queue_reply_def Let_def lib_call_def all_ok_def rr_def payload_def) (rule exI, rule refl)
    next
      case (Some b)
      have "length b = e_msg_size e" using assms(3) Some by (simp add: ev_wf_def)
      then show ?thesis using assms(2) m1(2) Some
        by (cases b) (simp_all add: queue_reply_def Let_def lib_call_def all_ok_def rr_def payload_def,
          (rule exI, rule refl)+)
    qed
    then obtain en where q: "queue_reply m1 f e = (put_fiber (rq_put f rr) m1)\<lparr>m_env := en\<rparr>" ..
    let ?c1 = "set_mod i (queue_reply m1 f e) c"
    have "get_fiber (get_mod ?c1 i) p = Some (rq_put f rr)" "m_pending (get_mod ?c1 i) = m_pending m1"
      using assms(1) m1(1) p by (simp_all add: q get_put_fiber rq_put_def)
    moreover have "rr_wf rr" "payload (rr_msg rr) (rr_size rr) = payload (e_msg e) (e_msg_size e)"
      using assms(3) by (auto simp: rr_def rr_wf_def payload_def ev_wf_def split: option.splits)
    moreover have "handle_reply c i e = ok ?c1" using False by (simp only: eq if_False)
    moreover have "rq_put f rr = f\<lparr>f_rq := f_rq f @ [rr]\<rparr>" "rr_req_id rr = ?r" "rr_result rr = e_result e"
      by (simp_all add: rq_put_def rr_def)
    ultimately show ?thesis unfolding if_not_P [OF False] using m1(3) by metis
  qed
qed

lemma reply_matched_witness:
  "\<exists>c1 f1. get_fiber (get_mod c1 0) 0 = Some f1 \<and> length (f_rq f1) = 1 \<and>
    handle_reply (set_mod 0 (zero_module\<lparr>m_fibers := [blank_fiber], m_pending := [\<lparr>p_req_id = 3, p_f = 0\<rparr>]\<rparr>)
      two_modules) 0 ((start_ev 3)\<lparr>e_type := EV_REPLY\<rparr>) = ok c1"
proof -
  let ?c = "set_mod 0 (zero_module\<lparr>m_fibers := [blank_fiber], m_pending := [\<lparr>p_req_id = 3, p_f = 0\<rparr>]\<rparr>) two_modules"
  have "get_fiber (get_mod ?c 0) 0 = Some blank_fiber" by (simp add: get_fiber_def blank_fiber_eq)
  from reply_matched [OF _ _ _ _ this, of "(start_ev 3)\<lparr>e_type := EV_REPLY\<rparr>"] show ?thesis
    by (auto simp: start_ev_def ev_wf_def pending_peek_def blank_fiber_eq)
qed

declare rq_put_def [eval_defs] deliver_reply_def [eval_defs] queue_reply_def [eval_defs]
  handle_reply_def [eval_defs] reap_done_def [eval_defs] sched_splice_def [eval_defs]
  timer_one_def [eval_defs] start_sequence_def [eval_defs] run_notify_def [eval_defs]
  event_one_def [eval_defs] sched_turn_def [eval_defs] sched_iter_def [eval_defs]

end
