(* ===== verification/CoseqInstance.thy ===== *)
theory CoseqInstance
  imports CoseqSched
begin

text \<open>
  The methods of an instance handle: creation, \<open>setup\<close> of the modules of a registration table,
  \<open>teardown\<close>, and the requests of threads that are not modules. \<open>en\<close> is what the calling
  thread gets from its surroundings, \<open>envs i\<close> what the thread of module \<open>i\<close> will get.
\<close>

section \<open>Creation\<close>

definition create_coseq :: "env \<Rightarrow> coseq_ctx_private option \<times> env" where
  "create_coseq en =
     (let (got, en1) = lib_call en
      in if \<not> got then (None, LOGE Create_calloc_failed en1)
         else let (rc1, en2) = lib_call en1
      in if \<not> rc1 then (None, LOGE Create_mutex_failed en2)
         else let (rc2, en3) = lib_call en2
      in if \<not> rc2 then (None, LOGE Create_cond_failed en3)
         else (Some (zero_ctx\<lparr>ext_mtx := True, ext_cv := True, ext_wait_rid := - 1, ext_id := 1\<rparr>),
               en3))"

section \<open>Setup and teardown\<close>

text \<open>The fields of module \<open>i\<close> that come from the table.\<close>

definition load_module :: "nat \<Rightarrow> coseq_reg_t \<Rightarrow> env \<Rightarrow> module_t" where
  "load_module i r en =
     zero_module\<lparr>m_idx := int i,
       m_name := take 15 (case r_name r of None \<Rightarrow> '''' | Some s \<Rightarrow> s),
       m_que_max := r_nr_que_max r, m_seqs := r_seq_array r, m_nr_seq := r_nr_seq_max r,
       m_recv_notify := r_recv_notify r, m_user := r_user r, m_env := en\<rparr>"

text \<open>
  The first loop, over the indices from \<open>i\<close> on; the result tells whether it reached the end.
\<close>

fun init_modules ::
    "coseq_reg_t list \<Rightarrow> nat \<Rightarrow> (nat \<Rightarrow> env) \<Rightarrow> coseq_ctx_private \<Rightarrow> env
      \<Rightarrow> bool \<times> coseq_ctx_private \<times> env"
where
  "init_modules [] i envs c en = (True, c, en)"
| "init_modules (r # rs) i envs c en =
     (let m = load_module i r (envs i);
          (rc1, en1) = lib_call en
      in if \<not> rc1 then
           (False, (set_mod i m c)\<lparr>nr_module := 0\<rparr>, LOGE (Setup_mutex_failed i) en1)
         else let (rc2, en2) = lib_call en1
      in if \<not> rc2 then
           (False, (set_mod i m c)\<lparr>nr_module := 0\<rparr>, LOGE (Setup_cond_failed i) en2)
         else init_modules rs (i + 1) envs
                (set_mod i (m\<lparr>m_mtx := True, m_cv := True, m_next_req_id := 1\<rparr>) c) en2)"

text \<open>The three loops of \<open>stop_modules\<close>, each as what it does to one module.\<close>

definition signal_stop :: "module_t \<Rightarrow> module_t" where
  "signal_stop m = (if \<not> m_th_started m then m else m\<lparr>m_stop := True\<rparr>)"

definition join_thread :: "module_t \<Rightarrow> module_t" where
  "join_thread m = (if m_th_started m then m\<lparr>m_th_started := False\<rparr> else m)"

text \<open>
  The lists are freed and the mutex and condition variable destroyed. The heads the code
  leaves behind dangle; nothing reads them before the next \<open>setup\<close> clears the structure.
\<close>

definition free_module :: "module_t \<Rightarrow> module_t" where
  "free_module m =
     m\<lparr>m_fibers := [], m_pending := [], m_notify_clients := [], m_inbox := [], m_deferred := [],
       m_mtx := False, m_cv := False\<rparr>"

definition for_modules :: "nat \<Rightarrow> (module_t \<Rightarrow> module_t) \<Rightarrow> coseq_ctx_private \<Rightarrow> coseq_ctx_private"
where
  "for_modules nr g c = fold (\<lambda>i c. set_mod i (g (get_mod c i)) c) [0..<nr] c"

definition stop_modules :: "nat \<Rightarrow> coseq_ctx_private \<Rightarrow> coseq_ctx_private" where
  "stop_modules nr c =
     for_modules nr free_module (for_modules nr join_thread (for_modules nr signal_stop c))"

text \<open>The second loop of \<open>setup\<close>: \<open>n\<close> more threads are to be created, from module \<open>i\<close> on.\<close>

fun create_threads ::
    "nat \<Rightarrow> nat \<Rightarrow> nat \<Rightarrow> coseq_ctx_private \<Rightarrow> env \<Rightarrow> bool \<times> coseq_ctx_private \<times> env" where
  "create_threads 0 i nr c en = (True, c, en)"
| "create_threads (Suc n) i nr c en =
     (let (rc, en1) = lib_call en
      in if \<not> rc then
           (False, (stop_modules nr c)\<lparr>nr_module := 0\<rparr>, LOGE (Setup_create_failed i) en1)
         else create_threads n (i + 1) nr
                (set_mod i ((get_mod c i)\<lparr>m_th_started := True\<rparr>) c) en1)"

definition coseq_setup ::
    "coseq_ctx_private \<Rightarrow> coseq_reg_t list \<Rightarrow> u8 \<Rightarrow> (nat \<Rightarrow> env) \<Rightarrow> env
      \<Rightarrow> bool \<times> coseq_ctx_private \<times> env"
where
  "coseq_setup c tbl nr_tbl envs en =
     (if unat nr_tbl > MAX_MODULE then (False, c, LOGE (Setup_too_many nr_tbl) en)
      else let (ok1, c1, en1) = init_modules (take (unat nr_tbl) tbl) 0 envs
                                  (c\<lparr>nr_module := uint nr_tbl\<rparr>) en
      in if \<not> ok1 then (False, c1, en1)
         else let (ok2, c2, en2) = create_threads (unat nr_tbl) 0 (unat nr_tbl) c1 en1
      in if \<not> ok2 then (False, c2, en2)
         else (True, c2, LOGI (Setup_done nr_tbl) en2))"

definition coseq_teardown :: "coseq_ctx_private \<Rightarrow> env \<Rightarrow> coseq_ctx_private \<times> env" where
  "coseq_teardown c en =
     (if nr_module c = 0 then (c, en)
      else let nr = nr_module c
           in (stop_modules (nat nr) (c\<lparr>nr_module := 0\<rparr>), LOGI (Teardown_done nr) en))"

text \<open>\<open>destroy\<close> ends with freeing the handle: no instance is left.\<close>

definition coseq_destroy ::
    "coseq_ctx_private option \<Rightarrow> env \<Rightarrow> coseq_ctx_private option \<times> env" where
  "coseq_destroy self en =
     (case self of
        None \<Rightarrow> (None, en)
      | Some c \<Rightarrow> (None, snd (coseq_teardown c en)))"

section \<open>Requests from outside\<close>

text \<open>
  The \<open>static __thread\<close> variables of \<open>request_sync\<close>: the structure \<open>s\<close> it returns the address of, and the
  buffer, with its address \<open>tls_block\<close> (0 for the null pointer). A \<open>realloc\<close> that succeeds frees the block
  and returns a new one. The member \<open>s.msg.msg\<close> is \<open>buf\<close> whenever the function has returned, so \<open>s_msg\<close> of
  \<open>tls_s\<close> are the first \<open>s.msg.size\<close> bytes of \<open>tls_buf\<close>.
\<close>

record sync_tls =
  tls_s :: coseq_src_t
  tls_block :: nat
  tls_buf :: "u8 list"
  tls_cap :: nat

text \<open>\<open>request_sync\<close> up to its wait, which releases \<open>ext_mtx\<close> until \<open>ext_ready\<close> is set.\<close>

definition request_sync_begin ::
    "coseq_ctx_private \<Rightarrow> u8 \<Rightarrow> u8 \<Rightarrow> cbuf \<Rightarrow> nat \<Rightarrow> env \<Rightarrow> u32 \<times> coseq_ctx_private \<times> env" where
  "request_sync_begin c module_idx seq_idx msg msg_size en =
     (let rid = ext_id c;
          c1 = c\<lparr>ext_id := rid + 1, ext_wait_rid := rid, ext_ready := False\<rparr>;
          (e, en1) = make_ev EV_START seq_idx rid EXTERNAL COSEQ_RSLT_IGNORE msg msg_size en;
          (c2, en2) = post c1 (uint module_idx) e en1
      in (rid, c2, en2))"

text \<open>
  After the wait. The function returns the address of \<open>s\<close>, the same in every call of a thread: a caller that
  reads the reply reads \<open>tls_s\<close> of its thread at that moment, which the next call overwrites.
\<close>

definition request_sync_end ::
    "coseq_ctx_private \<Rightarrow> sync_tls \<Rightarrow> u32 \<Rightarrow> u8 \<Rightarrow> u8 \<Rightarrow> env
      \<Rightarrow> sync_tls \<times> coseq_ctx_private \<times> env"
where
  "request_sync_end c t rid module_idx seq_idx en =
     (let c1 = c\<lparr>ext_wait_rid := - 1\<rparr>;
          (t1, c2, en1) =
            (if ext_size c1 > tls_cap t then
               (let (got, en0) = lib_call en
                in if \<not> got
                   then (t, c1\<lparr>ext_size := 0\<rparr>, LOGE (Request_sync_realloc_failed (ext_size c1)) en0)
                   else (t\<lparr>tls_block := tls_block t + 1,
                           tls_buf := tls_buf t @ replicate (ext_size c1 - tls_cap t) 0,
                           tls_cap := ext_size c1\<rparr>, c1, en0))
             else (t, c1, en));
          buf = (if ext_size c2 > 0 then
                   (case ext_msg c2 of
                      None \<Rightarrow> tls_buf t1
                    | Some b \<Rightarrow> take (ext_size c2) b @ drop (ext_size c2) (tls_buf t1))
                 else tls_buf t1);
          s = (tls_s t1)\<lparr>s_msg := take (ext_size c2) buf, s_result := ext_result c2,
                s_req_id := rid, s_thread_idx := module_idx, s_seq_idx := seq_idx\<rparr>
      in (t1\<lparr>tls_buf := buf, tls_s := s\<rparr>, c2\<lparr>ext_msg := None, ext_size := 0\<rparr>, en1))"

definition request_async ::
    "coseq_ctx_private \<Rightarrow> u8 \<Rightarrow> u8 \<Rightarrow> cbuf \<Rightarrow> nat \<Rightarrow> env \<Rightarrow> coseq_ctx_private \<times> env" where
  "request_async c module_idx seq_idx msg msg_size en =
     (let rid = ext_id c;
          c1 = c\<lparr>ext_id := rid + 1\<rparr>;
          (e, en1) = make_ev EV_START seq_idx rid EXTERNAL COSEQ_RSLT_IGNORE msg msg_size en
      in post c1 (uint module_idx) e en1)"

section \<open>Loops over the modules\<close>

lemma for_modules_0 [simp]: "for_modules 0 g c = c"
  by (simp add: for_modules_def)

lemma for_modules_Suc [simp]:
  "for_modules (Suc n) g c = set_mod n (g (get_mod (for_modules n g c) n)) (for_modules n g c)"
  by (simp add: for_modules_def)

lemma for_modules_keeps [simp]:
  "length (modules (for_modules nr g c)) = length (modules c)"
  "nr_module (for_modules nr g c) = nr_module c"
  "next_client_id (for_modules nr g c) = next_client_id c"
  "ext_ready (for_modules nr g c) = ext_ready c"
  "ext_wait_rid (for_modules nr g c) = ext_wait_rid c"
  "ext_id (for_modules nr g c) = ext_id c"
  by (induction nr) simp_all

lemma get_for_modules:
  "nr \<le> length (modules c) \<Longrightarrow>
    get_mod (for_modules nr g c) j = (if j < nr then g (get_mod c j) else get_mod c j)"
  by (induction nr) (auto simp: get_set_mod_if less_Suc_eq)

lemma stop_modules_keeps [simp]:
  "length (modules (stop_modules nr c)) = length (modules c)"
  "nr_module (stop_modules nr c) = nr_module c"
  "ext_id (stop_modules nr c) = ext_id c"
  by (simp_all add: stop_modules_def)

lemma get_stop_modules:
  "nr \<le> length (modules c) \<Longrightarrow>
    get_mod (stop_modules nr c) j =
      (if j < nr then free_module (join_thread (signal_stop (get_mod c j))) else get_mod c j)"
  by (simp add: stop_modules_def get_for_modules)

text \<open>A module all of whose resources have been given back.\<close>

definition released :: "module_t \<Rightarrow> bool" where
  "released m \<longleftrightarrow> \<not> m_th_started m \<and> \<not> m_mtx m \<and> \<not> m_cv m \<and> m_fibers m = [] \<and>
     m_pending m = [] \<and> m_notify_clients m = [] \<and> m_inbox m = [] \<and> m_deferred m = []"

lemma released_stopped [simp]: "released (free_module (join_thread (signal_stop m)))"
  by (simp add: released_def free_module_def join_thread_def signal_stop_def)

section \<open>What setup leaves behind\<close>

definition inited :: "nat \<Rightarrow> coseq_reg_t \<Rightarrow> env \<Rightarrow> module_t" where
  "inited i r en = (load_module i r en)\<lparr>m_mtx := True, m_cv := True, m_next_req_id := 1\<rparr>"

definition booted :: "nat \<Rightarrow> coseq_reg_t \<Rightarrow> env \<Rightarrow> module_t" where
  "booted i r en = (inited i r en)\<lparr>m_th_started := True\<rparr>"

lemma init_modules_Cons:
  "init_modules (r # rs) i envs c en =
     (let (rc1, en1) = lib_call en; (rc2, en2) = lib_call en1
      in if \<not> rc1 then
           (False, (set_mod i (load_module i r (envs i)) c)\<lparr>nr_module := 0\<rparr>, LOGE (Setup_mutex_failed i) en1)
         else if \<not> rc2 then
           (False, (set_mod i (load_module i r (envs i)) c)\<lparr>nr_module := 0\<rparr>, LOGE (Setup_cond_failed i) en2)
         else init_modules rs (i + 1) envs (set_mod i (inited i r (envs i)) c) en2)"
  by (simp add: Let_def split_def inited_def)

declare init_modules.simps(2) [simp del]

lemma init_modules_keeps:
  assumes "init_modules rs i envs c en = (b, c', en')"
  shows "length (modules c') = length (modules c)" "ext_id c' = ext_id c"
    "next_client_id c' = next_client_id c"
    "nr_module c' = (if b then nr_module c else 0)" "lib_ok en' = lib_ok en"
proof -
  have "length (modules c') = length (modules c) \<and> ext_id c' = ext_id c \<and>
    next_client_id c' = next_client_id c \<and>
    nr_module c' = (if b then nr_module c else 0) \<and> lib_ok en' = lib_ok en"
    using assms
    by (induction rs arbitrary: i c en)
      (fastforce simp: init_modules_Cons Let_def split_def split: if_splits)+
  then show "length (modules c') = length (modules c)" "ext_id c' = ext_id c"
    "next_client_id c' = next_client_id c"
    "nr_module c' = (if b then nr_module c else 0)" "lib_ok en' = lib_ok en"
    by simp_all
qed

lemma init_modules_get:
  assumes "init_modules rs i envs c en = (True, c', en')" and "i + length rs \<le> length (modules c)"
  shows "get_mod c' j = (if i \<le> j \<and> j < i + length rs then inited j (rs ! (j - i)) (envs j)
    else get_mod c j)"
  using assms
proof (induction rs arbitrary: i c en)
  case Nil
  then show ?case by auto
next
  case (Cons r rs)
  define c1 where "c1 = set_mod i (inited i r (envs i)) c"
  have rec: "init_modules rs (i + 1) envs c1 (snd (lib_call (snd (lib_call en)))) = (True, c', en')"
    using Cons.prems(1) by (auto simp: init_modules_Cons Let_def split_def c1_def split: if_splits)
  have "get_mod c' j = (if i + 1 \<le> j \<and> j < i + 1 + length rs then inited j (rs ! (j - (i + 1))) (envs j)
      else get_mod c1 j)"
    by (rule Cons.IH [OF rec]) (use Cons.prems(2) in \<open>simp add: c1_def\<close>)
  moreover have "(r # rs) ! (j - i) = rs ! (j - (i + 1))" if "i + 1 \<le> j"
    using that by (simp add: nth_Cons')
  ultimately show ?case using Cons.prems(2) by (auto simp: c1_def get_set_mod_if)
qed

lemma create_threads_ok:
  assumes "create_threads n i nr c en = (True, c', en')" and "i + n \<le> length (modules c)"
  shows "length (modules c') = length (modules c)" "nr_module c' = nr_module c"
    "next_client_id c' = next_client_id c"
    "get_mod c' j = (if i \<le> j \<and> j < i + n then (get_mod c j)\<lparr>m_th_started := True\<rparr> else get_mod c j)"
proof -
  have "length (modules c') = length (modules c) \<and> nr_module c' = nr_module c \<and>
    next_client_id c' = next_client_id c \<and>
    get_mod c' j = (if i \<le> j \<and> j < i + n then (get_mod c j)\<lparr>m_th_started := True\<rparr> else get_mod c j)"
    using assms
  proof (induction n arbitrary: i c en)
    case 0
    then show ?case by auto
  next
    case (Suc n)
    let ?c1 = "set_mod i ((get_mod c i)\<lparr>m_th_started := True\<rparr>) c"
    have "create_threads n (i + 1) nr ?c1 (snd (lib_call en)) = (True, c', en')"
      using Suc.prems(1) by (auto simp: Let_def split_def split: if_splits)
    from Suc.IH [OF this] Suc.prems(2) show ?case by (auto simp: get_set_mod_if)
  qed
  then show "length (modules c') = length (modules c)" "nr_module c' = nr_module c"
    "next_client_id c' = next_client_id c"
    "get_mod c' j = (if i \<le> j \<and> j < i + n then (get_mod c j)\<lparr>m_th_started := True\<rparr> else get_mod c j)"
    by simp_all
qed

section \<open>Setup and teardown\<close>

lemma coseq_setup_ok:
  assumes "coseq_setup c tbl nr envs en = (True, c', en')"
    and "length tbl = unat nr" and "length (modules c) = MAX_MODULE"
  shows "nr_module c' = uint nr" "length (modules c') = MAX_MODULE"
    "next_client_id c' = next_client_id c"
    "get_mod c' i = (if i < unat nr then booted i (tbl ! i) (envs i) else get_mod c i)"
proof -
  obtain c1 en1 en2 where max: "unat nr \<le> MAX_MODULE"
    and c1: "init_modules tbl 0 envs (c\<lparr>nr_module := uint nr\<rparr>) en = (True, c1, en1)"
    and c2: "create_threads (unat nr) 0 (unat nr) c1 en1 = (True, c', en2)"
    using assms(1,2) by (auto simp: coseq_setup_def Let_def split: if_splits prod.splits)
  note k1 = init_modules_keeps [OF c1] and g1 = init_modules_get [OF c1]
  have len: "0 + unat nr \<le> length (modules c1)" using k1(1) assms(3) max by simp
  note k2 = create_threads_ok [OF c2 len]
  show "nr_module c' = uint nr" "length (modules c') = MAX_MODULE"
    "next_client_id c' = next_client_id c"
    using k1 k2 assms(3) by simp_all
  show "get_mod c' i = (if i < unat nr then booted i (tbl ! i) (envs i) else get_mod c i)"
    using k2(4) [of i] g1 [of i] assms(2,3) max by (simp add: booted_def)
qed

text \<open>A module of a fresh instance is at rest, and its identifiers start at 1.\<close>

lemma booted_fields:
  "m_idx (booted i r en) = int i" "m_seqs (booted i r en) = r_seq_array r"
  "m_nr_seq (booted i r en) = r_nr_seq_max r" "m_recv_notify (booted i r en) = r_recv_notify r"
  "m_inbox (booted i r en) = []" "m_fibers (booted i r en) = []" "m_pending (booted i r en) = []"
  "m_notify_clients (booted i r en) = []" "m_next_req_id (booted i r en) = 1"
  "m_current (booted i r en) = None" "m_locked_by (booted i r en) = None"
  "m_deferred (booted i r en) = []" "\<not> m_stop (booted i r en)" "m_th_started (booted i r en)"
  "m_mtx (booted i r en)" "m_cv (booted i r en)" "m_env (booted i r en) = en"
  "m_next_fptr (booted i r en) = 0"
  by (simp_all add: booted_def inited_def load_module_def zero_module_def)

section \<open>Properties of setup and teardown\<close>

definition fresh_ctx :: coseq_ctx_private where
  "fresh_ctx = zero_ctx\<lparr>ext_mtx := True, ext_cv := True, ext_wait_rid := - 1, ext_id := 1\<rparr>"

lemma create_coseq_ok: "all_ok en \<Longrightarrow> fst (create_coseq en) = Some fresh_ctx"
  by (simp add: create_coseq_def Let_def all_ok_def split_def fresh_ctx_def)

lemma fresh_ctx_simps [simp]:
  "length (modules fresh_ctx) = MAX_MODULE" "nr_module fresh_ctx = 0"
  "i < MAX_MODULE \<Longrightarrow> get_mod fresh_ctx i = zero_module"
  by (simp_all add: fresh_ctx_def zero_ctx_def get_mod_def)

lemma init_modules_succeeds:
  "all_ok en \<Longrightarrow> fst (init_modules rs i envs c en)"
proof (induction rs arbitrary: i c en)
  case Nil
  then show ?case by simp
next
  case (Cons r rs)
  have "all_ok (snd (lib_call (snd (lib_call en))))" using Cons.prems by (simp add: all_ok_def)
  from Cons.IH [OF this] Cons.prems show ?case
    by (simp add: init_modules_Cons Let_def split_def all_ok_def)
qed

lemma create_threads_succeeds: "all_ok en \<Longrightarrow> fst (create_threads n i nr c en)"
  by (induction n arbitrary: i c en) (simp_all add: Let_def split_def all_ok_def)

lemma coseq_setup_succeeds:
  assumes "all_ok en" and "length tbl = unat nr" and "unat nr \<le> MAX_MODULE"
  shows "fst (coseq_setup c tbl nr envs en)"
proof -
  let ?init = "init_modules tbl 0 envs (c\<lparr>nr_module := uint nr\<rparr>) en"
  have "lib_ok (snd (snd ?init)) = lib_ok en"
    using init_modules_keeps(5) [of tbl 0 envs "c\<lparr>nr_module := uint nr\<rparr>" en] by (metis prod.collapse)
  then have "all_ok (snd (snd ?init))" using assms(1) by (simp add: all_ok_def)
  then show ?thesis
    using init_modules_succeeds [OF assms(1)] create_threads_succeeds assms(2,3)
    by (simp add: coseq_setup_def Let_def split_def)
qed

text \<open>
  C38: Setup starts the table, and only the table. When no library call fails, a table of at most 32
  entries is accepted; module \<open>i\<close> then runs entry \<open>i\<close>, with its own index, no work and request
  ids starting at 1, and the modules beyond the table are untouched.
\<close>

theorem setup_starts_table:
  assumes "all_ok en" and "length tbl = unat nr" and "unat nr \<le> MAX_MODULE"
    and "length (modules c) = MAX_MODULE" and "coseq_setup c tbl nr envs en = (b, c', en')"
  shows "b \<and> nr_module c' = uint nr \<and>
    (\<forall>i. get_mod c' i = (if i < unat nr then booted i (tbl ! i) (envs i) else get_mod c i)) \<and>
    (\<forall>i < unat nr. m_th_started (get_mod c' i) \<and> m_idx (get_mod c' i) = int i \<and>
      m_seqs (get_mod c' i) = r_seq_array (tbl ! i) \<and> m_inbox (get_mod c' i) = [] \<and>
      m_fibers (get_mod c' i) = [] \<and> m_next_req_id (get_mod c' i) = 1)"
proof -
  have "fst (coseq_setup c tbl nr envs en)" by (rule coseq_setup_succeeds [OF assms(1-3)])
  then have b: "coseq_setup c tbl nr envs en = (True, c', en')" using assms(5) by simp
  note ok = coseq_setup_ok [OF b assms(2,4)]
  show ?thesis using assms(5) b ok(1,4) by (simp add: booted_fields)
qed

definition one_entry :: coseq_reg_t where
  "one_entry = \<lparr>r_name = Some ''m'', r_nr_que_max = 4,
     r_seq_array = [\<lparr>sq_fn = Return, sq_name = ''s''\<rparr>], r_nr_seq_max = 1, r_recv_notify = None, r_user = 0\<rparr>"

definition two_entries :: "coseq_reg_t list" where
  "two_entries = [one_entry, one_entry]"

lemma setup_starts_table_witness:
  "m_idx (get_mod (fst (snd (coseq_setup fresh_ctx two_entries 2 (\<lambda>_. no_env) no_env))) 1) = 1"
  using setup_starts_table [of no_env two_entries 2 fresh_ctx "\<lambda>_. no_env"
      "fst (coseq_setup fresh_ctx two_entries 2 (\<lambda>_. no_env) no_env)"
      "fst (snd (coseq_setup fresh_ctx two_entries 2 (\<lambda>_. no_env) no_env))"
      "snd (snd (coseq_setup fresh_ctx two_entries 2 (\<lambda>_. no_env) no_env))"]
  by (simp add: two_entries_def MAX_MODULE_def booted_fields)

text \<open>The first library call after \<open>en\<close> that fails is the one after \<open>q\<close> others.\<close>

definition first_failure :: "env \<Rightarrow> nat \<Rightarrow> bool" where
  "first_failure en q \<longleftrightarrow> \<not> lib_ok en (lib_calls en + q) \<and> (\<forall>r < q. lib_ok en (lib_calls en + r))"

lemma first_failure_later:
  assumes "first_failure en1 q" and "lib_ok en1 = lib_ok en" and "lib_calls en1 = lib_calls en + n"
    and "\<forall>r < n. lib_ok en (lib_calls en + r)"
  shows "first_failure en (n + q)"
proof -
  have "lib_ok en (lib_calls en + r)" if "r < n + q" for r
  proof (cases "r < n")
    case False
    then obtain s where "r = n + s" using le_Suc_ex not_less by blast
    with that assms(1-3) show ?thesis by (auto simp: first_failure_def add.assoc)
  qed (use assms(4) in blast)
  with assms(1-3) show ?thesis by (auto simp: first_failure_def add.assoc)
qed

lemma init_modules_calls:
  assumes "init_modules rs i envs c en = (True, c', en')"
  shows "lib_calls en' = lib_calls en + 2 * length rs \<and> (\<forall>r < 2 * length rs. lib_ok en (lib_calls en + r))"
  using assms
proof (induction rs arbitrary: i c en)
  case (Cons x rs)
  let ?en = "snd (lib_call (snd (lib_call en)))"
  have ok: "lib_ok en (lib_calls en)" "lib_ok en (Suc (lib_calls en))"
    and "init_modules rs (i + 1) envs (set_mod i (inited i x (envs i)) c) ?en = (True, c', en')"
    using Cons.prems by (auto simp: init_modules_Cons Let_def split_def lib_call_def split: if_splits)
  from Cons.IH [OF this(3)] have IH: "lib_calls en' = lib_calls en + 2 + 2 * length rs"
    "\<And>r. r < 2 * length rs \<Longrightarrow> lib_ok en (Suc (Suc (lib_calls en + r)))"
    by (auto simp: lib_call_def)
  have "lib_ok en (lib_calls en + r)" if "r < 2 * length (x # rs)" for r
  proof (cases r)
    case (Suc s)
    with that ok IH(2) show ?thesis by (cases s) auto
  qed (use ok in simp)
  with IH(1) show ?case by simp
qed simp

lemma init_modules_stops:
  assumes "init_modules rs i envs c en = (False, c', en')" and "i + length rs \<le> length (modules c)"
  shows "\<exists>q < 2 * length rs. first_failure en q \<and>
    (\<forall>k. get_mod c' k = (if i \<le> k \<and> k < i + q div 2 then inited k (rs ! (k - i)) (envs k)
       else if k = i + q div 2 then load_module k (rs ! (k - i)) (envs k) else get_mod c k))"
  using assms
proof (induction rs arbitrary: i c en)
  case Nil
  then show ?case by simp
next
  case (Cons x rs)
  define c1 where "c1 = set_mod i (inited i x (envs i)) c"
  define c0 where "c0 = (set_mod i (load_module i x (envs i)) c)\<lparr>nr_module := 0\<rparr>"
  let ?en = "snd (lib_call (snd (lib_call en)))"
  have c0: "get_mod c0 k = (if k = i then load_module k ((x # rs) ! (k - i)) (envs k) else get_mod c k)" for k
    using Cons.prems(2) by (simp add: c0_def get_set_mod_if)
  consider (mutex) "\<not> lib_ok en (lib_calls en)" "c' = c0"
    | (cond) "lib_ok en (lib_calls en)" "\<not> lib_ok en (Suc (lib_calls en))" "c' = c0"
    | (rest) "lib_ok en (lib_calls en)" "lib_ok en (Suc (lib_calls en))"
        "init_modules rs (i + 1) envs c1 ?en = (False, c', en')"
    using Cons.prems(1)
    by (auto simp: init_modules_Cons Let_def split_def lib_call_def c0_def c1_def split: if_splits)
  then show ?case
  proof cases
    case mutex
    then show ?thesis by (intro exI [of _ 0]) (auto simp: first_failure_def c0)
  next
    case cond
    then show ?thesis by (intro exI [of _ 1]) (auto simp: first_failure_def c0)
  next
    case rest
    have "i + 1 + length rs \<le> length (modules c1)" using Cons.prems(2) by (simp add: c1_def)
    from Cons.IH [OF rest(3) this] obtain q where q: "q < 2 * length rs" "first_failure ?en q"
      "\<And>k. get_mod c' k = (if i + 1 \<le> k \<and> k < i + 1 + q div 2 then inited k (rs ! (k - (i + 1))) (envs k)
         else if k = i + 1 + q div 2 then load_module k (rs ! (k - (i + 1))) (envs k) else get_mod c1 k)"
      by blast
    have "first_failure en (2 + q)"
      by (rule first_failure_later [OF q(2)])
        (use rest in \<open>auto simp: lib_call_def less_Suc_eq numeral_2_eq_2\<close>)
    moreover have "(x # rs) ! (k - i) = rs ! (k - (i + 1))" if "i + 1 \<le> k" for k
      using that by (simp add: nth_Cons')
    then have "get_mod c' k = (if i \<le> k \<and> k < i + (2 + q) div 2 then inited k ((x # rs) ! (k - i)) (envs k)
        else if k = i + (2 + q) div 2 then load_module k ((x # rs) ! (k - i)) (envs k) else get_mod c k)" for k
      using q(3) [of k] Cons.prems(2) by (auto simp: c1_def get_set_mod_if)
    ultimately show ?thesis using q(1) by (intro exI [of _ "2 + q"]) auto
  qed
qed

lemma create_threads_stops:
  assumes "create_threads n i nr c en = (False, c', en')" and "nr \<le> length (modules c)" and "i + n \<le> nr"
  shows "\<exists>q < n. first_failure en q \<and> nr_module c' = 0 \<and>
    (\<forall>k. get_mod c' k = (if k < nr then free_module (join_thread (signal_stop
       (if i \<le> k \<and> k < i + q then (get_mod c k)\<lparr>m_th_started := True\<rparr> else get_mod c k))) else get_mod c k))"
  using assms
proof (induction n arbitrary: i c en)
  case (Suc n)
  define c1 where "c1 = set_mod i ((get_mod c i)\<lparr>m_th_started := True\<rparr>) c"
  show ?case
  proof (cases "lib_ok en (lib_calls en)")
    case True
    then have "create_threads n (i + 1) nr c1 (snd (lib_call en)) = (False, c', en')"
      using Suc.prems(1) by (simp add: Let_def split_def lib_call_def c1_def)
    from Suc.IH [OF this] Suc.prems(2,3) obtain q where q: "q < n" "first_failure (snd (lib_call en)) q" "nr_module c' = 0"
      "\<And>k. get_mod c' k = (if k < nr then free_module (join_thread (signal_stop
         (if i + 1 \<le> k \<and> k < i + 1 + q then (get_mod c1 k)\<lparr>m_th_started := True\<rparr> else get_mod c1 k))) else get_mod c1 k)"
      by (auto simp: c1_def)
    have "first_failure en (1 + q)"
      by (rule first_failure_later [OF q(2)]) (use True in \<open>auto simp: lib_call_def\<close>)
    with q Suc.prems(2,3) show ?thesis
      by (intro exI [of _ "1 + q"]) (auto simp: c1_def get_set_mod_if)
  next
    case False
    then have "c' = (stop_modules nr c)\<lparr>nr_module := 0\<rparr>"
      using Suc.prems(1) by (simp add: Let_def split_def lib_call_def)
    then show ?thesis
      using False Suc.prems(2) by (intro exI [of _ 0]) (auto simp: first_failure_def get_stop_modules)
  qed
qed simp

text \<open>
  C37: A failed setup leaves nothing running, and what it leaves is determined by the call that failed.
  Starting from an instance without threads, no thread is left and no module accepts events; a table that
  is too long changes nothing. Otherwise let the library call after \<open>q\<close> successful ones be the first
  that fails. If it is an initialisation, of the mutex or the condition variable of module \<open>j = q div 2\<close>, the
  modules before \<open>j\<close> keep their initialised mutexes and condition variables, module \<open>j\<close> is filled in but has
  neither, and the later ones are as they were. If it is the creation of a thread, every module of
  the table has been released, and no other module is touched.
\<close>

theorem failed_setup_rolls_back:
  assumes "coseq_setup c tbl nr envs en = (False, c', en')" and "length tbl = unat nr"
    and "length (modules c) = MAX_MODULE" and "nr_module c = 0"
    and "\<forall>i < MAX_MODULE. \<not> m_th_started (get_mod c i)"
  shows "nr_module c' = 0 \<and> (\<forall>i < MAX_MODULE. \<not> m_th_started (get_mod c' i)) \<and>
    (unat nr > MAX_MODULE \<and> c' = c \<or>
     unat nr \<le> MAX_MODULE \<and>
     (\<exists>q < 3 * unat nr. \<not> lib_ok en (lib_calls en + q) \<and> (\<forall>r < q. lib_ok en (lib_calls en + r)) \<and>
       (if q < 2 * unat nr
        then \<forall>k. get_mod c' k = (if k < q div 2 then inited k (tbl ! k) (envs k)
               else if k = q div 2 then load_module k (tbl ! k) (envs k) else get_mod c k)
        else \<forall>k. if k < unat nr then released (get_mod c' k) else get_mod c' k = get_mod c k)))"
proof (cases "unat nr > MAX_MODULE")
  case True
  then show ?thesis using assms by (simp add: coseq_setup_def)
next
  case False
  let ?c0 = "c\<lparr>nr_module := uint nr\<rparr>"
  obtain b c1 en1 where init: "init_modules tbl 0 envs ?c0 en = (b, c1, en1)"
    by (metis prod.exhaust)
  have len: "0 + length tbl \<le> length (modules ?c0)" using assms(2,3) False by simp
  note keeps = init_modules_keeps [OF init]
  have parts: "\<not> m_th_started (load_module k r e)" "\<not> m_th_started (inited k r e)" for k r e
    by (simp_all add: load_module_def inited_def zero_module_def)
  show ?thesis
  proof (cases b)
    case True
    then obtain en2 where thr: "create_threads (unat nr) 0 (unat nr) c1 en1 = (False, c', en2)"
      using assms(1,2) init False
      by (auto simp: coseq_setup_def Let_def split: if_splits prod.splits)
    have init': "init_modules tbl 0 envs ?c0 en = (True, c1, en1)" using init True by simp
    have "unat nr \<le> length (modules c1)" using keeps(1) assms(3) False by simp
    from create_threads_stops [OF thr this] obtain q where q: "q < unat nr" "first_failure en1 q" "nr_module c' = 0"
      "\<And>k. k < unat nr \<Longrightarrow> released (get_mod c' k)" "\<And>k. \<not> k < unat nr \<Longrightarrow> get_mod c' k = get_mod c1 k"
      by auto
    have "first_failure en (2 * unat nr + q)"
      by (rule first_failure_later [OF q(2) keeps(5)]) (use init_modules_calls [OF init'] assms(2) in simp_all)
    moreover have c1: "get_mod c1 k = get_mod c k" if "\<not> k < unat nr" for k
      using init_modules_get [OF init' len, of k] that assms(2) by simp
    moreover have "\<not> m_th_started (get_mod c' k)" if "k < MAX_MODULE" for k
      using that q(4,5) [of k] c1 [of k] assms(5) by (cases "k < unat nr") (auto simp: released_def)
    ultimately show ?thesis
      using q False by (intro conjI disjI2 exI [of _ "2 * unat nr + q"]) (auto simp: first_failure_def)
  next
    case b: False
    then have c': "c' = c1" using assms(1,2) init False
      by (auto simp: coseq_setup_def Let_def split: if_splits prod.splits)
    from init b have "init_modules tbl 0 envs ?c0 en = (False, c1, en1)" by simp
    from init_modules_stops [OF this len] obtain q where q: "q < 2 * unat nr" "first_failure en q"
      "\<And>k. get_mod c1 k = (if k < q div 2 then inited k (tbl ! k) (envs k)
         else if k = q div 2 then load_module k (tbl ! k) (envs k) else get_mod c k)"
      using assms(2) by auto
    have "\<not> m_th_started (get_mod c1 k)" if "k < MAX_MODULE" for k
      using that q(3) parts assms(5) by simp
    then show ?thesis
      using q False c' keeps(4) b
      by (intro conjI disjI2 exI [of _ q]) (auto simp: first_failure_def)
  qed
qed

lemma failed_setup_rolls_back_witness:
  "m_mtx (get_mod (fst (snd (coseq_setup fresh_ctx two_entries 2 (\<lambda>_. no_env)
     (no_env\<lparr>lib_ok := (\<lambda>n. n \<noteq> 2)\<rparr>)))) 0)"
proof -
  let ?en = "no_env\<lparr>lib_ok := (\<lambda>n. n \<noteq> 2)\<rparr>"
  let ?r = "coseq_setup fresh_ctx two_entries 2 (\<lambda>_. no_env) ?en"
  have r: "?r = (False, fst (snd ?r), snd (snd ?r))"
    by (simp add: coseq_setup_def two_entries_def init_modules_Cons Let_def split_def
        lib_call_def MAX_MODULE_def prod_eq_iff)
  have u: "unat (2 :: u8) = 2" "lib_calls no_env = 0" by (simp_all add: no_env_def)
  from failed_setup_rolls_back [OF r]
  obtain q where "\<not> lib_ok ?en (lib_calls ?en + q)" and
    "if q < 2 * unat (2 :: u8)
        then \<forall>k. get_mod (fst (snd ?r)) k = (if k < q div 2 then inited k (two_entries ! k) no_env
               else if k = q div 2 then load_module k (two_entries ! k) no_env else get_mod fresh_ctx k)
        else \<forall>k. if k < unat (2 :: u8) then released (get_mod (fst (snd ?r)) k) else get_mod (fst (snd ?r)) k = get_mod fresh_ctx k"
    by (auto simp: two_entries_def zero_module_def MAX_MODULE_def)
  then have "get_mod (fst (snd ?r)) 0 = inited 0 (two_entries ! 0) no_env" by (simp add: u)
  then show ?thesis by (simp add: inited_def)
qed

text \<open>
  C39: Teardown is complete and idempotent. It stops and joins every started thread of the instance and
  gives back all fibers, entries, listeners, events, mutexes and condition variables of its
  modules; afterwards the instance accepts no event, and a second teardown does nothing.
\<close>

theorem teardown_complete:
  assumes "nr_ok c" and "nr_module c \<noteq> 0" and "coseq_teardown c en = (c', en')"
  shows "nr_module c' = 0 \<and> (\<forall>j < nat (nr_module c). released (get_mod c' j)) \<and>
    (\<forall>j. nat (nr_module c) \<le> j \<longrightarrow> get_mod c' j = get_mod c j) \<and>
    (\<forall>dest e en2. fst (post c' dest (Some e) en2) = c') \<and>
    (\<forall>en2. coseq_teardown c' en2 = (c', en2))"
proof -
  have c': "c' = stop_modules (nat (nr_module c)) (c\<lparr>nr_module := 0\<rparr>)"
    using assms by (simp add: coseq_teardown_def Let_def)
  have le: "nat (nr_module c) \<le> length (modules (c\<lparr>nr_module := 0\<rparr>))"
    using assms(1) by (simp add: nr_ok_def)
  have nr: "nr_module c' = 0" by (simp add: c')
  show ?thesis
    using nr get_stop_modules [OF le]
    by (auto simp: coseq_teardown_def c' post_def)
qed

lemma teardown_complete_witness:
  "released (get_mod (fst (coseq_teardown two_modules no_env)) 1)"
  using teardown_complete [of two_modules no_env "fst (coseq_teardown two_modules no_env)"
      "snd (coseq_teardown two_modules no_env)"] by simp

section \<open>Properties of requests from outside\<close>



end
