(* ===== verification/CoseqInv.thy ===== *)
theory CoseqInv
  imports CoseqSched
begin

text \<open>
  Invariants of a module. The scheduler's own steps complete the transition system of
  \<open>CoseqSteps\<close>: a fiber is switched in (\<open>wakes\<close>) or the private data change while no fiber runs
  (\<open>quiet\<close>). A property of the private data that the steps keep holds after every turn of the
  loop: the locale \<open>module_steps\<close> proves it once, for all invariants.
\<close>

section \<open>Switching a fiber in\<close>

definition switched :: "fiber_t \<Rightarrow> fiber_t" where
  "switched f = f\<lparr>f_waiting_timer := False, f_waiting_reply := False, f_waiting_any := False,
     f_async_outstanding := (case f_ctx f of
         After_wait_reply k \<Rightarrow> f_async_outstanding f - 1
       | _ \<Rightarrow> f_async_outstanding f)\<rparr>"

definition entry_prog :: "fiber_t \<Rightarrow> seq_prog option" where
  "entry_prog f = (case f_ctx f of
       At_entry \<Rightarrow> Some (f_fn f)
     | After_request k \<Rightarrow> Some (k (f_src f))
     | After_wait_reply k \<Rightarrow> Some (k (Some (f_src f)))
     | After_wait_timeout p \<Rightarrow> Some p
     | Finished \<Rightarrow> None)"

lemma switched_self [simp]: "f_self (switched f) = f_self f"
  by (simp add: switched_def)

definition enter :: "coseq_ctx_private \<Rightarrow> nat \<Rightarrow> fiber_t \<Rightarrow> coseq_ctx_private" where
  "enter c i f = set_mod i ((put_fiber (switched f) (get_mod c i))\<lparr>m_current := Some (f_self f)\<rparr>) c"

definition leave :: "nat \<Rightarrow> coseq_ctx_private \<Rightarrow> coseq_ctx_private" where
  "leave i c = set_mod i ((get_mod c i)\<lparr>m_current := None\<rparr>) c"

lemma put_put_fiber:
  "f_self f = f_self g \<Longrightarrow> put_fiber f (put_fiber g m) = put_fiber f m"
  by (simp add: put_fiber_def)

lemma put_fiber_current: "put_fiber f (m\<lparr>m_current := q\<rparr>) = (put_fiber f m)\<lparr>m_current := q\<rparr>"
  by (simp add: put_fiber_def)

lemma resume_unfold:
  assumes "valid_mod c i" and "get_fiber (get_mod c i) p = Some f"
  shows "resume c i p =
    (case entry_prog f of
       None \<Rightarrow> undef (Resume_finished p (set_mod i ((put_fiber (f\<lparr>f_waiting_timer := False,
           f_waiting_reply := False, f_waiting_any := False\<rparr>) (get_mod c i))\<lparr>m_current := Some p\<rparr>) c))
     | Some prog \<Rightarrow> obind (run_fiber (enter c i f) i p prog) (\<lambda>c2. ok (leave i c2)))"
proof -
  have p: "p = f_self f" using get_fiber_self [OF assms(2)] by simp
  show ?thesis
    using assms
    by (simp add: resume_def switch_in_def Let_def entry_prog_def enter_def leave_def p
        get_put_fiber switched_def put_fiber_current put_put_fiber split: ucontext_t.split)
qed

section \<open>The scheduler's steps\<close>

definition drop_pending :: "u32 \<Rightarrow> module_t \<Rightarrow> module_t" where
  "drop_pending r m = m\<lparr>m_pending := remove_first (\<lambda>p. p_req_id p = r) (m_pending m)\<rparr>"

lemma drop_pending_keeps [simp]:
  "m_fibers (drop_pending r m) = m_fibers m" "m_current (drop_pending r m) = m_current m"
  "m_locked_by (drop_pending r m) = m_locked_by m" "m_env (drop_pending r m) = m_env m"
  "m_next_req_id (drop_pending r m) = m_next_req_id m" "m_seqs (drop_pending r m) = m_seqs m"
  "m_nr_seq (drop_pending r m) = m_nr_seq m" "m_recv_notify (drop_pending r m) = m_recv_notify m"
  "m_inbox (drop_pending r m) = m_inbox m" "m_deferred (drop_pending r m) = m_deferred m"
  "m_next_fptr (drop_pending r m) = m_next_fptr m"
  "m_pending (drop_pending r m) = remove_first (\<lambda>p. p_req_id p = r) (m_pending m)"
  "get_fiber (drop_pending r m) p = get_fiber m p"
  by (simp_all add: drop_pending_def)

lemma lock_keeps [simp]:
  "m_fibers (coseq_lock m f) = m_fibers m" "m_fibers (coseq_unlock m f) = m_fibers m"
  "m_current (coseq_lock m f) = m_current m" "m_current (coseq_unlock m f) = m_current m"
  "m_pending (coseq_lock m f) = m_pending m" "m_pending (coseq_unlock m f) = m_pending m"
  "m_next_req_id (coseq_lock m f) = m_next_req_id m"
  "m_next_req_id (coseq_unlock m f) = m_next_req_id m"
  "m_seqs (coseq_lock m f) = m_seqs m" "m_seqs (coseq_unlock m f) = m_seqs m"
  "m_recv_notify (coseq_lock m f) = m_recv_notify m"
  "m_recv_notify (coseq_unlock m f) = m_recv_notify m"
  by (simp_all add: coseq_lock_def coseq_unlock_def)

text \<open>A reply with this id wakes the fiber.\<close>

definition woken_by :: "fiber_t \<Rightarrow> u32 \<Rightarrow> bool" where
  "woken_by f r \<longleftrightarrow> (f_waiting_reply f \<and> f_wait_req_id f = r) \<or> f_waiting_any f"

inductive wakes :: "module_t \<Rightarrow> fptr \<Rightarrow> module_t \<Rightarrow> seq_prog \<Rightarrow> bool" where
  w_reply: "pending_find (m_pending m) r = Some p \<Longrightarrow> get_fiber m p = Some f \<Longrightarrow> woken_by f r \<Longrightarrow>
    src_only f f1 \<Longrightarrow> entry_prog f1 = Some prog \<Longrightarrow>
    m_private m' = m_private ((put_fiber (switched f1) (drop_pending r m))\<lparr>m_current := Some p\<rparr>) \<Longrightarrow>
    wakes m p m' prog"
| w_timer: "get_fiber m p = Some f \<Longrightarrow> f_waiting_timer f \<Longrightarrow> \<not> f_waiting_reply f \<Longrightarrow>
    entry_prog f = Some prog \<Longrightarrow>
    m_private m' = m_private ((put_fiber (switched f) m)\<lparr>m_current := Some p\<rparr>) \<Longrightarrow>
    wakes m p m' prog"
| w_req_timeout: "get_fiber m p = Some f \<Longrightarrow> f_waiting_timer f \<Longrightarrow> f_waiting_reply f \<Longrightarrow>
    src_only f f1 \<Longrightarrow> entry_prog f1 = Some prog \<Longrightarrow>
    m_private m' = m_private
      ((put_fiber (switched f1) (drop_pending (f_wait_req_id f) m))\<lparr>m_current := Some p\<rparr>) \<Longrightarrow>
    wakes m p m' prog"
| w_start: "fresh_fiber f \<Longrightarrow> f_self f = m_next_fptr m \<Longrightarrow> f_fn f = prog \<Longrightarrow>
    prog \<in> sq_fn ` set (m_seqs m) \<or> m_recv_notify m = Some prog \<Longrightarrow>
    m_private m' = m_private (m\<lparr>m_next_fptr := m_next_fptr m + 1, m_fibers := f # m_fibers m,
      m_current := Some (f_self f)\<rparr>) \<Longrightarrow>
    wakes m (f_self f) m' prog"

inductive quiet :: "module_t \<Rightarrow> module_t \<Rightarrow> bool" where
  q_same: "m_private m' = m_private m \<Longrightarrow> quiet m m'"
| q_defer: "m_private m' = m_private (m\<lparr>m_deferred := evs\<rparr>) \<Longrightarrow> quiet m m'"
| q_lost: "pending_find (m_pending m) r = Some p \<Longrightarrow> get_fiber m p = Some f \<Longrightarrow> \<not> woken_by f r \<Longrightarrow>
    \<not> all_ok (m_env m) \<Longrightarrow> m_private m' = m_private (drop_pending r m) \<Longrightarrow> quiet m m'"
| q_queue: "pending_find (m_pending m) r = Some p \<Longrightarrow> get_fiber m p = Some f \<Longrightarrow> \<not> woken_by f r \<Longrightarrow>
    rr_req_id rr = r \<Longrightarrow>
    m_private m' = m_private (put_fiber (rq_put f rr) (drop_pending r m)) \<Longrightarrow> quiet m m'"

inductive_cases wakesE: "wakes m p m' prog"
inductive_cases quietE: "quiet m m'"

section \<open>Invariants of a module\<close>

text \<open>
  What is shown of a piece of the scheduler that starts in \<open>c\<close> on the thread of module \<open>i\<close>:
  if it returns, it has only appended to other inboxes and \<open>Q\<close> holds of the module; if it runs
  into undefined behaviour, it used a fiber that had been freed, and \<open>W\<close> held of the module at
  that point; and where \<open>T\<close> holds, it returns.
\<close>

definition run_spec ::
    "(module_t \<Rightarrow> bool) \<Rightarrow> (module_t \<Rightarrow> bool) \<Rightarrow> bool \<Rightarrow> nat \<Rightarrow> coseq_ctx_private \<Rightarrow>
      run_result \<Rightarrow> bool"
where
  "run_spec Q W T i c r \<longleftrightarrow>
     (\<forall>c'. r = ok c' \<longrightarrow> step_frame i c c' \<and> Q (get_mod c' i)) \<and>
     (\<forall>u. r = undef u \<longrightarrow> (\<exists>p c'. u = Use_after_free p c' \<and> W (get_mod c' i))) \<and>
     (T \<longrightarrow> r \<noteq> None)"

lemma run_spec_ok [simp]: "run_spec Q W T i c (ok c') \<longleftrightarrow> step_frame i c c' \<and> Q (get_mod c' i)"
  by (simp add: run_spec_def)

lemma run_spec_undef [simp]:
  "run_spec Q W T i c (undef u) \<longleftrightarrow> (\<exists>p c'. u = Use_after_free p c' \<and> W (get_mod c' i))"
  by (simp add: run_spec_def)

lemma run_spec_None [simp]: "run_spec Q W T i c None \<longleftrightarrow> \<not> T"
  by (simp add: run_spec_def)

lemma run_spec_frame: "step_frame i c c1 \<Longrightarrow> run_spec Q W T i c1 r \<Longrightarrow> run_spec Q W T i c r"
  by (auto simp: run_spec_def intro: step_frame_trans)

lemma get_leave: "valid_mod c i \<Longrightarrow> get_mod (leave i c) i = (get_mod c i)\<lparr>m_current := None\<rparr>"
  by (simp add: leave_def)

lemma leave_frame: "valid_mod c i \<Longrightarrow> step_frame i c (leave i c)"
  by (simp add: leave_def step_frame_set_mod)

text \<open>
  \<open>Q\<close> is a property of a module none of whose fibers runs, \<open>R\<close> of one whose fiber \<open>p\<close> runs and
  has \<open>prog\<close> left to do. \<open>W\<close> excuses undefined behaviour: \<open>\<lambda>_. True\<close> where only the states
  that are reached matter, a contradiction where the code must be shown to be safe. \<open>T\<close> tells
  whether the runs of fibers are to be shown finite.
\<close>

text \<open>The running fiber makes finitely many calls that return to it before it yields.\<close>

inductive finite_run :: "module_t \<Rightarrow> fptr \<Rightarrow> seq_prog \<Rightarrow> bool" where
  finite_run_step: "(\<And>f m' prog'. get_fiber m p = Some f \<Longrightarrow> continues m f prog m' prog' \<Longrightarrow>
      finite_run m' p prog') \<Longrightarrow> finite_run m p prog"

lemma run_fiber_returns:
  assumes "finite_run m p prog" and "m = get_mod c i" and "nr_ok c" and "valid_mod c i"
  shows "run_fiber c i p prog \<noteq> None"
  using assms
proof (induction arbitrary: c)
  case (finite_run_step m p prog)
  show ?case
  proof (cases "get_fiber m p")
    case None
    then show ?thesis using finite_run_step.prems(1) by (simp add: run_fiber.simps undef_def)
  next
    case (Some f)
    show ?thesis
    proof (cases "api_step c i f prog")
      case (Continue c' prog')
      note st = api_step_continue [OF finite_run_step.prems(2,3) Continue]
      have "run_fiber c' i p prog' \<noteq> None"
        by (rule finite_run_step.IH [OF Some])
          (use st finite_run_step.prems in \<open>auto dest: step_frame_nr_ok step_frame_length\<close>)
      then show ?thesis
        using Some Continue finite_run_step.prems(1) by (simp add: run_fiber.simps)
    next
      case (Yielded c')
      then show ?thesis
        using Some finite_run_step.prems(1) by (simp add: run_fiber.simps ok_def)
    qed
  qed
qed

locale module_steps =
  fixes Q :: "module_t \<Rightarrow> bool" and R :: "module_t \<Rightarrow> fptr \<Rightarrow> seq_prog \<Rightarrow> bool"
    and W :: "module_t \<Rightarrow> bool" and T :: bool
  assumes quiet_Q: "Q m \<Longrightarrow> quiet m m' \<Longrightarrow> lib_ok (m_env m') = lib_ok (m_env m) \<Longrightarrow> Q m'"
    and wakes_R: "Q m \<Longrightarrow> wakes m p m' prog \<Longrightarrow> lib_ok (m_env m') = lib_ok (m_env m) \<Longrightarrow>
      R m' p prog"
    and continues_R: "R m p prog \<Longrightarrow> get_fiber m p = Some f \<Longrightarrow> continues m f prog m' prog' \<Longrightarrow>
      lib_ok (m_env m') = lib_ok (m_env m) \<Longrightarrow> R m' p prog'"
    and yields_Q: "R m p prog \<Longrightarrow> get_fiber m p = Some f \<Longrightarrow> yields m f prog m' \<Longrightarrow>
      lib_ok (m_env m') = lib_ok (m_env m) \<Longrightarrow> Q (m'\<lparr>m_current := None\<rparr>)"
    and running_live: "R m p prog \<Longrightarrow> get_fiber m p \<noteq> None"
    and pending_live: "Q m \<Longrightarrow> pending_find (m_pending m) r = Some p \<Longrightarrow> get_fiber m p = None \<Longrightarrow> W m"
    and waiting_entry: "Q m \<Longrightarrow> get_fiber m p = Some f \<Longrightarrow>
      f_waiting_timer f \<or> f_waiting_reply f \<or> f_waiting_any f \<Longrightarrow> f_ctx f \<noteq> Finished"
    and in_table: "Q m \<Longrightarrow> unat (m_nr_seq m) \<le> length (m_seqs m)"
    and fresh_addr: "Q m \<Longrightarrow> m_next_fptr m \<notin> f_self ` set (m_fibers m)"
    and runs_end: "T \<Longrightarrow> R m p prog \<Longrightarrow> finite_run m p prog"
begin

lemma run_fiber_steps:
  assumes "run_fiber c i p prog = Some y"
    and "R (get_mod c i) p prog" and "nr_ok c" and "valid_mod c i"
  shows "case y of Inr c' \<Rightarrow> step_frame i c c' \<and> Q ((get_mod c' i)\<lparr>m_current := None\<rparr>)
    | Inl u \<Rightarrow> False"
proof -
  let ?P = "\<lambda>i p prog c y. R (get_mod c i) p prog \<longrightarrow> nr_ok c \<longrightarrow> valid_mod c i \<longrightarrow>
    (case y of Inr c' \<Rightarrow> step_frame i c c' \<and> Q ((get_mod c' i)\<lparr>m_current := None\<rparr>)
      | Inl u \<Rightarrow> False)"
  have "?P i p prog c y"
  proof (rule run_fiber.raw_induct [where P = "\<lambda>c i p prog y. ?P i p prog c y", OF _ assms(1)],
      intro impI)
    fix g c i p prog y
    assume IH: "\<And>c i p prog y. g c i p prog = Some y \<Longrightarrow> ?P i p prog c y"
      and eq: "(case get_fiber (get_mod c i) p of None \<Rightarrow> undef (Use_after_free p c)
        | Some f \<Rightarrow> case api_step c i f prog of
            Continue c' prog' \<Rightarrow> g c' i p prog' | Yielded c' \<Rightarrow> ok c') = Some y"
      and R: "R (get_mod c i) p prog" and nr: "nr_ok c" and v: "valid_mod c i"
    show "case y of Inr c' \<Rightarrow> step_frame i c c' \<and> Q ((get_mod c' i)\<lparr>m_current := None\<rparr>)
      | Inl u \<Rightarrow> False"
    proof (cases "get_fiber (get_mod c i) p")
      case None
      with running_live [OF R] show ?thesis by simp
    next
      case (Some f)
      show ?thesis
      proof (cases "api_step c i f prog")
        case (Continue c' prog')
        note st = api_step_continue [OF nr v Continue]
        have R': "R (get_mod c' i) p prog'"
          using continues_R [OF R Some st(2)] st(1) by (simp add: step_frame_def)
        have "g c' i p prog' = Some y" using eq Some Continue by simp
        from IH [OF this] R' st(1) nr v
        have "case y of Inr c'' \<Rightarrow> step_frame i c' c'' \<and> Q ((get_mod c'' i)\<lparr>m_current := None\<rparr>)
          | Inl u \<Rightarrow> False"
          by (auto dest: step_frame_nr_ok step_frame_length)
        then show ?thesis
          using st(1) by (auto split: sum.splits intro: step_frame_trans)
      next
        case (Yielded c')
        note st = api_step_yield [OF nr v Yielded]
        have "Q ((get_mod c' i)\<lparr>m_current := None\<rparr>)"
          using yields_Q [OF R Some st(2)] st(1) by (simp add: step_frame_def)
        then show ?thesis using eq Some Yielded st(1) by (auto simp: ok_def)
      qed
    qed
  qed
  then show ?thesis using assms(2-4) by blast
qed

text \<open>A fiber that has been woken runs until it yields.\<close>

lemma woken_run:
  assumes "Q (get_mod c i)" and "nr_ok c" and "valid_mod c i" and "step_frame i c c1"
    and "wakes (get_mod c i) p (get_mod c1 i) prog"
  shows "run_spec Q W T i c (obind (run_fiber c1 i p prog) (\<lambda>c2. ok (leave i c2)))"
proof -
  have R: "R (get_mod c1 i) p prog"
    using wakes_R [OF assms(1,5)] assms(4) by (simp add: step_frame_def)
  have nr: "nr_ok c1" and v: "valid_mod c1 i"
    using assms(2-4) by (auto dest: step_frame_nr_ok step_frame_length)
  show ?thesis
  proof (cases "run_fiber c1 i p prog" rule: outcome_exhaust)
    case diverges
    then show ?thesis
      using run_fiber_returns [OF runs_end [OF _ R] refl nr v] by auto
  next
    case (undef u)
    from run_fiber_steps [OF this [unfolded undef_def] R nr v] show ?thesis
      by simp
  next
    case (ok c2)
    from run_fiber_steps [OF this [unfolded ok_def] R nr v]
    have st: "step_frame i c1 c2" and Q: "Q ((get_mod c2 i)\<lparr>m_current := None\<rparr>)" by auto
    have v2: "valid_mod c2 i" using step_frame_length [OF st] v by simp
    have "step_frame i c (leave i c2)"
      using assms(4) st leave_frame [OF v2] by (blast intro: step_frame_trans)
    with Q v2 show ?thesis by (simp add: ok get_leave)
  qed
qed

lemma resume_spec:
  assumes "Q (get_mod c i)" and "nr_ok c" and "valid_mod c i" and "step_frame i c c1"
    and f: "get_fiber (get_mod c1 i) p = Some f1"
    and wake: "\<And>prog m'. entry_prog f1 = Some prog \<Longrightarrow>
      m_private m' = m_private ((put_fiber (switched f1) (get_mod c1 i))\<lparr>m_current := Some p\<rparr>) \<Longrightarrow>
      wakes (get_mod c i) p m' prog"
    and stuck: "f_ctx f1 \<noteq> Finished"
  shows "run_spec Q W T i c (resume c1 i p)"
proof -
  have v: "valid_mod c1 i" using step_frame_length [OF assms(4)] assms(3) by simp
  have p: "f_self f1 = p" using get_fiber_self [OF f] .
  show ?thesis
  proof (cases "entry_prog f1")
    case None
    then have "f_ctx f1 = Finished" by (simp add: entry_prog_def split: ucontext_t.splits)
    with stuck show ?thesis by simp
  next
    case (Some prog)
    have g: "get_mod (enter c1 i f1) i = (put_fiber (switched f1) (get_mod c1 i))\<lparr>m_current := Some p\<rparr>"
      using v by (simp add: enter_def p)
    have w: "wakes (get_mod c i) p (get_mod (enter c1 i f1) i) prog"
      by (rule wake [OF Some]) (simp add: g)
    have "step_frame i c1 (enter c1 i f1)"
      using v by (simp add: enter_def step_frame_set_mod)
    with assms(4) have "step_frame i c (enter c1 i f1)" by (rule step_frame_trans)
    from woken_run [OF assms(1-3) this w] show ?thesis
      by (simp add: resume_unfold [OF v f] Some)
  qed
qed

lemma deliver_reply_spec:
  assumes "Q (get_mod c i)" and "nr_ok c" and "valid_mod c i"
    and look: "pending_find (m_pending (get_mod c i)) (e_req_id e) = Some p"
    and f: "get_fiber (get_mod c i) p = Some f" and wb: "woken_by f (e_req_id e)"
  shows "run_spec Q W T i c (deliver_reply c i (drop_pending (e_req_id e) (get_mod c i)) f e)"
proof -
  let ?m = "get_mod c i" and ?r = "e_req_id e"
  define d where "d = set_src f (e_msg e) (e_msg_size e) (e_result e) (word_of_int (e_requester e))
    (f_seq_idx f) 0 ?r (m_env ?m)"
  define m1 where "m1 = (put_fiber (fst d) (drop_pending ?r ?m))\<lparr>m_env := snd d\<rparr>"
  have p: "f_self f = p" using get_fiber_self [OF f] .
  have so: "src_only f (fst d)" unfolding d_def by (rule set_src_only)
  have self: "f_self (fst d) = p" and ctx: "f_ctx (fst d) = f_ctx f"
    using src_only_fields [OF so] p by simp_all
  have eq: "deliver_reply c i (drop_pending ?r ?m) f e = resume (set_mod i m1 c) i p"
    by (simp add: deliver_reply_def d_def m1_def p Let_def split_def drop_pending_def)
  show ?thesis
    unfolding eq
  proof (rule resume_spec [OF assms(1-3)])
    show "step_frame i c (set_mod i m1 c)"
      using assms(3) by (simp add: step_frame_set_mod m1_def d_def)
    show "get_fiber (get_mod (set_mod i m1 c) i) p = Some (fst d)"
      using assms(3) f by (simp add: m1_def get_put_fiber self drop_pending_def)
  next
    fix prog m'
    assume prog: "entry_prog (fst d) = Some prog"
      and m': "m_private m' = m_private
        ((put_fiber (switched (fst d)) (get_mod (set_mod i m1 c) i))\<lparr>m_current := Some p\<rparr>)"
    have "m_private m' = m_private
        ((put_fiber (switched (fst d)) (drop_pending ?r ?m))\<lparr>m_current := Some p\<rparr>)"
      unfolding m' using assms(3) by (simp add: m1_def put_fiber_def m_private_def)
    with w_reply [OF look f wb so prog] show "wakes ?m p m' prog" .
  next
    show "f_ctx (fst d) \<noteq> Finished"
      using waiting_entry [OF assms(1) f] ctx wb by (auto simp: woken_by_def)
  qed
qed

lemma queue_reply_spec:
  assumes "Q (get_mod c i)" and "nr_ok c" and "valid_mod c i"
    and look: "pending_find (m_pending (get_mod c i)) (e_req_id e) = Some p"
    and f: "get_fiber (get_mod c i) p = Some f" and wb: "\<not> woken_by f (e_req_id e)"
  shows "run_spec Q W T i c
    (ok (set_mod i (queue_reply (drop_pending (e_req_id e) (get_mod c i)) f e) c))"
proof -
  let ?m = "get_mod c i" and ?r = "e_req_id e"
  define m' where "m' = queue_reply (drop_pending ?r ?m) f e"
  have l: "lib_ok (m_env m') = lib_ok (m_env ?m)"
    by (simp add: m'_def queue_reply_def Let_def lib_call_def drop_pending_def split: option.split)
  have "quiet ?m m'"
  proof (cases "lib_ok (m_env ?m) (lib_calls (m_env ?m))")
    case True
    have "\<exists>rr. rr_req_id rr = ?r \<and> m_private m' = m_private (put_fiber (rq_put f rr) (drop_pending ?r ?m))"
      using True
      by (auto simp: m'_def queue_reply_def Let_def lib_call_def drop_pending_def
          split: option.split intro!: exI)
    then show ?thesis using q_queue [OF look f wb] by blast
  next
    case False
    then have "\<not> all_ok (m_env ?m)" by (auto simp: all_ok_def)
    moreover have "m_private m' = m_private (drop_pending ?r ?m)"
      using False by (simp add: m'_def queue_reply_def Let_def lib_call_def drop_pending_def)
    ultimately show ?thesis by (rule q_lost [OF look f wb])
  qed
  from quiet_Q [OF assms(1) this l] l assms(3) show ?thesis
    by (simp add: step_frame_set_mod m'_def)
qed

lemma handle_reply_spec:
  assumes "Q (get_mod c i)" and "nr_ok c" and "valid_mod c i"
  shows "run_spec Q W T i c (handle_reply c i e)"
proof (cases "pending_find (m_pending (get_mod c i)) (e_req_id e)")
  case None
  then show ?thesis using assms by (simp add: handle_reply_def pending_peek_def)
next
  case look: (Some p)
  have take: "snd (pending_take (get_mod c i) (e_req_id e)) = drop_pending (e_req_id e) (get_mod c i)"
    by (simp add: pending_take_def drop_pending_def)
  have gf: "get_fiber (drop_pending (e_req_id e) (get_mod c i)) p = get_fiber (get_mod c i) p"
    by (simp add: drop_pending_def)
  show ?thesis
  proof (cases "get_fiber (get_mod c i) p")
    case None
    from pending_live [OF assms(1) look None] show ?thesis
      using look None by (simp add: handle_reply_def pending_peek_def Let_def take gf)
  next
    case (Some f)
    with look deliver_reply_spec [OF assms look Some] queue_reply_spec [OF assms look Some]
    show ?thesis
      by (auto simp: handle_reply_def pending_peek_def Let_def take gf woken_by_def)
  qed
qed

lemma timer_one_spec:
  assumes "Q (get_mod c i)" and "nr_ok c" and "valid_mod c i"
    and alive: "get_fiber (get_mod c i) p \<noteq> None"
  shows "run_spec Q W T i c (timer_one i now p c)"
proof -
  let ?m = "get_mod c i"
  obtain f where f: "get_fiber ?m p = Some f" using alive by blast
  have p: "f_self f = p" using get_fiber_self [OF f] .
  let ?r = "f_wait_req_id f"
  define d where "d = set_src f None 0 COSEQ_RSLT_REQ_TIMEOUT 0 (f_seq_idx f) 0 ?r (m_env ?m)"
  define m1 where "m1 = (put_fiber (fst d) (drop_pending ?r ?m))\<lparr>m_env := snd d\<rparr>"
  have so: "src_only f (fst d)" unfolding d_def by (rule set_src_only)
  have self: "f_self (fst d) = p" and ctx: "f_ctx (fst d) = f_ctx f"
    using src_only_fields [OF so] p by simp_all
  have plain: "run_spec Q W T i c (resume c i p)" if "f_waiting_timer f" "\<not> f_waiting_reply f"
  proof (rule resume_spec [OF assms(1-3) step_frame_refl f])
    show "wakes ?m p m' prog" if "entry_prog f = Some prog"
      "m_private m' = m_private ((put_fiber (switched f) ?m)\<lparr>m_current := Some p\<rparr>)" for prog m'
      by (rule w_timer [OF f]) (fact | use \<open>f_waiting_timer f\<close> \<open>\<not> f_waiting_reply f\<close> in blast)+
    show "f_ctx f \<noteq> Finished" using waiting_entry [OF assms(1) f] \<open>f_waiting_timer f\<close> by blast
  qed
  have timeout: "run_spec Q W T i c (resume (set_mod i m1 c) i p)"
    if wt: "f_waiting_timer f" and wr: "f_waiting_reply f"
  proof (rule resume_spec [OF assms(1-3)])
    show "step_frame i c (set_mod i m1 c)"
      using assms(3) by (simp add: step_frame_set_mod m1_def d_def)
    show "get_fiber (get_mod (set_mod i m1 c) i) p = Some (fst d)"
      using assms(3) f by (simp add: m1_def get_put_fiber self drop_pending_def)
  next
    fix prog m'
    assume prog: "entry_prog (fst d) = Some prog"
      and m': "m_private m' = m_private
        ((put_fiber (switched (fst d)) (get_mod (set_mod i m1 c) i))\<lparr>m_current := Some p\<rparr>)"
    have "m_private m' = m_private
        ((put_fiber (switched (fst d)) (drop_pending ?r ?m))\<lparr>m_current := Some p\<rparr>)"
      unfolding m' using assms(3) by (simp add: m1_def put_fiber_def m_private_def)
    with w_req_timeout [OF f wt wr so prog] show "wakes ?m p m' prog" .
  next
    show "f_ctx (fst d) \<noteq> Finished"
      using waiting_entry [OF assms(1) f] ctx wt by auto
  qed
  have eq: "timer_one i now p c =
      (if f_waiting_timer f \<and> \<not> ts_lt now (f_deadline f) \<and>
          \<not> (m_locked_by ?m \<noteq> None \<and> m_locked_by ?m \<noteq> Some p)
       then if f_waiting_reply f then resume (set_mod i m1 c) i p else resume c i p
       else ok c)"
    by (simp add: timer_one_def Let_def f split_def pending_take_def m1_def d_def drop_pending_def)
  show ?thesis
    using plain timeout assms(1) by (simp add: eq)
qed

text \<open>A new fiber, named and switched in.\<close>

lemma start_fiber_spec:
  assumes "Q (get_mod c i)" and "nr_ok c" and "valid_mod c i"
    and new: "new_fiber (get_mod c i) fn s q r msg sz res t cl = (rp, m1)"
    and fn: "fn \<in> sq_fn ` set (m_seqs (get_mod c i)) \<or> m_recv_notify (get_mod c i) = Some fn"
  shows "run_spec Q W T i c
    (case rp of
       None \<Rightarrow> ok (set_mod i m1 c)
     | Some p \<Rightarrow> (case get_fiber m1 p of
           None \<Rightarrow> undef (Use_after_free p c)
         | Some f \<Rightarrow> resume (set_mod i (put_fiber (f\<lparr>f_seq_name := nm\<rparr>) m1) c) i p))"
proof (cases rp)
  case None
  obtain en where en: "m1 = (get_mod c i)\<lparr>m_env := en\<rparr>" "lib_ok en = lib_ok (m_env (get_mod c i))"
    using new_fiber_None [OF new [unfolded None]] by blast
  have "Q m1" by (rule quiet_Q [OF assms(1) q_same]) (simp_all add: en)
  then show ?thesis using assms(3) en by (simp add: None step_frame_set_mod)
next
  case (Some p)
  let ?m = "get_mod c i"
  obtain f en where m1: "m1 = ?m\<lparr>m_env := en, m_next_fptr := m_next_fptr ?m + 1, m_fibers := f # m_fibers ?m\<rparr>"
    and p: "p = m_next_fptr ?m" and self: "f_self f = p" and fresh: "fresh_fiber f"
    and ffn: "f_fn f = fn" and en: "lib_ok en = lib_ok (m_env ?m)"
    by (rule new_fiber_Some [OF new [unfolded Some]]) blast
  define g where "g = f\<lparr>f_seq_name := nm\<rparr>"
  have gself: "f_self g = p" and gfresh: "fresh_fiber g" and gfn: "f_fn g = fn"
    and gctx: "f_ctx g = At_entry" and sw: "switched g = g"
    using self fresh ffn by (simp_all add: g_def fresh_fiber_def switched_def)
  have f1: "get_fiber m1 p = Some f" by (simp add: m1 get_fiber_def self)
  have "run_spec Q W T i c (resume (set_mod i (put_fiber g m1) c) i p)"
  proof (rule resume_spec [OF assms(1-3)])
    show "step_frame i c (set_mod i (put_fiber g m1) c)"
      using assms(3) by (simp add: step_frame_set_mod m1 en)
    show "get_fiber (get_mod (set_mod i (put_fiber g m1) c) i) p = Some g"
      using assms(3) by (simp add: get_put_fiber gself f1)
  next
    fix prog m'
    assume prog: "entry_prog g = Some prog"
      and m': "m_private m' = m_private
        ((put_fiber (switched g) (get_mod (set_mod i (put_fiber g m1) c) i))\<lparr>m_current := Some p\<rparr>)"
    have prog: "prog = fn" using prog by (simp add: entry_prog_def gctx gfn)
    have "map (\<lambda>h. if f_self h = p then g else h) (m_fibers ?m) = m_fibers ?m"
    proof (rule map_idI)
      fix h
      assume "h \<in> set (m_fibers ?m)"
      then have "f_self h \<noteq> p" using fresh_addr [OF assms(1)] p by (metis imageI)
      then show "(if f_self h = p then g else h) = h" by simp
    qed
    then have "m_fibers (put_fiber g m1) = g # m_fibers ?m"
      by (simp add: put_fiber_def m1 gself self)
    then have pm1: "put_fiber g m1 = m1\<lparr>m_fibers := g # m_fibers ?m\<rparr>"
      by (simp add: put_fiber_def)
    have "m_private m' = m_private (?m\<lparr>m_next_fptr := m_next_fptr ?m + 1,
        m_fibers := g # m_fibers ?m, m_current := Some (f_self g)\<rparr>)"
      unfolding m' sw get_set_mod(1) [OF assms(3)] put_put_fiber [OF refl [of "f_self g"]]
      unfolding pm1
      by (simp add: m1 gself m_private_def)
    from w_start [OF gfresh _ gfn fn this] show "wakes ?m p m' prog"
      by (simp add: gself prog p)
  next
    show "f_ctx g \<noteq> Finished" by (simp add: gctx)
  qed
  then show ?thesis by (simp add: Some f1 g_def)
qed

lemma start_sequence_spec:
  assumes "Q (get_mod c i)" and "nr_ok c" and "valid_mod c i"
  shows "run_spec Q W T i c (start_sequence c i e)"
proof -
  let ?m = "get_mod c i" and ?s = "unat (e_seq_idx e)"
  obtain rp m1 where new: "new_fiber ?m (sq_fn (m_seqs ?m ! ?s)) (e_seq_idx e) (e_requester e)
      (e_req_id e) (e_msg e) (e_msg_size e) COSEQ_RSLT_IGNORE (word_of_int (e_requester e)) 0 = (rp, m1)"
    by fastforce
  have "?s < length (m_seqs ?m)" if "e_seq_idx e < m_nr_seq ?m"
    using that in_table [OF assms(1)] by (simp add: word_less_nat_alt)
  then consider "m_nr_seq ?m \<le> e_seq_idx e"
    | "e_seq_idx e < m_nr_seq ?m" "?s < length (m_seqs ?m)"
    by (meson not_less)
  then show ?thesis
  proof cases
    case 1
    have "Q (?m\<lparr>m_env := LOGE (Start_invalid_seq (m_idx ?m) (m_name ?m) (e_seq_idx e) (m_nr_seq ?m)) (m_env ?m)\<rparr>)"
      by (rule quiet_Q [OF assms(1) q_same]) simp_all
    with 1 assms(3) show ?thesis
      by (simp add: start_sequence_def Let_def step_frame_set_mod)
  next
    case 2
    then have "sq_fn (m_seqs ?m ! ?s) \<in> sq_fn ` set (m_seqs ?m)" by simp
    from start_fiber_spec [OF assms new] this
    have "run_spec Q W T i c
      (case rp of None \<Rightarrow> ok (set_mod i m1 c)
       | Some p \<Rightarrow> (case get_fiber m1 p of None \<Rightarrow> undef (Use_after_free p c)
         | Some f \<Rightarrow> resume (set_mod i (put_fiber
             (f\<lparr>f_seq_name := Some (sq_name (m_seqs ?m ! ?s))\<rparr>) m1) c) i p))"
      by blast
    moreover have "\<not> m_nr_seq ?m \<le> e_seq_idx e" using 2(1) by simp
    ultimately show ?thesis using 2(2)
      by (simp add: start_sequence_def Let_def new)
  qed
qed

lemma run_notify_spec:
  assumes "Q (get_mod c i)" and "nr_ok c" and "valid_mod c i"
  shows "run_spec Q W T i c (run_notify c i e)"
proof (cases "m_recv_notify (get_mod c i)")
  case None
  then show ?thesis using assms by (simp add: run_notify_def)
next
  case (Some fn)
  obtain rp m1 where new: "new_fiber (get_mod c i) fn 0 EXTERNAL 0 (e_msg e) (e_msg_size e)
      COSEQ_RSLT_SUCCESS (word_of_int (e_requester e)) (e_client_id e) = (rp, m1)"
    by fastforce
  from start_fiber_spec [OF assms new, where nm = "Some ''recv_notify''"] Some
  show ?thesis by (simp add: run_notify_def Let_def new)
qed

lemma event_one_spec:
  assumes "Q (get_mod c i)" and "nr_ok c" and "valid_mod c i"
  shows "run_spec Q W T i c (event_one i e c)"
proof -
  have "Q (defer_ev (get_mod c i) e)"
    by (rule quiet_Q [OF assms(1) q_defer]) (simp_all add: defer_ev_def)
  then have "run_spec Q W T i c (ok (set_mod i (defer_ev (get_mod c i) e) c))"
    using assms(3) by (simp add: step_frame_set_mod defer_ev_def)
  with handle_reply_spec [OF assms] start_sequence_spec [OF assms] run_notify_spec [OF assms]
  show ?thesis by (simp add: event_one_def Let_def)
qed

text \<open>Loops whose body satisfies its specification.\<close>

lemma ofold_spec:
  assumes "Q (get_mod c i) \<and> S (get_mod c i)" and "nr_ok c" and "valid_mod c i"
    and body: "\<And>x c. x \<in> set xs \<Longrightarrow> Q (get_mod c i) \<and> S (get_mod c i) \<Longrightarrow> nr_ok c \<Longrightarrow> valid_mod c i \<Longrightarrow>
      run_spec (\<lambda>m. Q m \<and> S m) W T i c (g x c)"
  shows "run_spec (\<lambda>m. Q m \<and> S m) W T i c (ofold g xs c)"
  using assms
proof (induction xs arbitrary: c)
  case Nil
  then show ?case by simp
next
  case (Cons x xs)
  have one: "run_spec (\<lambda>m. Q m \<and> S m) W T i c (g x c)"
    by (rule Cons.prems(4)) (use Cons.prems in auto)
  show ?case
  proof (cases "g x c" rule: outcome_exhaust)
    case (ok c1)
    with one have st: "step_frame i c c1" and q: "Q (get_mod c1 i) \<and> S (get_mod c1 i)" by simp_all
    have "run_spec (\<lambda>m. Q m \<and> S m) W T i c1 (ofold g xs c1)"
      by (rule Cons.IH [OF q])
        (use Cons.prems st in \<open>auto dest: step_frame_nr_ok step_frame_length\<close>)
    with st show ?thesis by (simp add: ok run_spec_frame)
  qed (use one in auto)
qed

end

section \<open>Addresses\<close>

text \<open>Every fiber has its own address, and the allocator's next one is not among them.\<close>

definition addr_ok :: "module_t \<Rightarrow> bool" where
  "addr_ok m \<longleftrightarrow> distinct (map f_self (m_fibers m)) \<and>
     (\<forall>p \<in> f_self ` set (m_fibers m). p < m_next_fptr m)"

lemma addr_ok_fresh: "addr_ok m \<Longrightarrow> m_next_fptr m \<notin> f_self ` set (m_fibers m)"
  unfolding addr_ok_def by blast

lemma addr_ok_put [simp]: "addr_ok (put_fiber f m) = addr_ok m"
  by (simp add: addr_ok_def put_fiber_selves)

lemma addr_ok_upd [simp]:
  "addr_ok (m\<lparr>m_env := en\<rparr>) = addr_ok m"
  "addr_ok (m\<lparr>m_pending := ps\<rparr>) = addr_ok m"
  "addr_ok (m\<lparr>m_notify_clients := ncs\<rparr>) = addr_ok m"
  "addr_ok (m\<lparr>m_next_req_id := n\<rparr>) = addr_ok m"
  "addr_ok (m\<lparr>m_current := q\<rparr>) = addr_ok m"
  "addr_ok (m\<lparr>m_locked_by := q\<rparr>) = addr_ok m"
  "addr_ok (m\<lparr>m_deferred := evs\<rparr>) = addr_ok m"
  "addr_ok (m\<lparr>m_inbox := evs\<rparr>) = addr_ok m"
  "addr_ok (pending_add m r p) = addr_ok m"
  "addr_ok (drop_pending r m) = addr_ok m"
  "addr_ok (coseq_lock m f) = addr_ok m"
  "addr_ok (coseq_unlock m f) = addr_ok m"
  by (simp_all add: addr_ok_def drop_pending_def coseq_lock_def coseq_unlock_def)

lemma addr_ok_private: "m_private m' = m_private m \<Longrightarrow> addr_ok m' = addr_ok m"
  using m_private_fields(6,13) [of m' m] by (simp add: addr_ok_def)

text \<open>The addresses of the live fibers. No step but reaping removes one.\<close>

definition selves :: "module_t \<Rightarrow> fptr set" where
  "selves m = f_self ` set (m_fibers m)"

lemma selves_upd [simp]:
  "selves (put_fiber f m) = selves m"
  "selves (m\<lparr>m_env := en\<rparr>) = selves m"
  "selves (m\<lparr>m_notify_clients := ncs\<rparr>) = selves m"
  "selves (m\<lparr>m_next_req_id := n\<rparr>) = selves m"
  "selves (m\<lparr>m_current := q\<rparr>) = selves m"
  "selves (m\<lparr>m_deferred := evs\<rparr>) = selves m"
  "selves (m\<lparr>m_inbox := evs\<rparr>) = selves m"
  "selves (pending_add m r p) = selves m"
  "selves (drop_pending r m) = selves m"
  "selves (coseq_lock m f) = selves m"
  "selves (coseq_unlock m f) = selves m"
  by (simp_all add: selves_def put_fiber_selves drop_pending_def coseq_lock_def coseq_unlock_def)

lemma selves_private: "m_private m' = m_private m \<Longrightarrow> selves m' = selves m"
  using m_private_fields(6) [of m' m] by (simp add: selves_def)

lemma in_selves: "p \<in> selves m \<longleftrightarrow> get_fiber m p \<noteq> None"
  unfolding selves_def using get_fiber_None [of m p] by auto

definition keeps_addr :: "module_t \<Rightarrow> module_t \<Rightarrow> bool" where
  "keeps_addr m m' \<longleftrightarrow> (addr_ok m \<longrightarrow> addr_ok m') \<and> selves m \<subseteq> selves m'"

lemma keeps_addr_private:
  "m_private m' = m_private x \<Longrightarrow> addr_ok x = addr_ok m \<Longrightarrow> selves x = selves m \<Longrightarrow> keeps_addr m m'"
  using addr_ok_private [of m' x] selves_private [of m' x] by (simp add: keeps_addr_def)

lemma quiet_keeps_addr: "quiet m m' \<Longrightarrow> keeps_addr m m'"
  by (erule quietE; erule keeps_addr_private; simp)

lemma plain_keeps_addr: "plain_change m f m' \<Longrightarrow> keeps_addr m m'"
  by (erule plain_changeE; erule keeps_addr_private; simp)

lemma continues_keeps_addr: "continues m f prog m' prog' \<Longrightarrow> keeps_addr m m'"
  by (erule continuesE) (erule plain_keeps_addr, (erule keeps_addr_private; simp)+)

lemma yields_keeps_addr: "yields m f prog m' \<Longrightarrow> keeps_addr m m'"
  by (erule yieldsE; erule keeps_addr_private; simp)

lemma wakes_keeps_addr:
  assumes "wakes m p m' prog"
  shows "keeps_addr m m'"
  using assms
proof (cases rule: wakes.cases)
  case (w_start f)
  note fl = m_private_fields(6,13) [OF w_start(6)]
  have "addr_ok m'" if "addr_ok m"
    using that w_start(3) addr_ok_fresh [OF that] fl by (auto simp: addr_ok_def)
  then show ?thesis using fl by (auto simp: keeps_addr_def selves_def)
qed (erule keeps_addr_private; simp)+

end
