(* ===== verification/CoseqLife.thy ===== *)
theory CoseqLife
  imports CoseqInv
begin

text \<open>
  The life cycle of a fiber. Between two runs a fiber is in exactly one of four states, and
  its saved context fits the state; the module lock is held by a live fiber or by nobody.
  Every turn of the loop keeps this, whatever the sequences do and whatever fails.
\<close>

section \<open>States of a fiber\<close>

definition no_wait :: "fiber_t \<Rightarrow> bool" where
  "no_wait f \<longleftrightarrow> \<not> f_waiting_reply f \<and> \<not> f_waiting_timer f \<and> \<not> f_waiting_any f"

definition parked_request :: "fiber_t \<Rightarrow> bool" where
  "parked_request f \<longleftrightarrow> f_waiting_reply f \<and> \<not> f_waiting_any f \<and> is_After_request (f_ctx f)"

definition parked_any :: "fiber_t \<Rightarrow> bool" where
  "parked_any f \<longleftrightarrow> f_waiting_any f \<and> \<not> f_waiting_reply f \<and> \<not> f_waiting_timer f \<and>
     is_After_wait_reply (f_ctx f)"

definition parked_timer :: "fiber_t \<Rightarrow> bool" where
  "parked_timer f \<longleftrightarrow> f_waiting_timer f \<and> \<not> f_waiting_reply f \<and> \<not> f_waiting_any f \<and>
     is_After_wait_timeout (f_ctx f)"

definition fiber_wf :: "fiber_t \<Rightarrow> bool" where
  "fiber_wf f \<longleftrightarrow>
     (if f_done f then no_wait f \<and> f_ctx f = Finished
      else parked_request f \<or> parked_any f \<or> parked_timer f)"

lemmas parked_defs = parked_request_def parked_any_def parked_timer_def no_wait_def

lemma parked_exclusive:
  "\<not> (parked_request f \<and> parked_any f)" "\<not> (parked_request f \<and> parked_timer f)"
  "\<not> (parked_any f \<and> parked_timer f)"
  by (auto simp: parked_defs)

lemma fiber_wf_rq [simp]: "fiber_wf (rq_put f rr) = fiber_wf f"
  by (simp add: fiber_wf_def parked_defs rq_put_def)

lemma fiber_wf_finished:
  "fiber_wf f \<Longrightarrow> f_ctx f = Finished \<Longrightarrow> f_done f"
  by (auto simp: fiber_wf_def parked_defs split: if_splits)

lemma fiber_wf_waiting:
  assumes "fiber_wf f" and "f_waiting_timer f \<or> f_waiting_reply f \<or> f_waiting_any f"
  shows "\<not> f_done f" and "f_ctx f \<noteq> Finished"
  using assms by (auto simp: fiber_wf_def parked_defs split: if_splits)

section \<open>The invariant\<close>

definition lock_ok :: "module_t \<Rightarrow> bool" where
  "lock_ok m \<longleftrightarrow> set_option (m_locked_by m) \<subseteq> selves m"

definition table_ok :: "module_t \<Rightarrow> bool" where
  "table_ok m \<longleftrightarrow> unat (m_nr_seq m) \<le> length (m_seqs m)"

text \<open>No fiber runs.\<close>

definition life_idle :: "module_t \<Rightarrow> bool" where
  "life_idle m \<longleftrightarrow> addr_ok m \<and> lock_ok m \<and> table_ok m \<and> m_current m = None \<and>
     (\<forall>f \<in> set (m_fibers m). fiber_wf f)"

text \<open>The fiber \<open>p\<close> runs.\<close>

definition life_running :: "module_t \<Rightarrow> fptr \<Rightarrow> bool" where
  "life_running m p \<longleftrightarrow> addr_ok m \<and> lock_ok m \<and> table_ok m \<and> m_current m = Some p \<and> p \<in> selves m \<and>
     (\<forall>f \<in> set (m_fibers m). if f_self f = p then no_wait f \<and> \<not> f_done f else fiber_wf f)"

lemma table_ok_simps [simp]:
  "table_ok (put_fiber f m) = table_ok m"
  "table_ok (m\<lparr>m_current := q\<rparr>) = table_ok m"
  "table_ok (m\<lparr>m_next_req_id := n\<rparr>) = table_ok m"
  "table_ok (m\<lparr>m_notify_clients := ncs\<rparr>) = table_ok m"
  "table_ok (m\<lparr>m_deferred := evs\<rparr>) = table_ok m"
  "table_ok (pending_add m r p) = table_ok m"
  "table_ok (drop_pending r m) = table_ok m"
  "table_ok (coseq_lock m f) = table_ok m"
  "table_ok (coseq_unlock m f) = table_ok m"
  "table_ok (reap_done m) = table_ok m"
  by (simp_all add: table_ok_def drop_pending_def coseq_lock_def coseq_unlock_def reap_done_def)

lemma lock_ok_simps [simp]:
  "lock_ok (put_fiber f m) = lock_ok m"
  "lock_ok (m\<lparr>m_current := q\<rparr>) = lock_ok m"
  "lock_ok (m\<lparr>m_next_req_id := n\<rparr>) = lock_ok m"
  "lock_ok (m\<lparr>m_notify_clients := ncs\<rparr>) = lock_ok m"
  "lock_ok (m\<lparr>m_deferred := evs\<rparr>) = lock_ok m"
  "lock_ok (pending_add m r p) = lock_ok m"
  "lock_ok (drop_pending r m) = lock_ok m"
  by (simp_all add: lock_ok_def)

text \<open>Both forms only read the private data.\<close>

lemma life_private:
  assumes "m_private m' = m_private x"
  shows "life_idle m' = life_idle x" "life_running m' p = life_running x p"
    "addr_ok m' = addr_ok x" "lock_ok m' = lock_ok x" "table_ok m' = table_ok x"
    "m_fibers m' = m_fibers x" "m_current m' = m_current x" "selves m' = selves x"
  using m_private_fields [OF assms] addr_ok_private [OF assms] selves_private [OF assms]
  by (simp_all add: life_idle_def life_running_def lock_ok_def table_ok_def)

lemma put_fiber_ball:
  assumes "f_self f \<in> selves m"
  shows "(\<forall>g \<in> set (m_fibers (put_fiber f m)). P g) \<longleftrightarrow>
    P f \<and> (\<forall>g \<in> set (m_fibers m). f_self g \<noteq> f_self f \<longrightarrow> P g)"
  using assms by (auto simp: put_fiber_def selves_def)

lemma get_fiber_selves: "get_fiber m p = Some f \<Longrightarrow> p \<in> selves m"
  by (simp add: in_selves)

lemma life_quiet:
  assumes "life_idle m" and "quiet m m'"
  shows "life_idle m'"
  using assms(2)
proof (cases rule: quiet.cases)
  case q_same
  with assms(1) life_private(1) show ?thesis by blast
next
  case (q_defer evs)
  from assms(1) show ?thesis
    unfolding life_private(1) [OF q_defer] by (simp add: life_idle_def)
next
  case (q_lost r p f)
  from assms(1) show ?thesis
    unfolding life_private(1) [OF q_lost(5)] by (simp add: life_idle_def)
next
  case (q_queue r p f rr)
  have f: "f \<in> set (m_fibers m)" "f_self (rq_put f rr) \<in> selves (drop_pending r m)"
    using get_fiber_Some [OF q_queue(2)] by (auto simp: rq_put_def selves_def drop_pending_def)
  from assms(1) f show ?thesis
    unfolding life_private(1) [OF q_queue(5)] by (simp add: life_idle_def put_fiber_ball [OF f(2)])
qed

lemma switched_no_wait [simp]: "no_wait (switched f)" "f_done (switched f) = f_done f"
  by (simp_all add: no_wait_def switched_def)

text \<open>A parked fiber that is switched in runs.\<close>

lemma life_switch:
  assumes "life_idle m" and "get_fiber m p = Some f" and "\<not> f_done f" and "f_self f1 = p"
    and "f_done f1 = f_done f"
    and "m_private m' = m_private ((put_fiber (switched f1) x)\<lparr>m_current := Some p\<rparr>)"
    and "x = m \<or> x = drop_pending r m"
  shows "life_running m' p"
proof -
  have x: "addr_ok x" "lock_ok x" "table_ok x" "p \<in> selves x" "f_self (switched f1) \<in> selves x"
    "\<forall>g \<in> set (m_fibers x). fiber_wf g"
    using assms(1,4,7) get_fiber_selves [OF assms(2)] by (auto simp: life_idle_def)
  show ?thesis
    unfolding life_private(2) [OF assms(6)]
    using x assms(3-5) by (simp add: life_running_def put_fiber_ball [OF x(5)])
qed

lemma life_wakes:
  assumes "life_idle m" and "wakes m p m' prog"
  shows "life_running m' p"
  using assms(2)
proof (cases rule: wakes.cases)
  case (w_reply r f f1)
  have wf: "fiber_wf f"
    using assms(1) get_fiber_Some [OF w_reply(2)] by (simp add: life_idle_def)
  have self: "f_self f1 = p" "f_done f1 = f_done f"
    using src_only_fields [OF w_reply(4)] get_fiber_self [OF w_reply(2)] by simp_all
  have "\<not> f_done f" using fiber_wf_waiting(1) [OF wf] w_reply(3) by (auto simp: woken_by_def)
  then show ?thesis using life_switch [OF assms(1) w_reply(2) _ self w_reply(6)] by blast
next
  case (w_timer f)
  have wf: "fiber_wf f"
    using assms(1) get_fiber_Some [OF w_timer(1)] by (simp add: life_idle_def)
  have "\<not> f_done f" using fiber_wf_waiting(1) [OF wf] w_timer(2) by auto
  then show ?thesis
    using life_switch [OF assms(1) w_timer(1) _ get_fiber_self [OF w_timer(1)] refl w_timer(5)] by blast
next
  case (w_req_timeout f f1)
  have wf: "fiber_wf f"
    using assms(1) get_fiber_Some [OF w_req_timeout(1)] by (simp add: life_idle_def)
  have self: "f_self f1 = p" "f_done f1 = f_done f"
    using src_only_fields [OF w_req_timeout(4)] get_fiber_self [OF w_req_timeout(1)] by simp_all
  have "\<not> f_done f" using fiber_wf_waiting(1) [OF wf] w_req_timeout(2) by auto
  then show ?thesis
    using life_switch [OF assms(1) w_req_timeout(1) _ self w_req_timeout(6)] by blast
next
  case (w_start f)
  let ?x = "m\<lparr>m_next_fptr := m_next_fptr m + 1, m_fibers := f # m_fibers m,
    m_current := Some (f_self f)\<rparr>"
  have "addr_ok m'" using assms wakes_keeps_addr by (auto simp: life_idle_def keeps_addr_def)
  then have "addr_ok ?x" by (simp add: life_private(3) [OF w_start(6)])
  moreover have "lock_ok ?x" "table_ok ?x" "p \<in> selves ?x"
    using assms(1) w_start(1) by (auto simp: life_idle_def lock_ok_def table_ok_def selves_def)
  moreover have "f_self g \<noteq> p" if "g \<in> set (m_fibers m)" for g
    using that assms(1) w_start(1,3) addr_ok_fresh by (metis imageI life_idle_def)
  ultimately show ?thesis
    unfolding life_private(2) [OF w_start(6)]
    using assms(1) w_start(1,2) by (auto simp: life_running_def life_idle_def fresh_fiber_def no_wait_def)
qed

text \<open>While the fiber runs, its own record may change as long as it does not wait.\<close>

lemma life_running_put:
  assumes "life_running m p" and "f_self f = p" and "no_wait f" and "\<not> f_done f"
  shows "life_running (put_fiber f m) p"
proof -
  have "f_self f \<in> selves m" using assms(1,2) by (simp add: life_running_def)
  with assms show ?thesis by (simp add: life_running_def put_fiber_ball)
qed

lemma life_running_same:
  assumes "life_running m p"
  shows "life_running (pending_add m r q) p" "life_running (m\<lparr>m_next_req_id := n\<rparr>) p"
    "life_running (m\<lparr>m_notify_clients := ncs\<rparr>) p"
  using assms by (simp_all add: life_running_def)

lemma life_running_fiber:
  assumes "life_running m p" and "get_fiber m p = Some f"
  shows "f_self f = p" "no_wait f" "\<not> f_done f"
  using assms get_fiber_Some [OF assms(2)] by (auto simp: life_running_def)

lemma life_continues:
  assumes "life_running m p" and f: "get_fiber m p = Some f" and "continues m f prog m' prog'"
  shows "life_running m' p"
  using assms(3)
proof (cases rule: continues.cases)
  case c_plain
  note run = life_running_fiber [OF assms(1) f]
  from c_plain(2) show ?thesis
  proof (cases rule: plain_change.cases)
    case pc_same
    with assms(1) life_private(2) show ?thesis by blast
  next
    case pc_id
    with assms(1) life_running_same(2) life_private(2) show ?thesis by blast
  next
    case (pc_clients ncs)
    with assms(1) life_running_same(3) life_private(2) show ?thesis by blast
  next
    case pc_lock
    have "lock_ok (coseq_lock m f)"
      using assms(1) run(1) by (simp add: coseq_lock_def lock_ok_def selves_def life_running_def)
    then show ?thesis
      unfolding life_private(2) [OF pc_lock] using assms(1) by (simp add: life_running_def)
  next
    case pc_unlock
    have "lock_ok (coseq_unlock m f)"
      using assms(1) by (simp add: coseq_unlock_def lock_ok_def selves_def life_running_def)
    then show ?thesis
      unfolding life_private(2) [OF pc_unlock] using assms(1) by (simp add: life_running_def)
  qed
next
  case (c_async rid mi si msg n k)
  note run = life_running_fiber [OF assms(1) f]
  show ?thesis
    unfolding life_private(2) [OF c_async(4)]
    by (rule life_running_put) (use run assms(1) in \<open>simp_all add: life_running_same no_wait_def\<close>)
next
  case (c_wait_none kw)
  with assms(1) life_private(2) show ?thesis by blast
next
  case (c_wait_some rr rest f1 kw)
  note run = life_running_fiber [OF assms(1) f]
  show ?thesis
    unfolding life_private(2) [OF c_wait_some(5)]
    by (rule life_running_put [OF assms(1)])
      (use run src_only_fields [OF c_wait_some(4)] in \<open>simp_all add: no_wait_def\<close>)
qed

text \<open>A running fiber that parks or finishes leaves the module idle.\<close>

lemma life_park:
  assumes "life_running m p" and "f_self f = p" and "fiber_wf f"
    and "m_private m' = m_private (put_fiber f m)"
  shows "life_idle (m'\<lparr>m_current := None\<rparr>)"
proof -
  have self: "f_self f \<in> selves m" using assms(1,2) by (simp add: life_running_def)
  have m': "m_private (m'\<lparr>m_current := None\<rparr>) = m_private ((put_fiber f m)\<lparr>m_current := None\<rparr>)"
  proof -
    have "m_private (x\<lparr>m_current := None\<rparr>) = (m_private x)\<lparr>m_current := None\<rparr>" for x
      by (simp add: m_private_def)
    then show ?thesis by (simp add: assms(4))
  qed
  show ?thesis
    unfolding life_private(1) [OF m']
    using assms(1-3) by (auto simp: life_idle_def life_running_def put_fiber_ball [OF self])
qed

lemma life_yields:
  assumes "life_running m p" and f: "get_fiber m p = Some f" and "yields m f prog m'"
  shows "life_idle (m'\<lparr>m_current := None\<rparr>)"
  using assms(3)
proof (cases rule: yields.cases)
  case y_return
  note run = life_running_fiber [OF assms(1) f]
  show ?thesis
    by (rule life_park [OF assms(1) _ _ y_return(2)]) (use run in \<open>simp_all add: fiber_wf_def no_wait_def\<close>)
next
  case (y_request rid k mi si msg n)
  note run = life_running_fiber [OF assms(1) f]
  show ?thesis
    by (rule life_park [OF _ _ _ y_request(3)])
      (use run assms(1) in \<open>simp_all add: fiber_wf_def parked_defs life_running_same\<close>)
next
  case (y_request_timeout rid k d mi si msg n ms)
  note run = life_running_fiber [OF assms(1) f]
  show ?thesis
    by (rule life_park [OF _ _ _ y_request_timeout(3)])
      (use run assms(1) in \<open>simp_all add: fiber_wf_def parked_defs life_running_same\<close>)
next
  case (y_wait_reply kw)
  note run = life_running_fiber [OF assms(1) f]
  show ?thesis
    by (rule life_park [OF assms(1) _ _ y_wait_reply(4)])
      (use run in \<open>simp_all add: fiber_wf_def parked_defs\<close>)
next
  case (y_wait_timeout d p' ms)
  note run = life_running_fiber [OF assms(1) f]
  show ?thesis
    by (rule life_park [OF assms(1) _ _ y_wait_timeout(2)])
      (use run in \<open>simp_all add: fiber_wf_def parked_defs\<close>)
qed

text \<open>
  The life cycle together with a set of fibers that stay alive: what the loop over the timers
  needs, which goes through addresses it has read before it runs any of the fibers.
\<close>

interpretation kept: module_steps "\<lambda>m. life_idle m \<and> S \<subseteq> selves m"
  "\<lambda>m p prog. life_running m p \<and> S \<subseteq> selves m" "\<lambda>m. True" False for S
proof unfold_locales
  fix m m'
  assume "life_idle m \<and> S \<subseteq> selves m" "quiet m m'"
  then show "life_idle m' \<and> S \<subseteq> selves m'"
    using life_quiet quiet_keeps_addr unfolding keeps_addr_def by blast
next
  fix m p m' prog
  assume "life_idle m \<and> S \<subseteq> selves m" "wakes m p m' prog"
  then show "life_running m' p \<and> S \<subseteq> selves m'"
    using life_wakes wakes_keeps_addr unfolding keeps_addr_def by blast
next
  fix m p f prog m' prog'
  assume "life_running m p \<and> S \<subseteq> selves m" "get_fiber m p = Some f" "continues m f prog m' prog'"
  then show "life_running m' p \<and> S \<subseteq> selves m'"
    using life_continues continues_keeps_addr unfolding keeps_addr_def by blast
next
  fix m p f prog m'
  assume "life_running m p \<and> S \<subseteq> selves m" "get_fiber m p = Some f" "yields m f prog m'"
  then show "life_idle (m'\<lparr>m_current := None\<rparr>) \<and> S \<subseteq> selves (m'\<lparr>m_current := None\<rparr>)"
    using life_yields yields_keeps_addr unfolding keeps_addr_def by simp blast
next
  show "get_fiber m p \<noteq> None" if "life_running m p \<and> S \<subseteq> selves m" for m p
    using that in_selves by (simp add: life_running_def)
next
  fix m p f
  assume "life_idle m \<and> S \<subseteq> selves m" "get_fiber m p = Some f"
    "f_waiting_timer f \<or> f_waiting_reply f \<or> f_waiting_any f"
  then show "f_ctx f \<noteq> Finished"
    using get_fiber_Some [of m p f] fiber_wf_waiting(2) [of f] by (simp add: life_idle_def)
next
  show "unat (m_nr_seq m) \<le> length (m_seqs m)" if "life_idle m \<and> S \<subseteq> selves m" for m
    using that by (simp add: life_idle_def table_ok_def)
next
  show "m_next_fptr m \<notin> f_self ` set (m_fibers m)" if "life_idle m \<and> S \<subseteq> selves m" for m
    using that addr_ok_fresh by (simp add: life_idle_def)
qed simp_all

section \<open>A turn of the loop\<close>

locale module_invariant = module_steps +
  assumes reap_Q: "Q m \<Longrightarrow> Q (reap_done m)"
    and Q_life: "Q m \<Longrightarrow> life_idle m"
begin

lemma both_spec:
  assumes "run_spec Q W T i c r" and "run_spec S (\<lambda>_. True) False i c r"
  shows "run_spec (\<lambda>m. Q m \<and> S m) W T i c r"
  using assms by (simp add: run_spec_def)

lemma timers_spec:
  assumes "Q (get_mod c i)" and "nr_ok c" and "valid_mod c i"
    and "set ps \<subseteq> selves (get_mod c i)"
  shows "run_spec Q W T i c (ofold (timer_one i now) ps c)"
proof -
  let ?S = "\<lambda>m. life_idle m \<and> set ps \<subseteq> selves m"
  have "run_spec (\<lambda>m. Q m \<and> ?S m) W T i c (ofold (timer_one i now) ps c)"
  proof (rule ofold_spec)
    show "Q (get_mod c i) \<and> ?S (get_mod c i)" using assms Q_life by blast
  next
    fix p c
    assume p: "p \<in> set ps" and q: "Q (get_mod c i) \<and> ?S (get_mod c i)" and nr: "nr_ok c"
      and v: "valid_mod c i"
    have alive: "get_fiber (get_mod c i) p \<noteq> None" using p q in_selves by blast
    show "run_spec (\<lambda>m. Q m \<and> ?S m) W T i c (timer_one i now p c)"
      by (rule both_spec [OF timer_one_spec kept.timer_one_spec]) (use q nr v alive in blast)+
  qed fact+
  then show ?thesis by (simp add: run_spec_def)
qed

lemma events_spec:
  assumes "Q (get_mod c i)" and "nr_ok c" and "valid_mod c i"
  shows "run_spec Q W T i c (ofold (event_one i) evs c)"
proof -
  have "run_spec (\<lambda>m. Q m \<and> True) W T i c (ofold (event_one i) evs c)"
    by (rule ofold_spec) (use assms event_one_spec in \<open>auto\<close>)
  then show ?thesis by simp
qed

text \<open>The specification of a turn, whose result also tells whether the loop goes on.\<close>

lemma sched_turn_spec:
  assumes "Q (get_mod c i)" and "nr_ok c" and "valid_mod c i"
  shows "(\<forall>b c'. sched_turn i c = ok (b, c') \<longrightarrow> step_frame i c c' \<and> Q (get_mod c' i)) \<and>
    (\<forall>u. sched_turn i c = undef u \<longrightarrow> (\<exists>p c1. u = Use_after_free p c1 \<and> W (get_mod c1 i))) \<and>
    (T \<longrightarrow> sched_turn i c \<noteq> None)"
proof (cases "m_stop (get_mod c i)")
  case True
  then show ?thesis using assms by (simp add: sched_turn_def)
next
  case False
  let ?m = "get_mod c i"
  let ?now = "fst (now_ts (m_env ?m))" and ?en = "snd (now_ts (m_env ?m))"
  define c1 where "c1 = set_mod i (?m\<lparr>m_inbox := [], m_env := ?en\<rparr>) c"
  let ?timers = "ofold (timer_one i ?now) (map f_self (m_fibers ?m)) c1"
  have eq: "sched_turn i c = obind ?timers (\<lambda>c2. obind (ofold (event_one i) (m_inbox ?m) c2)
      (\<lambda>c3. ok (True, set_mod i (reap_done (get_mod c3 i)) c3)))"
    using False by (simp add: sched_turn_def Let_def split_def c1_def)
  have st1: "step_frame i c c1"
    using assms(3) by (simp add: c1_def step_frame_set_mod now_ts_env)
  have v1: "valid_mod c1 i" and nr1: "nr_ok c1" using assms by (simp_all add: c1_def)
  have q1: "Q (get_mod c1 i)"
    by (rule quiet_Q [OF assms(1) q_same]) (use assms(3) in \<open>simp_all add: c1_def now_ts_env\<close>)
  have sub: "set (map f_self (m_fibers ?m)) \<subseteq> selves (get_mod c1 i)"
    using assms(3) by (simp add: c1_def selves_def)
  have timers: "run_spec Q W T i c1 ?timers"
    by (rule timers_spec [OF q1 nr1 v1 sub])
  have events: "run_spec Q W T i c2 (ofold (event_one i) (m_inbox ?m) c2)"
    if "?timers = ok c2" for c2
    by (rule events_spec)
      (use timers that nr1 v1 in \<open>auto dest: step_frame_nr_ok step_frame_length\<close>)
  show ?thesis
  proof (intro conjI allI impI)
    fix b c'
    assume "sched_turn i c = ok (b, c')"
    then obtain c2 c3 where c2: "?timers = ok c2" and c3: "ofold (event_one i) (m_inbox ?m) c2 = ok c3"
      and c': "c' = set_mod i (reap_done (get_mod c3 i)) c3"
      unfolding eq by (auto simp: obind_eq_ok)
    from timers c2 have st2: "step_frame i c1 c2" by simp
    from events [OF c2] c3 have st3: "step_frame i c2 c3" and q3: "Q (get_mod c3 i)" by simp_all
    have "step_frame i c c3" using st1 st2 st3 by (blast intro: step_frame_trans)
    moreover have v3: "valid_mod c3 i"
      using step_frame_length [OF \<open>step_frame i c c3\<close>] assms(3) by simp
    then have "step_frame i c3 c'"
      unfolding c' by (intro step_frame_set_mod) (simp_all add: reap_done_def)
    ultimately show "step_frame i c c'" by (rule step_frame_trans)
    show "Q (get_mod c' i)" using v3 reap_Q [OF q3] by (simp add: c')
  next
    fix u
    assume "sched_turn i c = undef u"
    then consider "?timers = undef u"
      | c2 where "?timers = ok c2" "ofold (event_one i) (m_inbox ?m) c2 = undef u"
      unfolding eq by (auto simp: obind_eq_undef)
    then show "\<exists>p c1. u = Use_after_free p c1 \<and> W (get_mod c1 i)"
      by cases (use timers events in \<open>simp_all add: run_spec_def\<close>)
  next
    assume T
    have t: "?timers \<noteq> None" using timers \<open>T\<close> by (simp add: run_spec_def)
    show "sched_turn i c \<noteq> None"
    proof (cases ?timers rule: outcome_exhaust)
      case (ok c2)
      have "ofold (event_one i) (m_inbox ?m) c2 \<noteq> None"
        using events [OF ok] \<open>T\<close> by (simp add: run_spec_def)
      then show ?thesis
        by (cases "ofold (event_one i) (m_inbox ?m) c2" rule: outcome_exhaust) (simp_all add: eq ok)
    qed (use t in \<open>simp_all add: eq\<close>)
  qed
qed

lemma sched_iter_spec:
  assumes "Q (get_mod c i)" and "nr_ok c" and "valid_mod c i"
  shows "(\<forall>b c'. sched_iter i c = ok (b, c') \<longrightarrow> step_frame i c c' \<and> Q (get_mod c' i)) \<and>
    (\<forall>u. sched_iter i c = undef u \<longrightarrow> (\<exists>p c1. u = Use_after_free p c1 \<and> W (get_mod c1 i))) \<and>
    (T \<longrightarrow> sched_iter i c \<noteq> None)"
proof -
  let ?c1 = "set_mod i (sched_splice (get_mod c i)) c"
  have l: "lib_ok (m_env (sched_splice (get_mod c i))) = lib_ok (m_env (get_mod c i))"
    by (simp add: sched_splice_def)
  have "quiet (get_mod c i) (sched_splice (get_mod c i))"
    by (cases "m_locked_by (get_mod c i) = None \<and> m_deferred (get_mod c i) \<noteq> []")
      (auto simp: sched_splice_def intro: q_same q_defer [where evs = "[]"] simp: m_private_def)
  then have "Q (sched_splice (get_mod c i))"
    by (rule quiet_Q [OF assms(1)]) (rule l)
  then have q: "Q (get_mod ?c1 i)" using assms(3) by simp
  have "step_frame i c ?c1" using l assms(3) by (simp add: step_frame_set_mod)
  with sched_turn_spec [OF q] assms show ?thesis
    by (auto simp: sched_iter_def intro: step_frame_trans)
qed

end

section \<open>The life cycle holds after every turn\<close>

text \<open>A reply may be due to a fiber that has been freed.\<close>

definition dangling :: "module_t \<Rightarrow> bool" where
  "dangling m \<longleftrightarrow> list_ex (\<lambda>p. p_f p \<notin> selves m) (m_pending m)"

lemma pending_find_dangling:
  "pending_find (m_pending m) r = Some p \<Longrightarrow> get_fiber m p = None \<Longrightarrow> dangling m"
  using pending_find_Some [of "m_pending m" r p] in_selves [of p m]
  by (auto simp: dangling_def list_ex_iff)

lemma selves_reap: "selves (reap_done m) = f_self ` {f \<in> set (m_fibers m). \<not> f_done f}"
  by (simp add: selves_def reap_done_def)

lemma life_reap:
  assumes "life_idle m"
  shows "life_idle (reap_done m)"
proof -
  have "distinct (map f_self (m_fibers m))" using assms by (simp add: life_idle_def addr_ok_def)
  then have uniq: "f = g" if "f \<in> set (m_fibers m)" "g \<in> set (m_fibers m)" "f_self f = f_self g" for f g
    using that by (auto simp: distinct_map inj_on_def)
  have "lock_ok (reap_done m)"
    using assms by (fastforce simp: lock_ok_def life_idle_def selves_reap selves_def reap_done_def list_ex_iff)
  moreover have "addr_ok (reap_done m)"
    using assms by (auto simp: addr_ok_def life_idle_def reap_done_def distinct_map inj_on_def)
  ultimately show ?thesis using assms by (simp add: life_idle_def) (simp add: reap_done_def)
qed

interpretation life: module_invariant life_idle "\<lambda>m p prog. life_running m p" dangling False
proof unfold_locales
  show "life_idle m'" if "life_idle m" "quiet m m'" for m m'
    using that by (rule life_quiet)
  show "life_running m' p" if "life_idle m" "wakes m p m' prog" for m p m' prog
    using that by (rule life_wakes)
  show "life_running m' p" if "life_running m p" "get_fiber m p = Some f"
    "continues m f prog m' prog'" for m p f prog m' prog'
    using that by (rule life_continues)
  show "life_idle (m'\<lparr>m_current := None\<rparr>)" if "life_running m p" "get_fiber m p = Some f"
    "yields m f prog m'" for m p f prog m'
    using that by (rule life_yields)
  show "get_fiber m p \<noteq> None" if "life_running m p" for m p
    using that kept.running_live [where S = "{}"] by simp
  show "f_ctx f \<noteq> Finished" if "life_idle m" "get_fiber m p = Some f"
    "f_waiting_timer f \<or> f_waiting_reply f \<or> f_waiting_any f" for m p f
    using that kept.waiting_entry [where S = "{}"] by blast
  show "unat (m_nr_seq m) \<le> length (m_seqs m)" if "life_idle m" for m
    using that kept.in_table [where S = "{}"] by simp
  show "m_next_fptr m \<notin> f_self ` set (m_fibers m)" if "life_idle m" for m
    using that kept.fresh_addr [where S = "{}"] by simp
qed (use pending_find_dangling life_reap in blast)+

end
