(* ===== verification/CoseqAccounting.thy ===== *)
theory CoseqAccounting
  imports CoseqLife
begin

text \<open>
  Accounting for replies. A pending entry holds the raw pointer of the fiber the reply is for, and
  \<open>reap_done\<close> frees a finished fiber without looking at the entries. The code is safe for
  sequences that collect every asynchronous reply before they return: every entry then belongs
  to a live fiber, as long as the request counter has not wrapped.
\<close>

section \<open>Sequences that collect their replies\<close>

text \<open>\<open>collects n prog\<close>: with \<open>n\<close> replies outstanding, \<open>prog\<close> returns only when none is left.\<close>

coinductive collects :: "int \<Rightarrow> seq_prog \<Rightarrow> bool" where
  co_return: "n = 0 \<Longrightarrow> collects n Return"
| co_request: "(\<And>s. collects n (ks s)) \<Longrightarrow> collects n (Request mi si msg sz ks)"
| co_request_timeout: "(\<And>s. collects n (ks s)) \<Longrightarrow> collects n (Request_timeout mi si msg sz ms ks)"
| co_async: "(\<And>r. collects (n + 1) (kr r)) \<Longrightarrow> collects n (Request_async mi si msg sz kr)"
| co_wait: "(n = 0 \<Longrightarrow> collects 0 (kw None)) \<Longrightarrow> (\<And>s. n > 0 \<Longrightarrow> collects (n - 1) (kw (Some s))) \<Longrightarrow>
    collects n (Wait_reply kw)"
| co_send: "collects n p \<Longrightarrow> collects n (Send mi si msg sz p)"
| co_reply: "collects n p \<Longrightarrow> collects n (Reply res msg sz p)"
| co_timeout: "collects n p \<Longrightarrow> collects n (Wait_timeout ms p)"
| co_source: "(\<And>s. collects n (ks s)) \<Longrightarrow> collects n (Source ks)"
| co_module: "(\<And>w. collects n (km w)) \<Longrightarrow> collects n (Self_module km)"
| co_seq: "(\<And>w. collects n (km w)) \<Longrightarrow> collects n (Self_seq km)"
| co_user: "(\<And>u. collects n (ku u)) \<Longrightarrow> collects n (Self_user ku)"
| co_name: "(\<And>t. collects n (kt t)) \<Longrightarrow> collects n (Self_seq_name kt)"
| co_reg: "(\<And>r. collects n (kg r)) \<Longrightarrow> collects n (Reg_notify cat kg)"
| co_unreg: "(\<And>b. collects n (kb b)) \<Longrightarrow> collects n (Unreg_notify cat cid kb)"
| co_notify: "(\<And>b. collects n (kb b)) \<Longrightarrow> collects n (Notify cat msg sz kb)"
| co_lock: "collects n p \<Longrightarrow> collects n (Lock p)"
| co_unlock: "collects n p \<Longrightarrow> collects n (Unlock p)"
| co_access: "(\<And>u. collects n (ka u)) \<Longrightarrow> collects n (Access upd ka)"

inductive_simps collects_simps [simp]:
  "collects n Return"
  "collects n (Request mi si msg sz ks)"
  "collects n (Request_timeout mi si msg sz ms ks)"
  "collects n (Request_async mi si msg sz kr)"
  "collects n (Wait_reply kw)"
  "collects n (Send mi si msg sz p)"
  "collects n (Reply res msg sz p)"
  "collects n (Wait_timeout ms p)"
  "collects n (Source ks)"
  "collects n (Self_module km)"
  "collects n (Self_seq km)"
  "collects n (Self_user ku)"
  "collects n (Self_seq_name kt)"
  "collects n (Reg_notify cat kg)"
  "collects n (Unreg_notify cat cid kb)"
  "collects n (Notify cat msg sz kb)"
  "collects n (Lock p)"
  "collects n (Unlock p)"
  "collects n (Access upd ka)"

lemma collects_plain: "plain_next prog prog' \<Longrightarrow> collects n prog \<Longrightarrow> collects n prog'"
  by (erule plain_nextE) auto

text \<open>Waiting for all replies settles every account.\<close>

lemma collects_gather:
  assumes "\<And>m u. collects 0 (k m u)"
  shows "n \<ge> 0 \<Longrightarrow> collects n (coseq_gather cb u j k)"
proof (coinduction arbitrary: n u j rule: collects.coinduct)
  case collects
  have eq: "coseq_gather cb u j k = Wait_reply (\<lambda>r. case r of
      None \<Rightarrow> k j u | Some s \<Rightarrow> coseq_gather cb (cb s u) (j + 1) k)"
    by (rule coseq_gather.code)
  have rest: "\<exists>n' u' j'. n - 1 = n' \<and> coseq_gather cb (cb s u) (j + 1) k = coseq_gather cb u' j' k \<and> 0 \<le> n'"
    if "0 < n" for s using that by force
  show ?case
    by (simp add: eq assms) (use rest in blast)
qed

section \<open>Replies owed to a fiber\<close>

text \<open>The entries of a fiber, except the one with the id it blocks on.\<close>

definition owed :: "pending_t list \<Rightarrow> fptr \<Rightarrow> u32 option \<Rightarrow> nat" where
  "owed ps p r = length (filter (\<lambda>e. p_f e = p \<and> Some (p_req_id e) \<noteq> r) ps)"

definition awaited :: "fiber_t \<Rightarrow> u32 option" where
  "awaited f = (if f_waiting_reply f then Some (f_wait_req_id f) else None)"

lemma owed_Nil [simp]: "owed [] p r = 0"
  by (simp add: owed_def)

lemma owed_Cons [simp]:
  "owed (e # ps) p r = (if p_f e = p \<and> Some (p_req_id e) \<noteq> r then 1 else 0) + owed ps p r"
  by (simp add: owed_def)

lemma owed_none: "\<forall>e \<in> set ps. p_f e \<noteq> p \<Longrightarrow> owed ps p r = 0"
  by (induction ps) auto

lemma owed_zero: "owed ps p None = 0 \<Longrightarrow> e \<in> set ps \<Longrightarrow> p_f e \<noteq> p"
  by (induction ps) auto

lemma owed_remove_le: "owed (remove_first P ps) p r \<le> owed ps p r"
  by (induction ps) auto

lemma owed_remove_found:
  "pending_find ps r = Some p \<Longrightarrow> x \<noteq> Some r \<Longrightarrow>
    owed ps p x = Suc (owed (remove_first (\<lambda>e. p_req_id e = r) ps) p x)"
  by (induction ps) auto

lemma owed_remove_awaited:
  "distinct (map p_req_id ps) \<Longrightarrow>
    owed (remove_first (\<lambda>e. p_req_id e = r) ps) p None \<le> owed ps p (Some r)"
proof (induction ps)
  case Nil
  then show ?case by simp
next
  case (Cons e ps)
  have "owed ps p None = owed ps p (Some r)" if "r \<notin> p_req_id ` set ps"
    using that unfolding owed_def by (intro arg_cong [where f = length] filter_cong) auto
  with Cons show ?case by auto
qed

section \<open>The invariant\<close>

definition wrapped :: "module_t \<Rightarrow> bool" where
  "wrapped m \<longleftrightarrow> 2 ^ 32 < m_next_req_id m"

definition entries_ok :: "module_t \<Rightarrow> bool" where
  "entries_ok m \<longleftrightarrow> distinct (map p_req_id (m_pending m)) \<and>
     (\<forall>e \<in> set (m_pending m). unat (p_req_id e) < m_next_req_id m \<and> p_f e \<in> selves m)"

definition table_collects :: "module_t \<Rightarrow> bool" where
  "table_collects m \<longleftrightarrow> (\<forall>sq \<in> set (m_seqs m). collects 0 (sq_fn sq)) \<and>
     (\<forall>fn. m_recv_notify m = Some fn \<longrightarrow> collects 0 fn)"

text \<open>What a parked fiber still has to collect fits the rest of its sequence.\<close>

fun rest_collects :: "int \<Rightarrow> ucontext_t \<Rightarrow> bool" where
  "rest_collects n At_entry = False"
| "rest_collects n (After_request k) = (\<forall>s. collects n (k s))"
| "rest_collects n (After_wait_reply k) = (\<forall>s. collects (n - 1) (k (Some s)))"
| "rest_collects n (After_wait_timeout p) = collects n p"
| "rest_collects n Finished = (n = 0)"

definition acct_parked :: "pending_t list \<Rightarrow> fiber_t \<Rightarrow> bool" where
  "acct_parked ps f \<longleftrightarrow>
     int (owed ps (f_self f) (awaited f)) + int (length (f_rq f)) \<le> f_async_outstanding f \<and>
     rest_collects (f_async_outstanding f) (f_ctx f)"

definition acct_run :: "pending_t list \<Rightarrow> fiber_t \<Rightarrow> seq_prog \<Rightarrow> bool" where
  "acct_run ps f prog \<longleftrightarrow>
     int (owed ps (f_self f) None) + int (length (f_rq f)) \<le> f_async_outstanding f \<and>
     collects (f_async_outstanding f) prog"

definition acct_idle :: "module_t \<Rightarrow> bool" where
  "acct_idle m \<longleftrightarrow> entries_ok m \<and> (\<forall>f \<in> set (m_fibers m). acct_parked (m_pending m) f)"

definition acct_running :: "module_t \<Rightarrow> fptr \<Rightarrow> seq_prog \<Rightarrow> bool" where
  "acct_running m p prog \<longleftrightarrow> entries_ok m \<and>
     (\<forall>f \<in> set (m_fibers m). if f_self f = p then acct_run (m_pending m) f prog
        else acct_parked (m_pending m) f)"

definition Acct :: "module_t \<Rightarrow> bool" where
  "Acct m \<longleftrightarrow> life_idle m \<and> table_collects m \<and> (\<not> wrapped m \<longrightarrow> acct_idle m)"

definition Acct_running :: "module_t \<Rightarrow> fptr \<Rightarrow> seq_prog \<Rightarrow> bool" where
  "Acct_running m p prog \<longleftrightarrow> life_running m p \<and> table_collects m \<and>
     (\<not> wrapped m \<longrightarrow> acct_running m p prog)"

lemma acct_parked_less:
  "acct_parked ps f \<Longrightarrow> (\<And>r. owed ps' (f_self f) r \<le> owed ps (f_self f) r) \<Longrightarrow> acct_parked ps' f"
  unfolding acct_parked_def by (meson add_right_mono of_nat_mono order_trans)

lemma acct_private:
  assumes "m_private m' = m_private x"
  shows "entries_ok m' = entries_ok x" "table_collects m' = table_collects x"
    "acct_idle m' = acct_idle x" "acct_running m' p prog = acct_running x p prog"
    "wrapped m' = wrapped x"
  using m_private_fields [OF assms] selves_private [OF assms]
  by (simp_all add: entries_ok_def table_collects_def acct_idle_def acct_running_def wrapped_def)

section \<open>Every step keeps it\<close>

lemma pending_find_owner:
  "entries_ok m \<Longrightarrow> pending_find (m_pending m) r = Some p \<Longrightarrow> p \<in> selves m"
  using pending_find_Some [of "m_pending m" r p] by (auto simp: entries_ok_def)

lemma entries_ok_drop:
  "entries_ok m \<Longrightarrow> entries_ok (drop_pending r m)"
  using set_remove_first_subset [of "\<lambda>p. p_req_id p = r" "m_pending m"]
  by (auto simp: entries_ok_def distinct_map_remove_first)

lemma entries_ok_simps [simp]:
  "entries_ok (put_fiber f m) = entries_ok m"
  "entries_ok (m\<lparr>m_current := q\<rparr>) = entries_ok m"
  "entries_ok (m\<lparr>m_deferred := evs\<rparr>) = entries_ok m"
  "entries_ok (m\<lparr>m_notify_clients := ncs\<rparr>) = entries_ok m"
  "entries_ok (coseq_lock m f) = entries_ok m"
  "entries_ok (coseq_unlock m f) = entries_ok m"
  by (simp_all add: entries_ok_def)

lemma entries_ok_next:
  "entries_ok m \<Longrightarrow> entries_ok (m\<lparr>m_next_req_id := m_next_req_id m + 1\<rparr>)"
  by (auto simp: entries_ok_def less_Suc_eq)

lemma table_collects_simps [simp]:
  "table_collects (put_fiber f m) = table_collects m"
  "table_collects (m\<lparr>m_current := q\<rparr>) = table_collects m"
  "table_collects (m\<lparr>m_next_req_id := n\<rparr>) = table_collects m"
  "table_collects (m\<lparr>m_deferred := evs\<rparr>) = table_collects m"
  "table_collects (m\<lparr>m_notify_clients := ncs\<rparr>) = table_collects m"
  "table_collects (pending_add m r p) = table_collects m"
  "table_collects (drop_pending r m) = table_collects m"
  "table_collects (coseq_lock m f) = table_collects m"
  "table_collects (coseq_unlock m f) = table_collects m"
  by (simp_all add: table_collects_def)

text \<open>A new request gets an id no entry has, until the counter wraps.\<close>

lemma entries_ok_add:
  assumes "entries_ok m" and "m_next_req_id m < 2 ^ 32" and "p \<in> selves m"
  shows "entries_ok (pending_add (m\<lparr>m_next_req_id := m_next_req_id m + 1\<rparr>) (of_nat (m_next_req_id m)) p)"
proof -
  have id: "unat (of_nat (m_next_req_id m) :: u32) = m_next_req_id m"
    using assms(2) by (simp add: unat_of_nat)
  then have "of_nat (m_next_req_id m) \<notin> p_req_id ` set (m_pending m)"
    using assms(1) by (auto simp: entries_ok_def)
  with assms id show ?thesis
    by (auto simp: entries_ok_def pending_add_pending less_Suc_eq)
qed

lemma acct_put:
  assumes "f_self f \<in> selves m"
  shows "acct_idle (put_fiber f m) \<longleftrightarrow> entries_ok m \<and> acct_parked (m_pending m) f \<and>
      (\<forall>g \<in> set (m_fibers m). f_self g \<noteq> f_self f \<longrightarrow> acct_parked (m_pending m) g)"
    and "acct_running (put_fiber f m) (f_self f) prog \<longleftrightarrow> entries_ok m \<and>
      acct_run (m_pending m) f prog \<and>
      (\<forall>g \<in> set (m_fibers m). f_self g \<noteq> f_self f \<longrightarrow> acct_parked (m_pending m) g)"
  using assms by (auto simp: acct_idle_def acct_running_def put_fiber_ball)

lemma acct_parked_drop: "acct_parked ps f \<Longrightarrow> acct_parked (remove_first P ps) f"
  by (erule acct_parked_less) (rule owed_remove_le)

lemma acct_quiet:
  assumes "acct_idle m" and "quiet m m'"
  shows "acct_idle m'"
  using assms(2)
proof (cases rule: quiet.cases)
  case q_same
  with assms(1) acct_private(3) show ?thesis by blast
next
  case (q_defer evs)
  show ?thesis unfolding acct_private(3) [OF q_defer] using assms(1) by (simp add: acct_idle_def)
next
  case (q_lost r p f)
  show ?thesis unfolding acct_private(3) [OF q_lost(5)]
    using assms(1) by (auto simp: acct_idle_def acct_parked_drop entries_ok_drop)
next
  case (q_queue r p f rr)
  have f: "f \<in> set (m_fibers m)" "f_self f = p" using get_fiber_Some [OF q_queue(2)] by auto
  then have self: "f_self (rq_put f rr) \<in> selves (drop_pending r m)"
    by (auto simp: rq_put_def selves_def)
  have "awaited (rq_put f rr) = awaited f" "awaited f \<noteq> Some r"
    using q_queue(3) by (auto simp: awaited_def rq_put_def woken_by_def)
  then have "acct_parked (m_pending (drop_pending r m)) (rq_put f rr)"
    using assms(1) f owed_remove_found [OF q_queue(1), of "awaited f"]
    by (auto simp: acct_idle_def acct_parked_def rq_put_def)
  then show ?thesis unfolding acct_private(3) [OF q_queue(5)] acct_put(1) [OF self]
    using assms(1) by (auto simp: acct_idle_def acct_parked_drop entries_ok_drop)
qed

text \<open>Switching a parked fiber in, after its entry for the request it blocks on is gone.\<close>

lemma acct_switch:
  assumes "entries_ok x" and "\<forall>g \<in> set (m_fibers x). f_self g \<noteq> p \<longrightarrow> acct_parked (m_pending x) g"
    and "p \<in> selves x" and "f_self f = p"
    and "int (owed (m_pending x) p None) + int (length (f_rq f)) \<le> f_async_outstanding (switched f)"
    and "collects (f_async_outstanding (switched f)) prog"
    and "m_private m' = m_private ((put_fiber (switched f) x)\<lparr>m_current := Some p\<rparr>)"
  shows "acct_running m' p prog"
proof -
  have self: "f_self (switched f) \<in> selves x" using assms(3,4) by simp
  have "acct_running ((put_fiber (switched f) x)\<lparr>m_current := Some p\<rparr>) p prog =
      acct_running (put_fiber (switched f) x) (f_self (switched f)) prog"
    by (simp add: acct_running_def assms(4))
  also have "\<dots>"
    unfolding acct_put(2) [OF self] using assms(1-6)
    by (simp add: acct_run_def switched_def)
  finally show ?thesis unfolding acct_private(4) [OF assms(7)] .
qed

lemma rest_collects_entry:
  "rest_collects (f_async_outstanding f) (f_ctx f) \<Longrightarrow> entry_prog f = Some prog \<Longrightarrow>
    collects (f_async_outstanding (switched f)) prog"
  by (cases "f_ctx f") (auto simp: entry_prog_def switched_def)

lemma acct_wakes:
  assumes life: "life_idle m" and tab: "table_collects m" and acct: "acct_idle m"
    and "wakes m p m' prog"
  shows "acct_running m' p prog"
proof -
  have ent: "entries_ok m" and dist: "distinct (map p_req_id (m_pending m))"
    using acct by (simp_all add: acct_idle_def entries_ok_def)
  have others: "\<forall>g \<in> set (m_fibers m). f_self g \<noteq> p \<longrightarrow> acct_parked (m_pending m) g"
    "\<forall>g \<in> set (m_fibers (drop_pending r m)). f_self g \<noteq> p \<longrightarrow> acct_parked (m_pending (drop_pending r m)) g"
    for r using acct by (simp_all add: acct_idle_def acct_parked_drop)
  have fib: "fiber_wf f" "acct_parked (m_pending m) f" "p \<in> selves m" "f_self f = p"
    if "get_fiber m p = Some f" for f
    using get_fiber_Some [OF that] get_fiber_selves [OF that] life acct
    by (auto simp: life_idle_def acct_idle_def)
  from assms(4) show ?thesis
  proof (cases rule: wakes.cases)
    case (w_reply r f f1)
    note f = fib [OF w_reply(2)] and so = src_only_fields [OF w_reply(4)]
    have rest: "rest_collects (f_async_outstanding f1) (f_ctx f1)"
      using f(2) so by (simp add: acct_parked_def)
    have "int (owed (m_pending (drop_pending r m)) p None) + int (length (f_rq f1)) \<le>
        f_async_outstanding (switched f1)"
    proof (cases "f_waiting_any f")
      case True
      then have "parked_any f" using f(1) by (auto simp: fiber_wf_def parked_defs split: if_splits)
      then have "awaited f = None" "is_After_wait_reply (f_ctx f1)"
        using so by (simp_all add: parked_any_def awaited_def)
      with f(2,4) so owed_remove_found [OF w_reply(1), of None] show ?thesis
        by (auto simp: acct_parked_def switched_def is_After_wait_reply_def)
    next
      case False
      then have req: "f_waiting_reply f" "f_wait_req_id f = r"
        using w_reply(3) by (simp_all add: woken_by_def)
      then have "parked_request f" using f(1) by (auto simp: fiber_wf_def parked_defs split: if_splits)
      then have "is_After_request (f_ctx f1)" using so by (simp add: parked_request_def)
      moreover have "awaited f = Some r" using req by (simp add: awaited_def)
      ultimately show ?thesis using f(2,4) so owed_remove_awaited [OF dist, of r p]
        by (auto simp: acct_parked_def switched_def is_After_request_def)
    qed
    from acct_switch [OF entries_ok_drop [OF ent] others(2) _ _ this
        rest_collects_entry [OF rest w_reply(5)] w_reply(6)]
    show ?thesis using f(3,4) so by simp
  next
    case (w_timer f)
    note f = fib [OF w_timer(1)]
    have "parked_timer f" using f(1) w_timer(2,3) by (auto simp: fiber_wf_def parked_defs split: if_splits)
    then have "is_After_wait_timeout (f_ctx f)" "awaited f = None"
      by (simp_all add: parked_timer_def awaited_def)
    then have "int (owed (m_pending m) p None) + int (length (f_rq f)) \<le> f_async_outstanding (switched f)"
      "rest_collects (f_async_outstanding f) (f_ctx f)"
      using f(2,4) by (auto simp: acct_parked_def switched_def is_After_wait_timeout_def)
    from acct_switch [OF ent others(1) f(3,4) this(1) rest_collects_entry [OF this(2) w_timer(4)] w_timer(5)]
    show ?thesis .
  next
    case (w_req_timeout f f1)
    note f = fib [OF w_req_timeout(1)] and so = src_only_fields [OF w_req_timeout(4)]
    let ?r = "f_wait_req_id f"
    have rest: "rest_collects (f_async_outstanding f1) (f_ctx f1)"
      using f(2) so by (simp add: acct_parked_def)
    have "parked_request f"
      using f(1) w_req_timeout(3) by (auto simp: fiber_wf_def parked_defs split: if_splits)
    then have "is_After_request (f_ctx f1)" "awaited f = Some ?r"
      using so by (simp_all add: parked_request_def awaited_def)
    then have "int (owed (m_pending (drop_pending ?r m)) p None) + int (length (f_rq f1)) \<le>
        f_async_outstanding (switched f1)"
      using f(2,4) so owed_remove_awaited [OF dist, of ?r p]
      by (auto simp: acct_parked_def switched_def is_After_request_def)
    from acct_switch [OF entries_ok_drop [OF ent] others(2) _ _ this
        rest_collects_entry [OF rest w_req_timeout(5)] w_req_timeout(6)]
    show ?thesis using f(3,4) so by simp
  next
    case (w_start f)
    let ?x = "m\<lparr>m_next_fptr := m_next_fptr m + 1, m_fibers := f # m_fibers m, m_current := Some (f_self f)\<rparr>"
    have new: "p \<notin> selves m"
      using life w_start(1,3) addr_ok_fresh [of m] by (simp add: life_idle_def selves_def)
    have "entries_ok ?x" using ent by (auto simp: entries_ok_def selves_def)
    moreover have "owed (m_pending m) p None = 0"
      using ent new by (intro owed_none) (auto simp: entries_ok_def)
    moreover have "collects 0 prog" using tab w_start(5) by (auto simp: table_collects_def)
    moreover have "f_self g \<noteq> p" if "g \<in> set (m_fibers m)" for g
      using that new by (auto simp: selves_def)
    ultimately show ?thesis
      unfolding acct_private(4) [OF w_start(6)]
      using others(1) w_start(1,2) by (simp add: acct_running_def acct_run_def fresh_fiber_def)
  qed
qed

text \<open>What a running fiber does with its own record and the entries.\<close>

lemma acct_running_fiber:
  assumes "acct_running m p prog" and "get_fiber m p = Some f"
  shows "entries_ok m" "acct_run (m_pending m) f prog" "f_self f = p" "p \<in> selves m"
    "\<forall>g \<in> set (m_fibers m). f_self g \<noteq> p \<longrightarrow> acct_parked (m_pending m) g"
  using assms(1) get_fiber_Some [OF assms(2)] get_fiber_selves [OF assms(2)]
  by (auto simp: acct_running_def)

lemma acct_running_next:
  assumes "acct_running m p prog" and "get_fiber m p = Some f" and "entries_ok x"
    and "m_fibers x = m_fibers m" and "m_pending x = m_pending m" and "f_self g = p"
    and "acct_run (m_pending m) g prog'"
  shows "acct_running (put_fiber g x) p prog'"
proof -
  note run = acct_running_fiber [OF assms(1,2)]
  have "f_self g \<in> selves x" using run(4) assms(4,6) by (simp add: selves_def)
  from acct_put(2) [OF this, of prog'] show ?thesis
    using run(5) assms(3-7) by simp
qed

lemma acct_running_same:
  assumes "acct_running m p prog" and "entries_ok x" and "m_fibers x = m_fibers m"
    and "m_pending x = m_pending m" and "\<And>n. collects n prog \<Longrightarrow> collects n prog'"
  shows "acct_running x p prog'"
  using assms by (auto simp: acct_running_def acct_run_def)

lemma wrapped_simps [simp]:
  "wrapped (put_fiber f m) = wrapped m"
  "wrapped (m\<lparr>m_current := q\<rparr>) = wrapped m"
  "wrapped (m\<lparr>m_notify_clients := ncs\<rparr>) = wrapped m"
  "wrapped (m\<lparr>m_deferred := evs\<rparr>) = wrapped m"
  "wrapped (drop_pending r m) = wrapped m"
  "wrapped (pending_add m r p) = wrapped m"
  "wrapped (coseq_lock m f) = wrapped m"
  "wrapped (coseq_unlock m f) = wrapped m"
  "wrapped (m\<lparr>m_next_req_id := n\<rparr>) = (2 ^ 32 < n)"
  by (simp_all add: wrapped_def)

lemma acct_plain:
  assumes "\<not> wrapped m \<Longrightarrow> acct_running m p prog" and "\<not> wrapped m'"
    and "plain_next prog prog'" and "plain_change m f m'"
  shows "acct_running m' p prog'"
  using assms(4)
proof (cases rule: plain_change.cases)
  case pc_same
  then show ?thesis
    using assms(1,2) acct_private(4,5) [OF pc_same] collects_plain [OF assms(3)]
    by (auto simp: acct_running_def acct_run_def)
next
  case pc_id
  have run: "acct_running m p prog"
    using assms(1,2) acct_private(5) [OF pc_id] by (simp add: wrapped_def)
  then have "entries_ok (m\<lparr>m_next_req_id := m_next_req_id m + 1\<rparr>)"
    by (intro entries_ok_next) (simp add: acct_running_def)
  from acct_running_same [OF run this] show ?thesis
    unfolding acct_private(4) [OF pc_id] using collects_plain [OF assms(3)] by simp
next
  case (pc_clients ncs)
  have run: "acct_running m p prog" using assms(1,2) acct_private(5) [OF pc_clients] by simp
  show ?thesis unfolding acct_private(4) [OF pc_clients]
    by (rule acct_running_same [OF run])
      (use run collects_plain [OF assms(3)] in \<open>auto simp: acct_running_def\<close>)
next
  case pc_lock
  have run: "acct_running m p prog" using assms(1,2) acct_private(5) [OF pc_lock] by simp
  show ?thesis unfolding acct_private(4) [OF pc_lock]
    by (rule acct_running_same [OF run])
      (use run collects_plain [OF assms(3)] in \<open>auto simp: acct_running_def\<close>)
next
  case pc_unlock
  have run: "acct_running m p prog" using assms(1,2) acct_private(5) [OF pc_unlock] by simp
  show ?thesis unfolding acct_private(4) [OF pc_unlock]
    by (rule acct_running_same [OF run])
      (use run collects_plain [OF assms(3)] in \<open>auto simp: acct_running_def\<close>)
qed

text \<open>Issuing an id and entering it for the running fiber.\<close>

lemma acct_issue:
  assumes run: "acct_running m p prog" and f: "get_fiber m p = Some f"
    and next_id: "m_next_req_id m < 2 ^ 32"
  defines "rid \<equiv> of_nat (m_next_req_id m) :: u32"
  defines "x \<equiv> pending_add (m\<lparr>m_next_req_id := m_next_req_id m + 1\<rparr>) rid p"
  shows "entries_ok x" "p \<in> selves x" "owed (m_pending x) p (Some rid) \<le> owed (m_pending m) p None"
    "owed (m_pending x) p None \<le> Suc (owed (m_pending m) p None)"
    "\<forall>g \<in> set (m_fibers x). f_self g \<noteq> p \<longrightarrow> acct_parked (m_pending x) g"
proof -
  note r = acct_running_fiber [OF run f]
  show "entries_ok x" unfolding x_def rid_def by (rule entries_ok_add [OF r(1) next_id r(4)])
  show "p \<in> selves x" using r(4) by (simp add: x_def)
  have "owed ps p (Some r) \<le> owed ps p None" for ps r by (induction ps) auto
  then show "owed (m_pending x) p (Some rid) \<le> owed (m_pending m) p None"
    by (simp add: x_def pending_add_pending)
  show "owed (m_pending x) p None \<le> Suc (owed (m_pending m) p None)"
    by (simp add: x_def pending_add_pending)
  show "\<forall>g \<in> set (m_fibers x). f_self g \<noteq> p \<longrightarrow> acct_parked (m_pending x) g"
    using r(5) by (auto simp: x_def pending_add_pending acct_parked_def)
qed

lemma acct_continues:
  assumes run: "\<not> wrapped m \<Longrightarrow> acct_running m p prog" and f: "get_fiber m p = Some f"
    and "continues m f prog m' prog'" and w: "\<not> wrapped m'" and addr: "addr_ok m"
  shows "acct_running m' p prog'"
  using assms(3)
proof (cases rule: continues.cases)
  case c_plain
  with run w show ?thesis by (rule acct_plain)
next
  case (c_async rid mi si msg n k)
  have self: "f_self f = p" by (rule get_fiber_self [OF f])
  have nx: "m_next_req_id m < 2 ^ 32"
    using w acct_private(5) [OF c_async(4)] by simp
  then have run: "acct_running m p (Request_async mi si msg n k)"
    using run c_async(1) by (simp add: wrapped_def)
  note r = acct_running_fiber [OF run f] and iss = acct_issue [OF run f nx]
  let ?f = "f\<lparr>f_async_outstanding := f_async_outstanding f + 1\<rparr>"
    and ?x = "pending_add (m\<lparr>m_next_req_id := m_next_req_id m + 1\<rparr>) rid p"
  have x: "f_self ?f \<in> selves ?x" using iss(2) self c_async(3) by simp
  have "acct_run (m_pending ?x) ?f prog'"
    using r(2) iss(4) self c_async(2,3) by (auto simp: acct_run_def)
  then show ?thesis unfolding acct_private(4) [OF c_async(4)]
    using acct_put(2) [OF x, of prog'] iss(1,5) self c_async(3) by simp
next
  case (c_wait_none kw)
  then have run: "acct_running m p (Wait_reply kw)"
    using run w acct_private(5) by blast
  have "g = f" if "g \<in> set (m_fibers m)" "f_self g = p" for g
    using get_fiber_unique [of m g] addr f that by (simp add: addr_ok_def)
  then show ?thesis unfolding acct_private(4) [OF c_wait_none(5)]
    using run c_wait_none(2-4) by (auto simp: acct_running_def acct_run_def)
next
  case (c_wait_some rr rest f1 kw)
  note so = src_only_fields [OF c_wait_some(4)]
  have self: "f_self f = p" by (rule get_fiber_self [OF f])
  have run: "acct_running m p (Wait_reply kw)"
    using run w c_wait_some(1) acct_private(5) [OF c_wait_some(5)] by simp
  note r = acct_running_fiber [OF run f]
  show ?thesis unfolding acct_private(4) [OF c_wait_some(5)]
    by (rule acct_running_next [OF run f r(1)])
      (use r(2) so self c_wait_some(2,3) in \<open>auto simp: acct_run_def\<close>)
qed

text \<open>A fiber that parks or returns.\<close>

lemma acct_leave:
  assumes "acct_parked (m_pending x) g" and "f_self g = p" and "p \<in> selves x" and "entries_ok x"
    and "\<forall>h \<in> set (m_fibers x). f_self h \<noteq> p \<longrightarrow> acct_parked (m_pending x) h"
    and "m_private m' = m_private (put_fiber g x)"
  shows "acct_idle m'"
proof -
  have "f_self g \<in> selves x" using assms(2,3) by simp
  from acct_put(1) [OF this] show ?thesis
    unfolding acct_private(3) [OF assms(6)] using assms(1-5) by simp
qed

lemma acct_park_request:
  assumes run: "acct_running m p prog" and f: "get_fiber m p = Some f"
    and next_id: "m_next_req_id m < 2 ^ 32" and rid: "rid = of_nat (m_next_req_id m)"
    and k: "\<And>n. collects n prog \<Longrightarrow> \<forall>s. collects n (k s)"
    and g: "f_self g = p" "f_waiting_reply g" "f_wait_req_id g = rid" "f_rq g = f_rq f"
      "f_async_outstanding g = f_async_outstanding f" "f_ctx g = After_request k"
    and m': "m_private m' = m_private (put_fiber g
      (pending_add (m\<lparr>m_next_req_id := m_next_req_id m + 1\<rparr>) rid p))"
  shows "acct_idle m'"
proof -
  note r = acct_running_fiber [OF run f] and iss = acct_issue [OF run f next_id]
  have "awaited g = Some rid" using g by (simp add: awaited_def)
  then have "acct_parked (m_pending (pending_add (m\<lparr>m_next_req_id := m_next_req_id m + 1\<rparr>) rid p)) g"
    using r(2,3) iss(3) g k rid by (auto simp: acct_parked_def acct_run_def)
  from acct_leave [OF this g(1) _ _ _ m'] iss(1,2,5) rid show ?thesis by simp
qed

lemma acct_yields:
  assumes run: "\<not> wrapped m \<Longrightarrow> acct_running m p prog" and f: "get_fiber m p = Some f"
    and nw: "no_wait f" and "yields m f prog m'" and w: "\<not> wrapped m'"
  shows "acct_idle m'"
  using assms(4)
proof (cases rule: yields.cases)
  case y_return
  have run: "acct_running m p prog" using run w acct_private(5) [OF y_return(2)] by simp
  note r = acct_running_fiber [OF run f]
  have "acct_parked (m_pending m) (f\<lparr>f_done := True, f_ctx := Finished\<rparr>)"
    using r(2,3) y_return(1) nw by (auto simp: acct_parked_def acct_run_def awaited_def no_wait_def)
  from acct_leave [OF this _ r(4,1,5) y_return(2)] show ?thesis using r(3) by simp
next
  case (y_request rid k mi si msg n)
  have self: "f_self f = p" by (rule get_fiber_self [OF f])
  have nx: "m_next_req_id m < 2 ^ 32" using w acct_private(5) [OF y_request(3)] by simp
  then have run: "acct_running m p prog" using run by (simp add: wrapped_def)
  show ?thesis
    by (rule acct_park_request [OF run f nx y_request(2), where k = k])
      (use y_request(1,3) self in \<open>simp_all\<close>)
next
  case (y_request_timeout rid k d mi si msg n ms)
  have self: "f_self f = p" by (rule get_fiber_self [OF f])
  have nx: "m_next_req_id m < 2 ^ 32" using w acct_private(5) [OF y_request_timeout(3)] by simp
  then have run: "acct_running m p prog" using run by (simp add: wrapped_def)
  show ?thesis
    by (rule acct_park_request [OF run f nx y_request_timeout(2), where k = k])
      (use y_request_timeout(1,3) self in \<open>simp_all\<close>)
next
  case (y_wait_reply kw)
  have run: "acct_running m p prog" using run w acct_private(5) [OF y_wait_reply(4)] by simp
  note r = acct_running_fiber [OF run f]
  have "acct_parked (m_pending m) (f\<lparr>f_waiting_any := True, f_ctx := After_wait_reply kw\<rparr>)"
    using r(2,3) y_wait_reply(1,3) nw by (auto simp: acct_parked_def acct_run_def awaited_def no_wait_def)
  from acct_leave [OF this _ r(4,1,5) y_wait_reply(4)] show ?thesis using r(3) by simp
next
  case (y_wait_timeout q d ms)
  have run: "acct_running m p prog" using run w acct_private(5) [OF y_wait_timeout(2)] by simp
  note r = acct_running_fiber [OF run f]
  have "acct_parked (m_pending m) (f\<lparr>f_waiting_timer := True, f_deadline := d, f_ctx := After_wait_timeout q\<rparr>)"
    using r(2,3) y_wait_timeout(1) nw by (auto simp: acct_parked_def acct_run_def awaited_def no_wait_def)
  from acct_leave [OF this _ r(4,1,5) y_wait_timeout(2)] show ?thesis using r(3) by simp
qed

lemma acct_reap:
  assumes "life_idle m" and "acct_idle m"
  shows "acct_idle (reap_done m)"
proof -
  have "p_f e \<in> selves (reap_done m)" if "e \<in> set (m_pending m)" for e
  proof -
    have "p_f e \<in> selves m" using assms(2) that by (simp add: acct_idle_def entries_ok_def)
    then obtain f where f: "f \<in> set (m_fibers m)" "f_self f = p_f e"
      unfolding selves_def by (metis imageE)
    have "\<not> f_done f"
    proof
      assume "f_done f"
      then have "f_ctx f = Finished" "awaited f = None"
        using assms(1) f(1) by (auto simp: life_idle_def fiber_wf_def no_wait_def awaited_def)
      with assms(2) f have "owed (m_pending m) (p_f e) None = 0"
        by (auto simp: acct_idle_def acct_parked_def)
      from owed_zero [OF this that] show False by simp
    qed
    with f show ?thesis by (force simp: selves_reap)
  qed
  then show ?thesis
    using assms(2) by (auto simp: acct_idle_def entries_ok_def reap_done_def)
qed

lemma table_collects_steps:
  "quiet m m' \<Longrightarrow> table_collects m' = table_collects m"
  "wakes m p m' prog \<Longrightarrow> table_collects m' = table_collects m"
  "plain_change m f m' \<Longrightarrow> table_collects m' = table_collects m"
  "yields m f prog m' \<Longrightarrow> table_collects m' = table_collects m"
  by (erule quietE wakesE plain_changeE yieldsE; drule acct_private(2); simp add: table_collects_def)+

lemma table_collects_continues:
  "continues m f prog m' prog' \<Longrightarrow> table_collects m' = table_collects m"
  by (erule continuesE) (erule table_collects_steps(3), (drule acct_private(2); simp)+)

lemma wrapped_quiet: "quiet m m' \<Longrightarrow> wrapped m' = wrapped m"
  by (erule quietE; drule acct_private(5); simp)

lemma wrapped_wakes: "wakes m p m' prog \<Longrightarrow> wrapped m' = wrapped m"
  by (erule wakesE; drule acct_private(5); simp add: wrapped_def)

section \<open>The invariant of well-behaved modules\<close>

lemma Acct_current: "Acct (m\<lparr>m_current := None\<rparr>) \<longleftrightarrow> life_idle (m\<lparr>m_current := None\<rparr>) \<and>
    table_collects m \<and> (\<not> wrapped m \<longrightarrow> acct_idle m)"
  by (simp add: Acct_def acct_idle_def)

interpretation accounts: module_invariant Acct Acct_running wrapped False
proof unfold_locales
  show "Acct m'" if "Acct m" "quiet m m'" for m m'
    using that life_quiet table_collects_steps(1) wrapped_quiet acct_quiet
    unfolding Acct_def by metis
  show "Acct_running m' p prog" if "Acct m" "wakes m p m' prog" for m p m' prog
    using that life_wakes table_collects_steps(2) wrapped_wakes acct_wakes
    unfolding Acct_def Acct_running_def by metis
  show "Acct_running m' p prog'" if R: "Acct_running m p prog" and f: "get_fiber m p = Some f"
    and st: "continues m f prog m' prog'" for m p f prog m' prog'
  proof -
    have "addr_ok m" using R by (simp add: Acct_running_def life_running_def)
    then show ?thesis
      using R life_continues [OF _ f st] table_collects_continues [OF st] acct_continues [OF _ f st]
      unfolding Acct_running_def by blast
  qed
  show "Acct (m'\<lparr>m_current := None\<rparr>)" if R: "Acct_running m p prog" and f: "get_fiber m p = Some f"
    and st: "yields m f prog m'" for m p f prog m'
    using R life_yields [OF _ f st] table_collects_steps(4) [OF st] acct_yields [OF _ f _ st]
      life_running_fiber(2) [OF _ f]
    unfolding Acct_running_def Acct_current by blast
  show "get_fiber m p \<noteq> None" if "Acct_running m p prog" for m p prog
    using that life.running_live by (simp add: Acct_running_def)
  show "wrapped m" if "Acct m" "pending_find (m_pending m) r = Some p" "get_fiber m p = None" for m r p
    using that pending_find_owner [of m r p] in_selves [of p m] by (auto simp: Acct_def acct_idle_def)
  show "f_ctx f \<noteq> Finished" if "Acct m" "get_fiber m p = Some f"
    "f_waiting_timer f \<or> f_waiting_reply f \<or> f_waiting_any f" for m p f
    using that life.waiting_entry by (auto simp: Acct_def)
  show "unat (m_nr_seq m) \<le> length (m_seqs m)" if "Acct m" for m
    using that life.in_table by (simp add: Acct_def)
  show "m_next_fptr m \<notin> f_self ` set (m_fibers m)" if "Acct m" for m
    using that life.fresh_addr by (simp add: Acct_def)
  show "Acct (reap_done m)" if "Acct m" for m
    using that life_reap [of m] acct_reap [of m]
    by (auto simp: Acct_def table_collects_def wrapped_def reap_done_def)
  show "life_idle m" if "Acct m" for m
    using that by (simp add: Acct_def)
qed simp_all

end
