(* ===== verification/CoseqLive.thy ===== *)
theory CoseqLive
  imports CoseqLife
begin

text \<open>
  Every turn of a scheduler ends. A sequence runs on its module's thread until it yields, so a sequence
  that loops without a wait point stops the module for good. Polite sequences reach a wait
  point or return after finitely many calls; with them every turn of the loop returns.
\<close>

section \<open>Polite sequences\<close>

text \<open>
  \<open>segment X q prog\<close>: with \<open>q\<close> replies queued, \<open>prog\<close> makes finitely many calls until it returns or
  yields, and what it goes on with after the yield satisfies \<open>X\<close>.
\<close>

inductive segment :: "(seq_prog \<Rightarrow> bool) \<Rightarrow> nat \<Rightarrow> seq_prog \<Rightarrow> bool" for X where
  sg_return: "segment X q Return"
| sg_request: "(\<And>s. X (ks s)) \<Longrightarrow> segment X q (Request mi si msg sz ks)"
| sg_request_timeout: "(\<And>s. X (ks s)) \<Longrightarrow> segment X q (Request_timeout mi si msg sz ms ks)"
| sg_timeout: "X p \<Longrightarrow> segment X q (Wait_timeout ms p)"
| sg_async: "(\<And>r. segment X q (kr r)) \<Longrightarrow> segment X q (Request_async mi si msg sz kr)"
| sg_wait: "segment X q (kw None) \<Longrightarrow> (\<And>q' s. q = Suc q' \<Longrightarrow> segment X q' (kw (Some s))) \<Longrightarrow>
    (\<And>s. X (kw (Some s))) \<Longrightarrow> segment X q (Wait_reply kw)"
| sg_plain: "plain_next prog p0 \<Longrightarrow> (\<And>p'. plain_next prog p' \<Longrightarrow> segment X q p') \<Longrightarrow> segment X q prog"

lemma segment_mono [mono]: "X \<le> Y \<Longrightarrow> segment X q p \<longrightarrow> segment Y q p"
proof
  assume "X \<le> Y" and "segment X q p"
  from this(2,1) show "segment Y q p"
  proof (induction rule: segment.induct)
    case (sg_async q kr mi si msg sz)
    then show ?case by (intro segment.sg_async) blast
  next
    case (sg_wait q kw)
    then show ?case by (intro segment.sg_wait) blast+
  next
    case (sg_plain prog p0 q)
    then show ?case by (intro segment.sg_plain [OF sg_plain(1)]) blast
  qed (blast intro: segment.intros)+
qed

coinductive polite :: "seq_prog \<Rightarrow> bool" where
  "(\<And>q. segment polite q p) \<Longrightarrow> polite p"

lemma polite_segment: "polite p \<Longrightarrow> segment polite q p"
  by (erule polite.cases) simp

inductive_cases segmentE: "segment X q prog"

lemma plain_not:
  "\<not> plain_next Return p'" "\<not> plain_next (Request mi si msg sz ks) p'"
  "\<not> plain_next (Request_timeout mi si msg sz ms ks) p'" "\<not> plain_next (Wait_timeout ms p) p'"
  "\<not> plain_next (Request_async mi si msg sz kr) p'" "\<not> plain_next (Wait_reply kw) p'"
  by (auto elim: plain_nextE)

lemma plain_next_simps [simp]:
  "plain_next (Send mi si msg sz p) p' \<longleftrightarrow> p' = p"
  "plain_next (Reply res msg sz p) p' \<longleftrightarrow> p' = p"
  "plain_next (Source ks) p' \<longleftrightarrow> (\<exists>s. p' = ks s)"
  "plain_next (Self_module km) p' \<longleftrightarrow> (\<exists>w. p' = km w)"
  "plain_next (Self_seq km) p' \<longleftrightarrow> (\<exists>w. p' = km w)"
  "plain_next (Self_user ku) p' \<longleftrightarrow> (\<exists>u. p' = ku u)"
  "plain_next (Self_seq_name kt) p' \<longleftrightarrow> (\<exists>t. p' = kt t)"
  "plain_next (Reg_notify cat kg) p' \<longleftrightarrow> (\<exists>r. p' = kg r)"
  "plain_next (Unreg_notify cat cid kb) p' \<longleftrightarrow> (\<exists>b. p' = kb b)"
  "plain_next (Notify cat msg sz kb) p' \<longleftrightarrow> (\<exists>b. p' = kb b)"
  "plain_next (Lock p) p' \<longleftrightarrow> p' = p"
  "plain_next (Unlock p) p' \<longleftrightarrow> p' = p"
  "plain_next (Access upd ka) p' \<longleftrightarrow> (\<exists>u. p' = ka u)"
  by (auto elim: plain_nextE intro: plain_next.intros)

text \<open>For each call, when a segment may begin with it.\<close>

lemma segment_simps [simp]:
  "segment X q Return"
  "segment X q (Request mi si msg sz ks) \<longleftrightarrow> (\<forall>s. X (ks s))"
  "segment X q (Request_timeout mi si msg sz ms ks) \<longleftrightarrow> (\<forall>s. X (ks s))"
  "segment X q (Wait_timeout ms p) \<longleftrightarrow> X p"
  "segment X q (Request_async mi si msg sz kr) \<longleftrightarrow> (\<forall>r. segment X q (kr r))"
  "segment X q (Wait_reply kw) \<longleftrightarrow> segment X q (kw None) \<and> (\<forall>s. X (kw (Some s))) \<and>
     (\<forall>q' s. q = Suc q' \<longrightarrow> segment X q' (kw (Some s)))"
  by (auto elim: segmentE intro: segment.intros simp: plain_not)

lemma segment_plain: "plain_next prog p0 \<Longrightarrow> segment X q prog \<longleftrightarrow> (\<forall>p'. plain_next prog p' \<longrightarrow> segment X q p')"
  by (auto intro: sg_plain elim: segmentE simp: plain_not)

lemma segment_plain_simps [simp]:
  "segment X q (Send mi si msg sz p) \<longleftrightarrow> segment X q p"
  "segment X q (Reply res msg sz p) \<longleftrightarrow> segment X q p"
  "segment X q (Source ks) \<longleftrightarrow> (\<forall>s. segment X q (ks s))"
  "segment X q (Self_module km) \<longleftrightarrow> (\<forall>w. segment X q (km w))"
  "segment X q (Self_seq km) \<longleftrightarrow> (\<forall>w. segment X q (km w))"
  "segment X q (Self_user ku) \<longleftrightarrow> (\<forall>u. segment X q (ku u))"
  "segment X q (Self_seq_name kt) \<longleftrightarrow> (\<forall>t. segment X q (kt t))"
  "segment X q (Reg_notify cat kg) \<longleftrightarrow> (\<forall>r. segment X q (kg r))"
  "segment X q (Unreg_notify cat cid kb) \<longleftrightarrow> (\<forall>b. segment X q (kb b))"
  "segment X q (Notify cat msg sz kb) \<longleftrightarrow> (\<forall>b. segment X q (kb b))"
  "segment X q (Lock p) \<longleftrightarrow> segment X q p"
  "segment X q (Unlock p) \<longleftrightarrow> segment X q p"
  "segment X q (Access upd ka) \<longleftrightarrow> (\<forall>u. segment X q (ka u))"
  by (simp_all add: plain_next.intros [THEN segment_plain]) metis+

lemma polite_iff: "polite p \<longleftrightarrow> (\<forall>q. segment polite q p)"
  using polite.intros polite_segment by blast

lemma polite_simps [simp]:
  "polite Return"
  "polite (Request mi si msg sz ks) \<longleftrightarrow> (\<forall>s. polite (ks s))"
  "polite (Request_timeout mi si msg sz ms ks) \<longleftrightarrow> (\<forall>s. polite (ks s))"
  "polite (Wait_timeout ms p) \<longleftrightarrow> polite p"
  "polite (Request_async mi si msg sz kr) \<longleftrightarrow> (\<forall>r. polite (kr r))"
  "polite (Wait_reply kw) \<longleftrightarrow> (\<forall>r. polite (kw r))"
  "polite (Send mi si msg sz p) \<longleftrightarrow> polite p"
  "polite (Reply res msg sz p) \<longleftrightarrow> polite p"
  "polite (Source ks) \<longleftrightarrow> (\<forall>s. polite (ks s))"
  "polite (Self_module km) \<longleftrightarrow> (\<forall>w. polite (km w))"
  "polite (Self_seq km) \<longleftrightarrow> (\<forall>w. polite (km w))"
  "polite (Self_user ku) \<longleftrightarrow> (\<forall>u. polite (ku u))"
  "polite (Self_seq_name kt) \<longleftrightarrow> (\<forall>t. polite (kt t))"
  "polite (Reg_notify cat kg) \<longleftrightarrow> (\<forall>r. polite (kg r))"
  "polite (Unreg_notify cat cid kb) \<longleftrightarrow> (\<forall>b. polite (kb b))"
  "polite (Notify cat msg sz kb) \<longleftrightarrow> (\<forall>b. polite (kb b))"
  "polite (Lock p) \<longleftrightarrow> polite p"
  "polite (Unlock p) \<longleftrightarrow> polite p"
  "polite (Access upd ka) \<longleftrightarrow> (\<forall>u. polite (ka u))"
  by (subst polite_iff; auto simp: polite_iff [THEN iffD1] split_option_all intro: polite.intros dest: polite_segment)+

text \<open>Gathering is polite: every queued reply is taken once, and without one it yields or goes on.\<close>

lemma gather_code:
  "coseq_gather cb u n k = Wait_reply (\<lambda>r. case r of
     None \<Rightarrow> k n u | Some s \<Rightarrow> coseq_gather cb (cb s u) (n + 1) k)"
  by (rule coseq_gather.code)

lemma segment_gather:
  assumes "\<And>q m u. segment X q (k m u)" and "\<And>m u. X (coseq_gather cb u m k)"
  shows "segment X q (coseq_gather cb u n k)"
proof (induction q arbitrary: u n)
  case 0
  show ?case by (subst gather_code) (simp add: assms)
next
  case (Suc q)
  show ?case by (subst gather_code) (simp add: assms Suc)
qed

lemma polite_gather:
  assumes "\<And>m u. polite (k m u)"
  shows "polite (coseq_gather cb u n k)"
proof (coinduction arbitrary: u n)
  case polite
  let ?X = "\<lambda>p. (\<exists>u n. p = coseq_gather cb u n k) \<or> polite p"
  have "segment polite q p \<longrightarrow> segment ?X q p" for q p
    by (rule segment_mono) auto
  then have "segment ?X q (k m u)" for q m u
    using polite_segment [OF assms] by blast
  then have "segment ?X q (coseq_gather cb u n k)" for q
    by (rule segment_gather) blast
  then show ?case by blast
qed

section \<open>The invariant\<close>

fun rest_polite :: "ucontext_t \<Rightarrow> bool" where
  "rest_polite At_entry = False"
| "rest_polite (After_request k) = (\<forall>s. polite (k s))"
| "rest_polite (After_wait_reply k) = (\<forall>s. polite (k (Some s)))"
| "rest_polite (After_wait_timeout p) = polite p"
| "rest_polite Finished = True"

definition table_polite :: "module_t \<Rightarrow> bool" where
  "table_polite m \<longleftrightarrow> (\<forall>sq \<in> set (m_seqs m). polite (sq_fn sq)) \<and>
     (\<forall>fn. m_recv_notify m = Some fn \<longrightarrow> polite fn)"

definition Live :: "module_t \<Rightarrow> bool" where
  "Live m \<longleftrightarrow> life_idle m \<and> table_polite m \<and> (\<forall>f \<in> set (m_fibers m). rest_polite (f_ctx f))"

definition Live_running :: "module_t \<Rightarrow> fptr \<Rightarrow> seq_prog \<Rightarrow> bool" where
  "Live_running m p prog \<longleftrightarrow> life_running m p \<and> table_polite m \<and>
     (\<forall>f \<in> set (m_fibers m). if f_self f = p then segment polite (length (f_rq f)) prog
        else rest_polite (f_ctx f))"

lemma table_polite_private:
  "m_private m' = m_private x \<Longrightarrow> m_seqs x = m_seqs m \<Longrightarrow> m_recv_notify x = m_recv_notify m \<Longrightarrow>
    table_polite m' = table_polite m"
  using m_private_fields(2,4) [of m' x] by (simp add: table_polite_def)

lemma table_polite_steps:
  "quiet m m' \<Longrightarrow> table_polite m' = table_polite m"
  "wakes m p m' prog \<Longrightarrow> table_polite m' = table_polite m"
  "plain_change m f m' \<Longrightarrow> table_polite m' = table_polite m"
  "yields m f prog m' \<Longrightarrow> table_polite m' = table_polite m"
  by (erule quietE wakesE plain_changeE yieldsE; erule table_polite_private; simp)+

lemma table_polite_continues:
  "continues m f prog m' prog' \<Longrightarrow> table_polite m' = table_polite m"
  by (erule continuesE) (erule table_polite_steps(3), (erule table_polite_private; simp)+)

lemma plain_change_fibers: "plain_change m f m' \<Longrightarrow> m_fibers m' = m_fibers m"
  by (erule plain_changeE; drule m_private_fields(6); simp)

lemma entry_polite: "rest_polite (f_ctx f) \<Longrightarrow> entry_prog f = Some prog \<Longrightarrow> polite prog"
  by (cases "f_ctx f") (auto simp: entry_prog_def)

text \<open>The private data of a module after one fiber has been replaced.\<close>

lemma fibers_put:
  assumes "m_private m' = m_private ((put_fiber g x)\<lparr>m_current := q\<rparr>) \<or> m_private m' = m_private (put_fiber g x)"
    and "h \<in> set (m_fibers m')"
  shows "h = g \<or> (h \<in> set (m_fibers x) \<and> f_self h \<noteq> f_self g)"
proof -
  have "m_fibers m' = m_fibers (put_fiber g x)"
    using assms(1) m_private_fields(6) [of m' "(put_fiber g x)\<lparr>m_current := q\<rparr>"]
      m_private_fields(6) [of m' "put_fiber g x"] by auto
  then show ?thesis using assms(2) put_fiber_in [of h g x] by simp
qed

lemma live_wakes:
  assumes "Live m" and "wakes m p m' prog"
  shows "\<forall>f \<in> set (m_fibers m'). if f_self f = p then segment polite (length (f_rq f)) prog
    else rest_polite (f_ctx f)"
  using assms(2)
proof (cases rule: wakes.cases)
  case (w_reply r f f1)
  note so = src_only_fields [OF w_reply(4)] and f = get_fiber_Some [OF w_reply(2)]
  have "rest_polite (f_ctx f1)" using assms(1) f so by (simp add: Live_def)
  then have "polite prog" using w_reply(5) by (rule entry_polite)
  then show ?thesis
    using fibers_put [OF disjI1 [OF w_reply(6)]] assms(1) f so polite_segment
    by (fastforce simp: Live_def)
next
  case (w_timer f)
  note f = get_fiber_Some [OF w_timer(1)]
  have "polite prog" by (rule entry_polite [OF _ w_timer(4)]) (use assms(1) f in \<open>simp add: Live_def\<close>)
  then show ?thesis
    using fibers_put [OF disjI1 [OF w_timer(5)]] assms(1) f polite_segment
    by (fastforce simp: Live_def)
next
  case (w_req_timeout f f1)
  note so = src_only_fields [OF w_req_timeout(4)] and f = get_fiber_Some [OF w_req_timeout(1)]
  have "rest_polite (f_ctx f1)" using assms(1) f so by (simp add: Live_def)
  then have "polite prog" using w_req_timeout(5) by (rule entry_polite)
  then show ?thesis
    using fibers_put [OF disjI1 [OF w_req_timeout(6)]] assms(1) f so polite_segment
    by (fastforce simp: Live_def)
next
  case (w_start f)
  have "polite prog" using assms(1) w_start(5) by (auto simp: Live_def table_polite_def)
  moreover have "f_self g \<noteq> p" if "g \<in> set (m_fibers m)" for g
    using that assms(1) w_start(1,3) addr_ok_fresh [of m] by (force simp: Live_def life_idle_def)
  ultimately show ?thesis
    using assms(1) m_private_fields(6) [OF w_start(6)] w_start(1) polite_segment
    by (auto simp: Live_def)
qed

text \<open>
  The remaining calls of a running fiber and the length of its queue, before and after a call that
  returns.
\<close>

inductive next_call :: "seq_prog \<Rightarrow> nat \<Rightarrow> seq_prog \<Rightarrow> nat \<Rightarrow> bool" where
  nx_plain: "plain_next prog prog' \<Longrightarrow> next_call prog q prog' q"
| nx_async: "next_call (Request_async mi si msg n k) q (k rid) q"
| nx_none: "next_call (Wait_reply kw) 0 (kw None) 0"
| nx_some: "next_call (Wait_reply kw) (Suc q) (kw (Some s)) q"

inductive_cases next_callE: "next_call prog q prog' q'"

lemma segment_next: "segment X q prog \<Longrightarrow> next_call prog q prog' q' \<Longrightarrow> segment X q' prog'"
  by (erule next_callE) (auto simp: segment_plain)

lemma continues_next:
  assumes "continues m f prog m' prog'" and "get_fiber m p = Some f"
  shows "\<exists>f'. get_fiber m' p = Some f' \<and> next_call prog (length (f_rq f)) prog' (length (f_rq f')) \<and>
    (\<forall>h \<in> set (m_fibers m'). h = f' \<or> h \<in> set (m_fibers m))"
  using assms(1)
proof (cases rule: continues.cases)
  case c_plain
  then have "m_fibers m' = m_fibers m" by (intro plain_change_fibers)
  then show ?thesis using nx_plain [OF c_plain(1)] assms(2) by (auto simp: get_fiber_def)
next
  case (c_async rid mi si msg n k)
  let ?f = "f\<lparr>f_async_outstanding := f_async_outstanding f + 1\<rparr>"
  have "get_fiber m' p = Some ?f"
    using assms(2) get_fiber_self [OF assms(2)] by (simp add: get_fiber_private [OF c_async(4)] get_put_fiber)
  moreover have "\<forall>h \<in> set (m_fibers m'). h = ?f \<or> h \<in> set (m_fibers m)"
    using fibers_put [OF disjI2 [OF c_async(4)]] by auto
  ultimately show ?thesis using c_async nx_async by (intro exI [of _ ?f]) auto
next
  case (c_wait_none kw)
  have "get_fiber m' p = Some f" "m_fibers m' = m_fibers m"
    using assms(2) get_fiber_private [OF c_wait_none(5)] m_private_fields(6) [OF c_wait_none(5)] by simp_all
  then show ?thesis using c_wait_none nx_none by (intro exI [of _ f]) auto
next
  case (c_wait_some rr rest f1 kw)
  note so = src_only_fields [OF c_wait_some(4)]
  let ?f = "f1\<lparr>f_async_outstanding := f_async_outstanding f1 - 1\<rparr>"
  have "get_fiber m' p = Some ?f"
    using assms(2) get_fiber_self [OF assms(2)] so
    by (simp add: get_fiber_private [OF c_wait_some(5)] get_put_fiber)
  moreover have "\<forall>h \<in> set (m_fibers m'). h = ?f \<or> h \<in> set (m_fibers m)"
    using fibers_put [OF disjI2 [OF c_wait_some(5)]] by auto
  ultimately show ?thesis using c_wait_some so nx_some by (intro exI [of _ ?f]) auto
qed

lemma Live_running_fiber:
  "Live_running m p prog \<Longrightarrow> get_fiber m p = Some f \<Longrightarrow> segment polite (length (f_rq f)) prog"
  using get_fiber_Some [of m p f] by (auto simp: Live_running_def)

lemma live_continues:
  assumes R: "Live_running m p prog" and f: "get_fiber m p = Some f" and st: "continues m f prog m' prog'"
  shows "Live_running m' p prog'"
proof -
  have life: "life_running m' p"
    using R life_continues [OF _ f st] by (simp add: Live_running_def)
  obtain f' where f': "get_fiber m' p = Some f'" and nx: "next_call prog (length (f_rq f)) prog' (length (f_rq f'))"
    and others: "\<forall>h \<in> set (m_fibers m'). h = f' \<or> h \<in> set (m_fibers m)"
    using continues_next [OF st f] by blast
  have seg: "segment polite (length (f_rq f')) prog'"
    by (rule segment_next [OF Live_running_fiber [OF R f] nx])
  have "h = f'" if "h \<in> set (m_fibers m')" "f_self h = p" for h
    using get_fiber_unique [of m' h] that f' life by (simp add: life_running_def addr_ok_def)
  then show ?thesis
    using R life others seg table_polite_continues [OF st] get_fiber_self [OF f']
    unfolding Live_running_def by metis
qed

lemma live_yields:
  assumes R: "Live_running m p prog" and f: "get_fiber m p = Some f" and st: "yields m f prog m'"
  shows "Live (m'\<lparr>m_current := None\<rparr>)"
proof -
  note seg = Live_running_fiber [OF R f] and self = get_fiber_self [OF f]
  have others: "rest_polite (f_ctx h)" if "h \<in> set (m_fibers m)" "f_self h \<noteq> p" for h
    using R that by (auto simp: Live_running_def)
  have "rest_polite (f_ctx h)" if h: "h \<in> set (m_fibers m')" for h
    using st
  proof (cases rule: yields.cases)
    case y_return
    from fibers_put [OF disjI2 [OF y_return(2)] h] others self show ?thesis by auto
  next
    case (y_request rid k mi si msg n)
    from fibers_put [OF disjI2 [OF y_request(3)] h] others self seg y_request(1) show ?thesis by auto
  next
    case (y_request_timeout rid k d mi si msg n ms)
    from fibers_put [OF disjI2 [OF y_request_timeout(3)] h] others self seg y_request_timeout(1)
    show ?thesis by auto
  next
    case (y_wait_reply kw)
    from fibers_put [OF disjI2 [OF y_wait_reply(4)] h] others self seg y_wait_reply(1) show ?thesis by auto
  next
    case (y_wait_timeout q d ms)
    from fibers_put [OF disjI2 [OF y_wait_timeout(2)] h] others self seg y_wait_timeout(1) show ?thesis by auto
  qed
  then show ?thesis
    using R life_yields [OF _ f st] table_polite_steps(4) [OF st]
    by (simp add: Live_def Live_running_def table_polite_def)
qed

text \<open>A polite segment is run in finitely many steps.\<close>

lemma finite_run_next:
  assumes "get_fiber m p = Some f"
    and "\<And>m' f' prog'. get_fiber m' p = Some f' \<Longrightarrow>
      next_call prog (length (f_rq f)) prog' (length (f_rq f')) \<Longrightarrow> finite_run m' p prog'"
  shows "finite_run m p prog"
proof (rule finite_run_step)
  fix g m' prog'
  assume g: "get_fiber m p = Some g" and st: "continues m g prog m' prog'"
  then show "finite_run m' p prog'"
    using continues_next [OF st g] assms by auto
qed

lemma segment_finite:
  "segment X q prog \<Longrightarrow> get_fiber m p = Some f \<Longrightarrow> length (f_rq f) = q \<Longrightarrow> finite_run m p prog"
proof (induction arbitrary: m f rule: segment.induct)
  case (sg_plain prog p0 q)
  show ?case
  proof (rule finite_run_next [OF sg_plain.prems(1)])
    fix m' f' prog'
    assume f': "get_fiber m' p = Some f'" and "next_call prog (length (f_rq f)) prog' (length (f_rq f'))"
    from this(2) have "plain_next prog prog'" "length (f_rq f') = q"
      by (cases rule: next_call.cases; use sg_plain.hyps(1) sg_plain.prems(2) in \<open>simp add: plain_not\<close>)+
    with sg_plain.IH f' show "finite_run m' p prog'" by blast
  qed
qed (erule finite_run_next, erule next_callE, auto simp: plain_not)+

lemma live_finite:
  assumes "Live_running m p prog"
  shows "finite_run m p prog"
proof -
  obtain f where f: "get_fiber m p = Some f"
    using assms life.running_live [of m p] unfolding Live_running_def by blast
  show ?thesis by (rule segment_finite [OF Live_running_fiber [OF assms f] f refl])
qed

lemma live_quiet:
  assumes "Live m" and "quiet m m'" and "f \<in> set (m_fibers m')"
  shows "rest_polite (f_ctx f)"
  using assms(2)
proof (cases rule: quiet.cases)
  case q_same
  then show ?thesis using assms(1,3) m_private_fields(6) [OF q_same] by (simp add: Live_def)
next
  case (q_defer evs)
  then show ?thesis using assms(1,3) m_private_fields(6) [OF q_defer] by (simp add: Live_def)
next
  case (q_lost r p g)
  then show ?thesis using assms(1,3) m_private_fields(6) [OF q_lost(5)] by (simp add: Live_def)
next
  case (q_queue r p g rr)
  from fibers_put [OF disjI2 [OF q_queue(5)] assms(3)] get_fiber_Some [OF q_queue(2)] assms(1)
  show ?thesis by (auto simp: Live_def rq_put_def)
qed

interpretation live: module_invariant Live Live_running dangling True
proof unfold_locales
  show "Live m'" if "Live m" "quiet m m'" for m m'
    using that life_quiet table_polite_steps(1) live_quiet unfolding Live_def by blast
  show "Live_running m' p prog" if "Live m" "wakes m p m' prog" for m p m' prog
    using that life_wakes table_polite_steps(2) live_wakes [OF that] unfolding Live_def Live_running_def by metis
  show "Live_running m' p prog'" if "Live_running m p prog" "get_fiber m p = Some f"
    "continues m f prog m' prog'" for m p f prog m' prog'
    using that by (rule live_continues)
  show "Live (m'\<lparr>m_current := None\<rparr>)" if "Live_running m p prog" "get_fiber m p = Some f"
    "yields m f prog m'" for m p f prog m'
    using that by (rule live_yields)
  show "get_fiber m p \<noteq> None" if "Live_running m p prog" for m p prog
    using that life.running_live by (simp add: Live_running_def)
  show "dangling m" if "Live m" "pending_find (m_pending m) r = Some p" "get_fiber m p = None" for m r p
    using that pending_find_dangling by blast
  show "f_ctx f \<noteq> Finished" if "Live m" "get_fiber m p = Some f"
    "f_waiting_timer f \<or> f_waiting_reply f \<or> f_waiting_any f" for m p f
    using that life.waiting_entry by (auto simp: Live_def)
  show "unat (m_nr_seq m) \<le> length (m_seqs m)" if "Live m" for m
    using that life.in_table by (simp add: Live_def)
  show "m_next_fptr m \<notin> f_self ` set (m_fibers m)" if "Live m" for m
    using that life.fresh_addr by (simp add: Live_def)
  show "finite_run m p prog" if True "Live_running m p prog" for m p prog
    using that(2) by (rule live_finite)
  show "Live (reap_done m)" if "Live m" for m
    using that life_reap [of m] by (auto simp: Live_def table_polite_def reap_done_def)
  show "life_idle m" if "Live m" for m
    using that by (simp add: Live_def)
qed

end
