(* ===== verification/CoseqText.thy ===== *)
theory CoseqText
  imports CoseqTypes
begin

text \<open>
  Text: strings and the bytes they are sent as, numbers as the \<open>printf\<close> family writes them, the console as
  data that sequences write to, and the lines of the log.
\<close>

section \<open>Strings and bytes\<close>

definition bytes :: "string \<Rightarrow> u8 list" where
  "bytes s = map of_char s"

definition text_of :: "u8 list \<Rightarrow> string" where
  "text_of b = map (\<lambda>x. char_of (unat x)) b"

text \<open>What \<open>%.*s\<close> writes of a buffer: it stops at a null byte.\<close>

definition c_text :: "u8 list \<Rightarrow> string" where
  "c_text b = text_of (takeWhile (\<lambda>x. x \<noteq> 0) b)"

definition nl :: string where
  "nl = [CHR 0x0A]"

lemma bytes_simps:
  "length (bytes s) = length s" "bytes s = [] \<longleftrightarrow> s = []"
  by (simp_all add: bytes_def)

lemma text_bytes: "text_of (bytes s) = s"
proof -
  have "char_of (unat (of_char x :: u8)) = x" for x :: char
  proof -
    have "of_char x = (of_nat (of_char x) :: u8)" by (cases x) simp
    then show ?thesis by (simp add: unat_of_nat take_bit_nat_eq_self del: of_nat_of_char)
  qed
  then show ?thesis by (simp add: text_of_def bytes_def comp_def)
qed

lemma c_text_whole: "0 \<notin> set b \<Longrightarrow> c_text b = text_of b"
proof -
  assume "0 \<notin> set b"
  then have "takeWhile (\<lambda>x. x \<noteq> 0) b = b" by (subst takeWhile_eq_all_conv) auto
  then show ?thesis unfolding c_text_def by (rule arg_cong)
qed

lemma c_text_Nil [simp]: "c_text [] = ''''"
  by (simp add: c_text_def text_of_def)

lemma c_text_bytes:
  assumes "CHR 0x00 \<notin> set s"
  shows "c_text (bytes s) = s"
proof -
  have "of_char x \<noteq> (0 :: u8)" if "x \<noteq> CHR 0x00" for x
  proof
    assume "of_char x = (0 :: u8)"
    then have "char_of (0 :: nat) = x" using text_bytes [of "[x]"] by (simp add: text_of_def bytes_def)
    moreover have "char_of (0 :: nat) = CHR 0x00" by code_simp
    ultimately show False using that by simp
  qed
  then have "0 \<notin> set (bytes s)" using assms unfolding bytes_def by (metis imageE list.set_map)
  then show ?thesis by (simp only: c_text_whole text_bytes not_False_eq_True)
qed

section \<open>Numbers\<close>

fun decimal :: "nat \<Rightarrow> string" where
  "decimal n = (if n < 10 then [char_of (48 + n)] else decimal (n div 10) @ [char_of (48 + n mod 10)])"

declare decimal.simps [simp del]

text \<open>\<open>%d\<close>.\<close>

definition signed_decimal :: "int \<Rightarrow> string" where
  "signed_decimal n = (if n < 0 then ''-'' @ decimal (nat (- n)) else decimal (nat n))"

lemma decimal_length: "n < 10 ^ Suc k \<Longrightarrow> length (decimal n) \<le> Suc k"
proof (induction k arbitrary: n)
  case 0
  then show ?case by (simp add: decimal.simps [of n])
next
  case (Suc k)
  then have "n div 10 < 10 ^ Suc k" by (simp add: div_less_iff_less_mult mult.commute)
  from Suc.IH [OF this] show ?case by (subst decimal.simps) simp
qed

lemma decimal_digits:
  "decimal 0 = ''0''" "decimal 1 = ''1''" "decimal (Suc 0) = ''1''" "decimal 2 = ''2''" "decimal 3 = ''3''"
  "decimal 4 = ''4''" "decimal 5 = ''5''" "decimal 6 = ''6''" "decimal 7 = ''7''" "decimal 8 = ''8''"
  "decimal 9 = ''9''"
  by code_simp+

text \<open>A result code as \<open>%d\<close> prints it.\<close>

definition result_code :: "coseq_result_t \<Rightarrow> nat" where
  "result_code r = (case r of COSEQ_RSLT_IGNORE \<Rightarrow> 0 | COSEQ_RSLT_SUCCESS \<Rightarrow> 1 | COSEQ_RSLT_ERROR \<Rightarrow> 2
     | COSEQ_RSLT_REQ_TIMEOUT \<Rightarrow> 3 | COSEQ_RSLT_SEQ_TIMEOUT \<Rightarrow> 4)"

section \<open>The console\<close>

definition chars :: "string \<Rightarrow> int list" where
  "chars s = map of_char s"

text \<open>A sequence writes to the standard output, which all threads share, and goes on.\<close>

definition put_text :: "string \<Rightarrow> seq_prog \<Rightarrow> seq_prog" where
  "put_text s p = Access (\<lambda>u. u(''stdout'' := u ''stdout'' @ chars s)) (\<lambda>_. p)"

section \<open>The lines of the log\<close>

text \<open>
  The format of each message with its values. What the C library reports is a parameter: \<open>es\<close> is the text
  of \<open>strerror(errno)\<close>, \<open>rc\<close> the code a pthread function has returned.
\<close>

definition STACK_SIZE :: nat where
  "STACK_SIZE = 256 * 1024"

definition in_module :: "int \<Rightarrow> string \<Rightarrow> string" where
  "in_module idx nm = ''module['' @ signed_decimal idx @ ''] '' @ [CHR 0x27] @ nm @ [CHR 0x27]"

primrec format_log :: "string \<Rightarrow> int \<Rightarrow> log_msg \<Rightarrow> string" where
  "format_log es rc Clock_gettime_failed = ''clock_gettime failed: '' @ es"
| "format_log es rc (Post_invalid_module i n) =
     ''post: invalid module_idx='' @ signed_decimal i @ '' (nr_module='' @ signed_decimal n @ '')''"
| "format_log es rc Make_ev_calloc_failed = ''make_ev: calloc failed (event dropped)''"
| "format_log es rc (Make_ev_malloc_failed n) = ''make_ev: malloc('' @ decimal n @ '') failed (message dropped)''"
| "format_log es rc (Pending_add_failed r) =
     ''pending_add: malloc failed (reply for req_id='' @ decimal (unat r) @ '' may be lost)''"
| "format_log es rc (Set_src_realloc_failed n) = ''set_src: realloc('' @ decimal n @ '') failed (message truncated)''"
| "format_log es rc (Ext_deliver_malloc_failed n) =
     ''ext_deliver: malloc('' @ decimal n @ '') failed (reply message dropped)''"
| "format_log es rc New_fiber_calloc_failed = ''new_fiber: calloc failed (sequence not started)''"
| "format_log es rc New_fiber_stack_failed =
     ''new_fiber: stack malloc('' @ decimal STACK_SIZE @ '') failed (sequence not started)''"
| "format_log es rc New_fiber_getcontext_failed = ''new_fiber: getcontext failed: '' @ es"
| "format_log es rc (Handle_reply_calloc_failed r) =
     ''handle_reply: calloc failed (reply for req_id='' @ decimal (unat r) @ '' dropped)''"
| "format_log es rc (Handle_reply_malloc_failed n) =
     ''handle_reply: malloc('' @ decimal n @ '') failed (reply message dropped)''"
| "format_log es rc (Start_invalid_seq i nm s n) =
     in_module i nm @ '': START with invalid seq_idx='' @ decimal (unat s) @ '' (nr_seq='' @ decimal (unat n) @ '')''"
| "format_log es rc Reg_notify_external = ''reg_notify: caller is EXTERNAL (cannot be a listener)''"
| "format_log es rc Reg_notify_malloc_failed = ''reg_notify: malloc failed''"
| "format_log es rc (Setup_too_many n) =
     ''setup: nr_tbl='' @ decimal (unat n) @ '' exceeds MAX_MODULE='' @ decimal MAX_MODULE"
| "format_log es rc (Setup_mutex_failed i) =
     ''setup: pthread_mutex_init['' @ decimal i @ ''] failed: '' @ signed_decimal rc"
| "format_log es rc (Setup_cond_failed i) =
     ''setup: pthread_cond_init['' @ decimal i @ ''] failed: '' @ signed_decimal rc"
| "format_log es rc (Setup_create_failed i) =
     ''setup: pthread_create['' @ decimal i @ ''] failed: '' @ signed_decimal rc @ '' (rolling back)''"
| "format_log es rc (Setup_done n) = ''setup: '' @ decimal (unat n) @ '' modules started''"
| "format_log es rc (Teardown_done n) = ''teardown: '' @ signed_decimal n @ '' modules stopped''"
| "format_log es rc (Request_sync_realloc_failed n) =
     ''request_sync: realloc('' @ decimal n @ '') failed (reply message lost)''"
| "format_log es rc Create_calloc_failed = ''create_coseq: calloc failed''"
| "format_log es rc Create_mutex_failed = ''create_coseq: pthread_mutex_init failed: '' @ signed_decimal rc"
| "format_log es rc Create_cond_failed = ''create_coseq: pthread_cond_init failed: '' @ signed_decimal rc"
| "format_log es rc (Scheduler_started i nm) = in_module i nm @ '' scheduler started''"
| "format_log es rc (Scheduler_stopped i nm) = in_module i nm @ '' scheduler stopped''"

text \<open>\<open>coseq__log\<close> formats into a buffer of 256 bytes and passes it with the format \<open>%s\<close>.\<close>

definition log_line :: "string \<Rightarrow> int \<Rightarrow> log_msg \<Rightarrow> string" where
  "log_line es rc msg = take 255 (format_log es rc msg)"

text \<open>Values that fit the types of the code, with names of at most 180 characters.\<close>

definition int32 :: "int \<Rightarrow> bool" where
  "int32 n \<longleftrightarrow> - (2 ^ 31) \<le> n \<and> n < 2 ^ 31"

definition log_args_ok :: "string \<Rightarrow> int \<Rightarrow> log_msg \<Rightarrow> bool" where
  "log_args_ok es rc msg \<longleftrightarrow> length es \<le> 180 \<and> int32 rc \<and> (case msg of
       Post_invalid_module i n \<Rightarrow> int32 i \<and> int32 n
     | Make_ev_malloc_failed n \<Rightarrow> n < 2 ^ 64
     | Set_src_realloc_failed n \<Rightarrow> n < 2 ^ 64
     | Ext_deliver_malloc_failed n \<Rightarrow> n < 2 ^ 64
     | Handle_reply_malloc_failed n \<Rightarrow> n < 2 ^ 64
     | Start_invalid_seq i nm s n \<Rightarrow> int32 i \<and> length nm \<le> 180
     | Setup_mutex_failed i \<Rightarrow> i < 2 ^ 8
     | Setup_cond_failed i \<Rightarrow> i < 2 ^ 8
     | Setup_create_failed i \<Rightarrow> i < 2 ^ 8
     | Teardown_done n \<Rightarrow> int32 n
     | Request_sync_realloc_failed n \<Rightarrow> n < 2 ^ 64
     | Scheduler_started i nm \<Rightarrow> int32 i \<and> length nm \<le> 180
     | Scheduler_stopped i nm \<Rightarrow> int32 i \<and> length nm \<le> 180
     | _ \<Rightarrow> True)"

lemma decimal_lengths:
  "n < 2 ^ 8 \<Longrightarrow> length (decimal n) \<le> 3" "n < 2 ^ 64 \<Longrightarrow> length (decimal n) \<le> 20"
  "length (decimal (unat (b :: u8))) \<le> 3" "length (decimal (unat (r :: u32))) \<le> 10"
  "length (decimal STACK_SIZE) \<le> 6" "length (decimal MAX_MODULE) \<le> 2"
  "int32 i \<Longrightarrow> length (signed_decimal i) \<le> 11"
proof -
  show "length (decimal n) \<le> 3" if "n < 2 ^ 8" using decimal_length [of n 2] that by simp
  show "length (decimal n) \<le> 20" if "n < 2 ^ 64" using decimal_length [of n 19] that by simp
  show "length (decimal (unat b)) \<le> 3" using decimal_length [of "unat b" 2] unsigned_less [of b, where ?'a = nat] by simp
  show "length (decimal (unat r)) \<le> 10" using decimal_length [of "unat r" 9] unsigned_less [of r, where ?'a = nat] by simp
  show "length (decimal STACK_SIZE) \<le> 6" using decimal_length [of STACK_SIZE 5] by (simp add: STACK_SIZE_def)
  show "length (decimal MAX_MODULE) \<le> 2" using decimal_length [of MAX_MODULE 1] by (simp add: MAX_MODULE_def)
  show "length (signed_decimal i) \<le> 11" if i: "int32 i"
  proof (cases "i < 0")
    case True
    then have "length (decimal (nat (- i))) \<le> 10" using decimal_length [of "nat (- i)" 9] i by (simp add: int32_def)
    then show ?thesis using True by (simp add: signed_decimal_def)
  next
    case False
    then have "length (decimal (nat i)) \<le> 10" using decimal_length [of "nat i" 9] i by (simp add: int32_def)
    then show ?thesis using False by (simp add: signed_decimal_def)
  qed
qed

text \<open>
  C31: No line of the log is cut. When the numbers are in the ranges of their types and the names of the
  modules and the texts of the C library have at most 180 characters, every message fits with its values in
  the buffer of 256 bytes in which \<open>coseq__log\<close> formats it, so the callback gets the whole line.
\<close>

theorem log_lines_fit:
  assumes "log_args_ok es rc msg"
  shows "log_line es rc msg = format_log es rc msg"
proof -
  note d = decimal_lengths
  have "length (in_module i nm) \<le> 22 + length nm" if "int32 i" for i nm
    using d(7) [OF that] by (simp add: in_module_def)
  note d = this d
  have "length (format_log es rc msg) \<le> 255"
  proof (cases msg)
    case (Post_invalid_module i n)
    then show ?thesis using assms d(8) [of i] d(8) [of n] by (simp add: log_args_ok_def)
  next
    case (Start_invalid_seq i nm s n)
    then show ?thesis using assms d(1) [of i nm] d(4) [of s] d(4) [of n] by (simp add: log_args_ok_def)
  next
    case (Setup_mutex_failed i)
    then show ?thesis using assms d(2) [of i] d(8) [of rc] by (simp add: log_args_ok_def)
  next
    case (Setup_cond_failed i)
    then show ?thesis using assms d(2) [of i] d(8) [of rc] by (simp add: log_args_ok_def)
  next
    case (Setup_create_failed i)
    then show ?thesis using assms d(2) [of i] d(8) [of rc] by (simp add: log_args_ok_def)
  next
    case (Pending_add_failed r)
    then show ?thesis using d(5) [of r] by simp
  next
    case (Handle_reply_calloc_failed r)
    then show ?thesis using d(5) [of r] by simp
  next
    case (Make_ev_malloc_failed n)
    then show ?thesis using assms d(3) [of n] by (simp add: log_args_ok_def)
  next
    case (Set_src_realloc_failed n)
    then show ?thesis using assms d(3) [of n] by (simp add: log_args_ok_def)
  next
    case (Ext_deliver_malloc_failed n)
    then show ?thesis using assms d(3) [of n] by (simp add: log_args_ok_def)
  next
    case (Handle_reply_malloc_failed n)
    then show ?thesis using assms d(3) [of n] by (simp add: log_args_ok_def)
  next
    case (Request_sync_realloc_failed n)
    then show ?thesis using assms d(3) [of n] by (simp add: log_args_ok_def)
  next
    case (Setup_too_many n)
    then show ?thesis using d(4) [of n] d(7) by simp
  next
    case (Setup_done n)
    then show ?thesis using d(4) [of n] by simp
  next
    case (Teardown_done n)
    then show ?thesis using assms d(8) [of n] by (simp add: log_args_ok_def)
  next
    case (Scheduler_started i nm)
    then show ?thesis using assms d(1) [of i nm] by (simp add: log_args_ok_def)
  next
    case (Scheduler_stopped i nm)
    then show ?thesis using assms d(1) [of i nm] by (simp add: log_args_ok_def)
  qed (use assms d(6) d(8) [of rc] in \<open>simp_all add: log_args_ok_def\<close>)
  then show ?thesis by (simp add: log_line_def)
qed

lemma log_lines_fit_witness:
  "log_line '''' 0 (Start_invalid_seq 2 ''ModuleC'' 9 3) =
    ''module[2] '' @ [CHR 0x27] @ ''ModuleC'' @ [CHR 0x27] @ '': START with invalid seq_idx=9 (nr_seq=3)''"
proof -
  have "decimal 9 = [CHR 0x39]" "decimal 3 = [CHR 0x33]" "decimal 2 = [CHR 0x32]" by (simp_all add: decimal_digits)
  then show ?thesis
    by (subst log_lines_fit) (simp_all add: log_args_ok_def int32_def in_module_def signed_decimal_def)
qed

end
