(* ===== verification/CoseqSample.thy ===== *)
theory CoseqSample
  imports CoseqAccounting CoseqLive CoseqText
begin

text \<open>
  The sample program \<open>samples/sample.c\<close>: its sequences as trees of calls and its registration table.
  What they print goes to the console. \<open>a_fanout\<close> reads the result of \<open>coseq_wait_reply\<close> without looking
  for a null pointer; the null branch, which ends the sequence here, is never taken because two
  replies are outstanding.
\<close>

section \<open>Gathering with a callback that writes\<close>

text \<open>
  \<open>coseq_gather\<close> with a callback that writes a line to the console for each reply: the callback runs between
  two calls of \<open>coseq_wait_reply\<close>. \<open>got\<close> is the reply it is about to be called for.
\<close>

primcorec gather_writing :: "(coseq_src_t \<Rightarrow> string) \<Rightarrow> (coseq_src_t \<Rightarrow> 'u \<Rightarrow> 'u) \<Rightarrow> coseq_src_t option \<Rightarrow> 'u \<Rightarrow> int \<Rightarrow>
    (int \<Rightarrow> 'u \<Rightarrow> seq_prog) \<Rightarrow> seq_prog" where
  "gather_writing line cb got user n k =
     (case got of
        None \<Rightarrow> Wait_reply (\<lambda>r. case r of None \<Rightarrow> k n user | Some s \<Rightarrow> gather_writing line cb (Some s) user n k)
      | Some s \<Rightarrow> Access (\<lambda>u. u(''stdout'' := u ''stdout'' @ chars (line s)))
          (\<lambda>_. gather_writing line cb None (cb s user) (n + 1) k))"

lemma gather_writing_code:
  "gather_writing line cb None u n k =
     Wait_reply (\<lambda>r. case r of None \<Rightarrow> k n u | Some s \<Rightarrow> gather_writing line cb (Some s) u n k)"
  "gather_writing line cb (Some s) u n k = put_text (line s) (gather_writing line cb None (cb s u) (n + 1) k)"
  unfolding put_text_def by (subst gather_writing.code, simp)+

lemma put_text_simps [simp]:
  "collects n (put_text s p) \<longleftrightarrow> collects n p" "polite (put_text s p) \<longleftrightarrow> polite p"
  "segment X q (put_text s p) \<longleftrightarrow> segment X q p"
  by (simp_all add: put_text_def)

lemma step_put_text [eval_defs]:
  "api_step c i f (put_text s p) =
     Continue (c\<lparr>user_mem := (user_mem c)(''stdout'' := user_mem c ''stdout'' @ chars s)\<rparr>) p"
  by (simp add: put_text_def)

lemma collects_gather_writing:
  assumes "\<And>m u. collects 0 (k m u)"
  shows "n \<ge> 0 \<Longrightarrow> collects n (gather_writing line cb got u j k)"
proof (coinduction arbitrary: n got u j rule: collects.coinduct)
  case collects
  then have n: "0 \<le> n" by simp
  show ?case
  proof (cases got)
    case None
    have rest: "\<exists>n' got' u' j'. n - 1 = n' \<and> gather_writing line cb (Some s) u j k = gather_writing line cb got' u' j' k \<and> 0 \<le> n'" if "0 < n" for s
      by (rule exI [of _ "n - 1"], rule exI [of _ "Some s"]) (use that in auto)
    show ?thesis unfolding None gather_writing_code(1) by (simp add: assms) (use rest in blast)
  next
    case (Some s)
    have "\<exists>n' got' u' j'. n = n' \<and> gather_writing line cb None (cb s u) (j + 1) k = gather_writing line cb got' u' j' k \<and> 0 \<le> n'"
      by (rule exI [of _ n], rule exI [of _ None]) (use n in auto)
    then show ?thesis unfolding Some gather_writing_code(2) put_text_def by simp
  qed
qed

lemma polite_gather_writing:
  assumes "\<And>m u. polite (k m u)"
  shows "polite (gather_writing line cb got u n k)"
proof (coinduction arbitrary: got u n)
  case polite
  let ?X = "\<lambda>p. (\<exists>got u n. p = gather_writing line cb got u n k) \<or> polite p"
  have "segment polite q p \<longrightarrow> segment ?X q p" for q p
    by (rule segment_mono) auto
  then have k: "segment ?X q (k m u)" for q m u
    using polite_segment [OF assms] by blast
  have "segment ?X q (gather_writing line cb None u n k)" for q u n
  proof (induction q arbitrary: u n)
    case 0
    show ?case by (subst gather_writing_code) (simp add: k, blast)
  next
    case (Suc q)
    show ?case by (subst gather_writing_code) (simp add: k gather_writing_code(2) Suc, blast intro: gather_writing_code(2) [symmetric])
  qed
  then have "segment ?X q (gather_writing line cb got u n k)" for q
    by (cases got) (simp_all add: gather_writing_code(2))
  then show ?case by blast
qed

section \<open>Module A\<close>

definition MOD_A :: u8 where "MOD_A = 0"
definition MOD_B :: u8 where "MOD_B = 1"
definition MOD_C :: u8 where "MOD_C = 2"

definition A_ECHO :: u8 where "A_ECHO = 0"
definition A_CHAIN :: u8 where "A_CHAIN = 1"
definition B_CHAIN :: u8 where "B_CHAIN = 0"
definition B_SLOW :: u8 where "B_SLOW = 1"
definition C_REGISTER :: u8 where "C_REGISTER = 1"
definition C_WORK :: u8 where "C_WORK = 2"
definition NOTIFY_CAT_1 :: u8 where "NOTIFY_CAT_1 = 0"

lemmas sample_ids = MOD_A_def MOD_B_def MOD_C_def A_ECHO_def A_CHAIN_def B_CHAIN_def B_SLOW_def
  C_REGISTER_def C_WORK_def NOTIFY_CAT_1_def

text \<open>The lines the sequences write.\<close>

definition chain_asks :: string where
  "chain_asks = ''[A::chain] lock + request B::chain'' @ nl"

definition chain_got :: "coseq_result_t \<Rightarrow> string" where
  "chain_got res = ''[A::chain] reply from B ['' @ decimal (result_code (res)) @ '']'' @ nl"

definition sub_asks :: string where
  "sub_asks = ''[A::sub] request C::register (subscribe NOTIFY_CAT_1)'' @ nl"

definition sub_got :: "u8 \<Rightarrow> string" where
  "sub_got client_id = ''[A::sub] subscribed. client_id='' @ decimal (unat client_id) @ nl"

definition reqto_asks :: string where
  "reqto_asks = ''[A::reqto] request_timeout B::slow (timeout 100ms, B takes 300ms)'' @ nl"

definition reqto_got :: "coseq_result_t \<Rightarrow> string" where
  "reqto_got res = ''[A::reqto] result ['' @ decimal (result_code (res)) @ ''] ('' @
     (if res = COSEQ_RSLT_REQ_TIMEOUT then ''REQ_TIMEOUT'' else ''other'') @ '')'' @ nl"

definition fanout_fired :: "u32 \<Rightarrow> u32 \<Rightarrow> string" where
  "fanout_fired id_b id_c = ''[A::fanout] fired B(id='' @ decimal (unat id_b) @ '') & C(id='' @
     decimal (unat id_c) @ ''), gather...'' @ nl"

definition fanout_got :: "u32 \<Rightarrow> u32 \<Rightarrow> u32 \<Rightarrow> coseq_result_t \<Rightarrow> string" where
  "fanout_got id_b id_c rid res =
     (let who = (if rid = id_b then ''B::slow'' else if rid = id_c then ''C::work'' else ''?'')
      in ''[A::fanout] got id='' @ decimal (unat rid) @ '' ('' @ who @ '') result='' @ decimal (result_code res) @ nl)"

definition gather_got :: "u32 \<Rightarrow> coseq_result_t \<Rightarrow> string" where
  "gather_got rid res = ''[A::gather] reply id='' @ decimal (unat rid) @ '' result='' @ decimal (result_code res) @ nl"

definition gather_cb_line :: "coseq_src_t \<Rightarrow> string" where
  "gather_cb_line r = gather_got (s_req_id r) (s_result r)"

definition gather_done :: "int \<Rightarrow> string" where
  "gather_done n = ''[A::gather] all '' @ signed_decimal n @ '' replies gathered'' @ nl"

definition recv_line :: "u8 \<Rightarrow> u8 list \<Rightarrow> string" where
  "recv_line client_id msg = ''    [A::recv_notify] client_id='' @ decimal (unat client_id) @ '' msg=['' @
     c_text msg @ '']'' @ nl"

definition b_chain_asks :: string where
  "b_chain_asks = ''  [B::chain] request C::work'' @ nl"

definition b_chain_got :: "coseq_result_t \<Rightarrow> string" where
  "b_chain_got res = ''  [B::chain] reply from C ['' @ decimal (result_code (res)) @ '']'' @ nl"

text \<open>The sequences.\<close>

definition a_echo :: seq_prog where
  "a_echo = Source (\<lambda>s. Reply COSEQ_RSLT_SUCCESS (Some (s_msg s)) (length (s_msg s)) Return)"

definition a_chain :: seq_prog where
  "a_chain = put_text chain_asks (Lock (Request MOD_B B_CHAIN None 0 (\<lambda>r.
     Unlock (put_text (chain_got (s_result r)) (Reply COSEQ_RSLT_SUCCESS None 0 Return)))))"

definition a_sub :: seq_prog where
  "a_sub = put_text sub_asks (Request MOD_C C_REGISTER None 0 (\<lambda>r.
     let client_id = (case s_msg r of [] \<Rightarrow> 0xff | b # _ \<Rightarrow> b)
     in put_text (sub_got client_id) (Reply COSEQ_RSLT_SUCCESS None 0 Return)))"

definition a_reqto :: seq_prog where
  "a_reqto = put_text reqto_asks (Request_timeout MOD_B B_SLOW None 0 100 (\<lambda>r.
     put_text (reqto_got (s_result r)) (Reply COSEQ_RSLT_SUCCESS None 0 Return)))"

definition a_fanout :: seq_prog where
  "a_fanout = Request_async MOD_B B_SLOW None 0 (\<lambda>id_b. Request_async MOD_C C_WORK None 0 (\<lambda>id_c.
     put_text (fanout_fired id_b id_c) (Wait_reply (\<lambda>r1. case r1 of
         None \<Rightarrow> Return
       | Some s1 \<Rightarrow> put_text (fanout_got id_b id_c (s_req_id s1) (s_result s1)) (Wait_reply (\<lambda>r2. case r2 of
             None \<Rightarrow> Return
           | Some s2 \<Rightarrow> put_text (fanout_got id_b id_c (s_req_id s2) (s_result s2)) (Reply COSEQ_RSLT_SUCCESS None 0 Return)))))))"

text \<open>\<open>gather_cb\<close> counts the replies behind its \<open>user\<close> pointer and writes \<open>gather_cb_line\<close> for each.\<close>

definition gather_cb :: "coseq_src_t \<Rightarrow> int \<Rightarrow> int" where
  "gather_cb r cnt = cnt + 1"

definition a_gather :: seq_prog where
  "a_gather = Request_async MOD_B B_SLOW None 0 (\<lambda>_. Request_async MOD_C C_WORK None 0 (\<lambda>_.
     gather_writing gather_cb_line gather_cb None 0 0 (\<lambda>n cnt.
       put_text (gather_done n) (Reply COSEQ_RSLT_SUCCESS None 0 Return))))"

definition a_recv_notify :: seq_prog where
  "a_recv_notify = Source (\<lambda>s. put_text (recv_line (s_client_id s) (s_msg s)) Return)"

section \<open>Modules B and C\<close>

definition b_chain :: seq_prog where
  "b_chain = put_text b_chain_asks (Request MOD_C C_WORK None 0 (\<lambda>r.
     put_text (b_chain_got (s_result r)) (Reply COSEQ_RSLT_SUCCESS None 0 Return)))"

definition b_slow :: seq_prog where
  "b_slow = Wait_timeout 300 (Reply COSEQ_RSLT_SUCCESS None 0 Return)"

text \<open>\<open>snprintf\<close> of the count.\<close>

definition notify_text :: "nat \<Rightarrow> u8 list" where
  "notify_text n = map of_char (''notify #'' @ decimal n)"

text \<open>The loop of \<open>c_loop\<close> after \<open>n\<close> rounds; \<open>fired\<close> tells whether its timer has just fired.\<close>

primcorec c_loop_round :: "bool \<Rightarrow> nat \<Rightarrow> seq_prog" where
  "c_loop_round fired n =
     (if \<not> fired then Wait_timeout 300 (c_loop_round True n)
      else Notify NOTIFY_CAT_1 (Some (notify_text (n + 1))) (length (notify_text (n + 1)))
             (\<lambda>_. c_loop_round False (n + 1)))"

definition c_loop :: seq_prog where
  "c_loop = Reply COSEQ_RSLT_SUCCESS None 0 (c_loop_round False 0)"

definition c_register :: seq_prog where
  "c_register = Reg_notify NOTIFY_CAT_1 (\<lambda>r. case r of
       Some client_id \<Rightarrow> Reply COSEQ_RSLT_SUCCESS (Some [client_id]) 1 Return
     | None \<Rightarrow> Reply COSEQ_RSLT_ERROR None 0 Return)"

definition c_work :: seq_prog where
  "c_work = Wait_timeout 100 (Reply COSEQ_RSLT_SUCCESS None 0 Return)"

section \<open>The registration table\<close>

definition seq_entry :: "seq_prog \<Rightarrow> string \<Rightarrow> coseq_seq_t" where
  "seq_entry fn nm = \<lparr>sq_fn = fn, sq_name = nm\<rparr>"

definition a_seqs :: "coseq_seq_t list" where
  "a_seqs = [seq_entry a_echo ''echo'', seq_entry a_chain ''chain'', seq_entry a_sub ''sub'',
     seq_entry a_reqto ''reqto'', seq_entry a_fanout ''fanout'', seq_entry a_gather ''gather'']"

definition b_seqs :: "coseq_seq_t list" where
  "b_seqs = [seq_entry b_chain ''chain'', seq_entry b_slow ''slow'']"

definition c_seqs :: "coseq_seq_t list" where
  "c_seqs = [seq_entry c_loop ''loop'', seq_entry c_register ''register'', seq_entry c_work ''work'']"

definition sample_tbl :: "coseq_reg_t list" where
  "sample_tbl =
     [\<lparr>r_name = Some ''ModuleA'', r_nr_que_max = 10, r_seq_array = a_seqs, r_nr_seq_max = 6,
       r_recv_notify = Some a_recv_notify, r_user = 0\<rparr>,
      \<lparr>r_name = Some ''ModuleB'', r_nr_que_max = 10, r_seq_array = b_seqs, r_nr_seq_max = 2,
       r_recv_notify = None, r_user = 0\<rparr>,
      \<lparr>r_name = Some ''ModuleC'', r_nr_que_max = 10, r_seq_array = c_seqs, r_nr_seq_max = 3,
       r_recv_notify = None, r_user = 0\<rparr>]"

lemmas sample_tables = sample_tbl_def a_seqs_def b_seqs_def c_seqs_def seq_entry_def

section \<open>The sample collects its replies\<close>

lemma c_loop_collects: "collects 0 (c_loop_round fired n)"
proof (coinduction arbitrary: fired n rule: collects.coinduct)
  case collects
  have eq: "c_loop_round fired n =
      (if \<not> fired then Wait_timeout 300 (c_loop_round True n)
       else Notify NOTIFY_CAT_1 (Some (notify_text (n + 1))) (length (notify_text (n + 1)))
         (\<lambda>_. c_loop_round False (n + 1)))"
    by (rule c_loop_round.code)
  show ?case
  proof (cases fired)
    case True
    with eq have "c_loop_round fired n = Notify NOTIFY_CAT_1 (Some (notify_text (n + 1)))
        (length (notify_text (n + 1))) (\<lambda>_. c_loop_round False (n + 1))" by simp
    then show ?thesis by simp blast
  next
    case False
    with eq have "c_loop_round fired n = Wait_timeout 300 (c_loop_round True n)" by simp
    then show ?thesis by simp blast
  qed
qed

section \<open>The sample is polite\<close>

lemma c_loop_simps:
  "c_loop_round False n = Wait_timeout 300 (c_loop_round True n)"
  "c_loop_round True n = Notify NOTIFY_CAT_1 (Some (notify_text (n + 1))) (length (notify_text (n + 1)))
     (\<lambda>_. c_loop_round False (n + 1))"
  by (subst c_loop_round.code, simp only: not_False_eq_True not_True_eq_False if_True if_False)+

lemma c_loop_polite: "polite (c_loop_round fired n)"
proof (coinduction arbitrary: fired n)
  case polite
  let ?X = "\<lambda>p. (\<exists>fired n. p = c_loop_round fired n) \<or> polite p"
  have wait: "segment ?X q (c_loop_round False m)" for q m
    by (subst c_loop_simps(1), rule sg_timeout) blast
  have "segment ?X q (c_loop_round True m)" for q m
    by (subst c_loop_simps(2), subst segment_plain_simps) (blast intro: wait)
  with wait have "segment ?X q (c_loop_round fired m)" for q m by (cases fired) simp_all
  then show ?case by blast
qed

lemma sample_polite:
  "polite a_echo" "polite a_chain" "polite a_sub" "polite a_reqto" "polite a_fanout" "polite a_gather"
  "polite a_recv_notify" "polite b_chain" "polite b_slow" "polite c_loop" "polite c_register" "polite c_work"
  by (simp_all add: a_echo_def a_chain_def a_sub_def a_reqto_def a_fanout_def a_gather_def
      a_recv_notify_def b_chain_def b_slow_def c_loop_def c_register_def c_work_def
      c_loop_polite polite_gather_writing Let_def split: option.split)

lemma sample_collects:
  "collects 0 a_echo" "collects 0 a_chain" "collects 0 a_sub" "collects 0 a_reqto"
  "collects 0 a_fanout" "collects 0 a_gather" "collects 0 a_recv_notify" "collects 0 b_chain"
  "collects 0 b_slow" "collects 0 c_loop" "collects 0 c_register" "collects 0 c_work"
  by (simp_all add: a_echo_def a_chain_def a_sub_def a_reqto_def a_fanout_def a_gather_def
      a_recv_notify_def b_chain_def b_slow_def c_loop_def c_register_def c_work_def
      c_loop_collects collects_gather_writing Let_def split: option.split)

end
