(* ===== verification/CoseqSystem.thy ===== *)
theory CoseqSystem
  imports CoseqInstance CoseqSample "HOL-Library.Multiset"
begin

text \<open>
  The instance as a transition system. A step is one turn of some module's scheduler, or what a thread
  outside the modules does between acquiring and releasing \<open>ext_mtx\<close>. A turn counts as happening when it
  takes its inbox. Turns of two modules may overlap, so an event that counts as posted may not be in the
  inbox yet when a turn takes it, and events of different senders may arrive in another order than
  that of the turns that post them: a turn finds any part of what has been posted, of each module in
  the order of its posts (\<open>arrived\<close>). A caller passes a buffer that holds as many bytes as it says.
  \<open>_teardown\<close> ends a run and is not a step. The module invariants hold in every reachable state, which
  gives the properties of the whole program.
\<close>

section \<open>Steps\<close>

text \<open>
  Of the events \<open>xs\<close> posted to a module, \<open>evs\<close> are in the inbox when its scheduler takes it, in this
  order, and \<open>late\<close> come while the turn runs. Every event names its sender as its requester. The posts of
  a module keep their order; those of \<open>EXTERNAL\<close> are from any number of threads, which post after they
  have released \<open>ext_mtx\<close>, and may come in any order.
\<close>

definition arrived :: "ev_t list \<Rightarrow> ev_t list \<Rightarrow> ev_t list \<Rightarrow> bool" where
  "arrived xs evs late \<longleftrightarrow> mset (evs @ late) = mset xs \<and>
     (\<forall>e \<in> set xs. e_requester e \<noteq> EXTERNAL \<longrightarrow>
       [d \<leftarrow> evs @ late. e_requester d = e_requester e] = [d \<leftarrow> xs. e_requester d = e_requester e])"

lemma arrived_all [simp]: "arrived xs xs []"
  by (simp add: arrived_def)

lemma arrived_set: "arrived xs evs late \<Longrightarrow> set evs \<union> set late = set xs"
  unfolding arrived_def by (metis mset_eq_setD set_append)

definition set_inbox :: "nat \<Rightarrow> ev_t list \<Rightarrow> coseq_ctx_private \<Rightarrow> coseq_ctx_private" where
  "set_inbox i evs c = set_mod i ((get_mod c i)\<lparr>m_inbox := evs\<rparr>) c"

lemma set_inbox_same [simp]: "set_inbox i (m_inbox (get_mod c i)) c = c"
  by (simp add: set_inbox_def set_mod_def get_mod_def)

inductive sys_step :: "coseq_ctx_private \<Rightarrow> coseq_ctx_private \<Rightarrow> bool" where
  turn: "valid_mod c i \<Longrightarrow> m_th_started (get_mod c i) \<Longrightarrow> arrived (m_inbox (get_mod c i)) evs late \<Longrightarrow>
    sched_iter i (set_inbox i evs c) = ok (b, c1) \<Longrightarrow> sys_step c (set_inbox i (late @ m_inbox (get_mod c1 i)) c1)"
| sync_begin: "request_sync_begin c mi si msg n en = (rid, c', en') \<Longrightarrow> readable msg n \<Longrightarrow> sys_step c c'"
| sync_end: "ext_ready c \<Longrightarrow> request_sync_end c t rid mi si en = (t', c', en') \<Longrightarrow> sys_step c c'"
| async: "request_async c mi si msg n en = (c', en') \<Longrightarrow> readable msg n \<Longrightarrow> sys_step c c'"

text \<open>The states of an instance whose \<open>setup\<close> has accepted the table.\<close>

inductive reachable :: "coseq_reg_t list \<Rightarrow> coseq_ctx_private \<Rightarrow> bool" for tbl where
  start: "coseq_setup fresh_ctx tbl nr envs en = (True, c, en') \<Longrightarrow> length tbl = unat nr \<Longrightarrow> reachable tbl c"
| more: "reachable tbl c \<Longrightarrow> sys_step c c' \<Longrightarrow> reachable tbl c'"

inductive_cases sys_stepE: "sys_step c c'"

text \<open>A turn that overlaps with no other finds everything that has been posted.\<close>

lemma sys_turn:
  assumes "valid_mod c i" and "m_th_started (get_mod c i)" and "sched_iter i c = ok (b, c')"
  shows "sys_step c c'"
  using sys_step.turn [OF assms(1,2) arrived_all, of b c'] assms(3) by simp

text \<open>A table whose entries give the true lengths of their arrays.\<close>

definition table_wf :: "coseq_reg_t list \<Rightarrow> bool" where
  "table_wf tbl \<longleftrightarrow> (\<forall>r \<in> set tbl. unat (r_nr_seq_max r) \<le> length (r_seq_array r))"

definition collecting_table :: "coseq_reg_t list \<Rightarrow> bool" where
  "collecting_table tbl \<longleftrightarrow> (\<forall>r \<in> set tbl.
     (\<forall>sq \<in> set (r_seq_array r). collects 0 (sq_fn sq)) \<and>
     (\<forall>fn. r_recv_notify r = Some fn \<longrightarrow> collects 0 fn))"

definition polite_table :: "coseq_reg_t list \<Rightarrow> bool" where
  "polite_table tbl \<longleftrightarrow> (\<forall>r \<in> set tbl.
     (\<forall>sq \<in> set (r_seq_array r). polite (sq_fn sq)) \<and>
     (\<forall>fn. r_recv_notify r = Some fn \<longrightarrow> polite fn))"

section \<open>What outside threads may do\<close>

definition all_grow :: "coseq_ctx_private \<Rightarrow> coseq_ctx_private \<Rightarrow> bool" where
  "all_grow c c' \<longleftrightarrow> length (modules c') = length (modules c) \<and> nr_module c' = nr_module c \<and>
     (\<forall>j. inbox_grows (get_mod c j) (get_mod c' j))"

lemma all_grow_post:
  assumes "nr_ok c1" and "modules c1 = modules c" and "nr_module c1 = nr_module c"
    and "post c1 dest eo en = (c', en')"
  shows "all_grow c c'"
proof -
  have "get_mod c1 j = get_mod c j" for j using assms(2) by (simp add: get_mod_def)
  then show ?thesis
    using post_effect(1-3) [OF assms(1,4)] assms(2,3) by (simp add: all_grow_def)
qed

lemma request_sync_begin_grows:
  assumes "nr_ok c" and "request_sync_begin c mi si msg n en = (rid, c', en')"
  shows "all_grow c c'"
proof -
  let ?c1 = "c\<lparr>ext_id := ext_id c + 1, ext_wait_rid := ext_id c, ext_ready := False\<rparr>"
  let ?made = "make_ev EV_START si (ext_id c) EXTERNAL COSEQ_RSLT_IGNORE msg n en"
  have "post ?c1 (uint mi) (fst ?made) (snd ?made) = (c', en')"
    using assms(2) by (auto simp: request_sync_begin_def Let_def split_def)
  then show ?thesis by (rule all_grow_post [rotated 3]) (use assms(1) in \<open>simp_all add: nr_ok_def\<close>)
qed

lemma request_async_grows:
  assumes "nr_ok c" and "request_async c mi si msg n en = (c', en')"
  shows "all_grow c c'"
proof -
  let ?c1 = "c\<lparr>ext_id := ext_id c + 1\<rparr>"
  let ?made = "make_ev EV_START si (ext_id c) EXTERNAL COSEQ_RSLT_IGNORE msg n en"
  have "post ?c1 (uint mi) (fst ?made) (snd ?made) = (c', en')"
    using assms(2) by (auto simp: request_async_def Let_def split_def)
  then show ?thesis by (rule all_grow_post [rotated 3]) (use assms(1) in \<open>simp_all add: nr_ok_def\<close>)
qed

lemma request_sync_end_grows:
  assumes "request_sync_end c t rid mi si en = (t', c', en')"
  shows "all_grow c c'"
proof -
  have "modules c' = modules c \<and> nr_module c' = nr_module c"
    using assms by (auto simp: request_sync_end_def Let_def split_def split: if_splits)
  then show ?thesis by (simp add: all_grow_def get_mod_def)
qed

section \<open>Invariants of all modules\<close>

context module_invariant
begin

definition sys_inv :: "coseq_ctx_private \<Rightarrow> bool" where
  "sys_inv c \<longleftrightarrow> nr_ok c \<and> (\<forall>i < length (modules c). Q (get_mod c i))"

lemma Q_grows: "Q m \<Longrightarrow> inbox_grows m m' \<Longrightarrow> Q m'"
  unfolding inbox_grows_def by (elim exE) (rule quiet_Q [OF _ q_same], simp_all)

lemma sys_inv_grows: "sys_inv c \<Longrightarrow> all_grow c c' \<Longrightarrow> sys_inv c'"
  unfolding sys_inv_def all_grow_def nr_ok_def using Q_grows by metis

lemma set_inbox_Q: "Q (get_mod c i) \<Longrightarrow> valid_mod c i \<Longrightarrow> Q (get_mod (set_inbox i evs c) i)"
  by (rule quiet_Q [OF _ q_same]) (simp_all add: set_inbox_def m_private_def)

lemma turn_spec:
  assumes "Q (get_mod c i)" and "nr_ok c" and "valid_mod c i" and "sched_iter i (set_inbox i evs c) = ok (b, c1)"
  shows "step_frame i c (set_inbox i late c1)" and "Q (get_mod (set_inbox i late c1) i)"
proof -
  have a: "step_frame i c (set_inbox i evs c)"
    using assms(3) by (simp add: set_inbox_def step_frame_set_mod)
  then have "step_frame i (set_inbox i evs c) c1" and q: "Q (get_mod c1 i)"
    using sched_iter_spec [OF set_inbox_Q [OF assms(1,3)]] step_frame_nr_ok [OF a assms(2)] assms(3,4)
    by (simp_all add: set_inbox_def)
  with a have f: "step_frame i c c1" by (blast intro: step_frame_trans)
  then have v: "valid_mod c1 i" using step_frame_length [OF f] assms(3) by simp
  then have "step_frame i c1 (set_inbox i late c1)" by (simp add: set_inbox_def step_frame_set_mod)
  with f show "step_frame i c (set_inbox i late c1)" by (rule step_frame_trans)
  show "Q (get_mod (set_inbox i late c1) i)" by (rule set_inbox_Q [OF q v])
qed

lemma sys_inv_step:
  assumes "sys_inv c" and "sys_step c c'"
  shows "sys_inv c'"
proof -
  have nr: "nr_ok c" using assms(1) by (simp add: sys_inv_def)
  from assms(2) show ?thesis
  proof (cases rule: sys_step.cases)
    case (turn i evs late b c1)
    have q: "Q (get_mod c i)" "nr_ok c" using assms(1) turn(2) by (simp_all add: sys_inv_def)
    have st: "step_frame i c c'" and qi: "Q (get_mod c' i)"
      unfolding turn(1) by (rule turn_spec [OF q turn(2,5)])+
    have "Q (get_mod c' j)" if "j < length (modules c')" for j
    proof (cases "j = i")
      case False
      then have "inbox_grows (get_mod c j) (get_mod c' j)"
        using st by (simp add: step_frame_def others_grow_def)
      moreover have "Q (get_mod c j)"
        using assms(1) that step_frame_length [OF st] by (simp add: sys_inv_def)
      ultimately show ?thesis using Q_grows by blast
    qed (use qi in simp)
    then show ?thesis using step_frame_nr_ok [OF st q(2)] by (simp add: sys_inv_def)
  next
    case (sync_begin mi si msg n en rid en')
    show ?thesis by (rule sys_inv_grows [OF assms(1) request_sync_begin_grows [OF nr sync_begin(1)]])
  next
    case (sync_end t rid mi si en t' en')
    show ?thesis by (rule sys_inv_grows [OF assms(1) request_sync_end_grows [OF sync_end(2)]])
  next
    case (async mi si msg n en en')
    show ?thesis by (rule sys_inv_grows [OF assms(1) request_async_grows [OF nr async(1)]])
  qed
qed

lemma reachable_inv:
  assumes "reachable tbl c" and "Q zero_module"
    and "\<And>i en. i < length tbl \<Longrightarrow> Q (booted i (tbl ! i) en)"
  shows "sys_inv c"
  using assms(1)
proof induction
  case (start nr envs en c en')
  note ok = coseq_setup_ok [OF start]
  have "unat nr \<le> MAX_MODULE"
    using start(1) by (auto simp: coseq_setup_def split: if_splits)
  then have "nr_ok c" unfolding nr_ok_def ok(1,2) [OF fresh_ctx_simps(1)]
    by (metis of_nat_mono uint_nat)
  moreover have "Q (get_mod c i)" if "i < length (modules c)" for i
    using that ok(2,4) [OF fresh_ctx_simps(1)] assms(2,3) start(2) by simp
  ultimately show ?case by (simp add: sys_inv_def)
next
  case (more c c')
  then show ?case using sys_inv_step by blast
qed

end

section \<open>Every reachable state\<close>

lemma life_zero: "life_idle zero_module"
  by (simp add: life_idle_def addr_ok_def lock_ok_def table_ok_def zero_module_def)

lemma life_booted:
  "table_wf tbl \<Longrightarrow> i < length tbl \<Longrightarrow> life_idle (booted i (tbl ! i) en)"
  by (simp add: life_idle_def addr_ok_def lock_ok_def table_ok_def booted_fields table_wf_def)

lemma reachable_life:
  assumes "reachable tbl c" and "table_wf tbl"
  shows "nr_ok c" "valid_mod c i \<Longrightarrow> life_idle (get_mod c i)"
  using life.reachable_inv [OF assms(1) life_zero life_booted [OF assms(2)]]
  by (simp_all add: life.sys_inv_def)

lemma table_collects_fields:
  "m_seqs m = r_seq_array r \<Longrightarrow> m_recv_notify m = r_recv_notify r \<Longrightarrow>
    (\<forall>sq \<in> set (r_seq_array r). collects 0 (sq_fn sq)) \<Longrightarrow>
    (\<forall>fn. r_recv_notify r = Some fn \<longrightarrow> collects 0 fn) \<Longrightarrow> table_collects m"
  by (simp add: table_collects_def)

lemma reachable_accounts:
  assumes "reachable tbl c" and "table_wf tbl" and "collecting_table tbl" and "valid_mod c i"
  shows "Acct (get_mod c i)"
proof -
  have "Acct zero_module"
    using life_zero by (simp add: Acct_def table_collects_def acct_idle_def entries_ok_def zero_module_def)
  moreover have "Acct (booted i (tbl ! i) en)" if "i < length tbl" for i en
    using that life_booted [OF assms(2) that] assms(3)
    by (auto simp: Acct_def acct_idle_def entries_ok_def booted_fields collecting_table_def
        intro!: table_collects_fields [of _ "tbl ! i"])
  ultimately show ?thesis
    using accounts.reachable_inv [OF assms(1)] assms(4) by (simp add: accounts.sys_inv_def)
qed

lemma reachable_live:
  assumes "reachable tbl c" and "table_wf tbl" and "polite_table tbl" and "valid_mod c i"
  shows "Live (get_mod c i)"
proof -
  have "Live zero_module"
    using life_zero by (simp add: Live_def table_polite_def zero_module_def)
  moreover have "Live (booted i (tbl ! i) en)" if "i < length tbl" for i en
    using that life_booted [OF assms(2) that] assms(3)
    by (auto simp: Live_def table_polite_def booted_fields polite_table_def)
  ultimately show ?thesis
    using live.reachable_inv [OF assms(1)] assms(4) by (simp add: live.sys_inv_def)
qed

lemma reachable_turn_returns:
  assumes "reachable tbl c" and "table_wf tbl" and "polite_table tbl" and "valid_mod c i"
  shows "sched_iter i c \<noteq> None"
  using live.sched_iter_spec [OF reachable_live [OF assms] reachable_life(1) [OF assms(1,2)] assms(4)]
  by blast

lemma turn_reaps:
  assumes "sched_iter i c = ok (True, c')" and "valid_mod c' i" and "f \<in> set (m_fibers (get_mod c' i))"
  shows "\<not> f_done f"
  using assms
  by (auto simp: sched_iter_def sched_turn_def Let_def split_def obind_eq_ok reap_done_def split: if_splits)

section \<open>Concrete instances\<close>

text \<open>A fresh instance after \<open>setup\<close> with a table, in calm surroundings.\<close>

definition boot :: "coseq_reg_t list \<Rightarrow> coseq_ctx_private" where
  "boot tbl = fst (snd (coseq_setup fresh_ctx tbl (of_nat (length tbl)) (\<lambda>_. no_env) no_env))"

lemma boot_setup:
  assumes "length tbl \<le> MAX_MODULE"
  obtains en where "coseq_setup fresh_ctx tbl (of_nat (length tbl)) (\<lambda>_. no_env) no_env = (True, boot tbl, en)"
    and "length tbl = unat (of_nat (length tbl) :: u8)"
proof -
  have l: "length tbl = unat (of_nat (length tbl) :: u8)"
    using assms by (simp add: unat_of_nat MAX_MODULE_def)
  then have "fst (coseq_setup fresh_ctx tbl (of_nat (length tbl)) (\<lambda>_. no_env) no_env)"
    using coseq_setup_succeeds [OF all_ok_no_env l] assms by simp
  with l show ?thesis using that unfolding boot_def by (metis prod.collapse)
qed

lemma boot_reachable: "length tbl \<le> MAX_MODULE \<Longrightarrow> reachable tbl (boot tbl)"
  by (erule boot_setup) (rule reachable.start)

lemma boot_simps:
  assumes "length tbl \<le> MAX_MODULE"
  shows "nr_module (boot tbl) = int (length tbl)" "length (modules (boot tbl)) = MAX_MODULE"
    "get_mod (boot tbl) i = (if i < length tbl then booted i (tbl ! i) no_env else get_mod fresh_ctx i)"
proof -
  obtain en where s: "coseq_setup fresh_ctx tbl (of_nat (length tbl)) (\<lambda>_. no_env) no_env = (True, boot tbl, en)"
    and l: "length tbl = unat (of_nat (length tbl) :: u8)"
    using boot_setup [OF assms] by blast
  note ok = coseq_setup_ok [OF s l fresh_ctx_simps(1)]
  show "nr_module (boot tbl) = int (length tbl)" unfolding ok(1) by (metis l uint_nat)
  show "length (modules (boot tbl)) = MAX_MODULE"
    "get_mod (boot tbl) i = (if i < length tbl then booted i (tbl ! i) no_env else get_mod fresh_ctx i)"
    using ok(2,4) l by simp_all
qed

lemma sample_length: "length sample_tbl = 3"
  by (simp add: sample_tbl_def)

lemma sample_small: "length sample_tbl \<le> MAX_MODULE"
  by (simp add: sample_length MAX_MODULE_def)

lemma sample_table_wf: "table_wf sample_tbl"
  by (simp add: table_wf_def sample_tables)

lemma sample_collecting: "collecting_table sample_tbl"
  by (simp add: collecting_table_def sample_tables sample_collects)

lemma sample_polite_table: "polite_table sample_tbl"
  by (simp add: polite_table_def sample_tables sample_polite)

lemma sample_valid: "valid_mod (boot sample_tbl) 0"
  by (simp add: boot_simps [OF sample_small] MAX_MODULE_def)

lemma idle_turn:
  assumes "m_fibers (get_mod c i) = []" and "m_inbox (get_mod c i) = []" and "m_deferred (get_mod c i) = []"
    and "\<not> m_stop (get_mod c i)" and "valid_mod c i"
  shows "\<exists>c'. sched_iter i c = ok (True, c')"
  using assms by (simp add: sched_iter_def sched_turn_def sched_splice_def Let_def split_def)

lemma sample_idle_turn: "\<exists>c'. sched_iter 0 (boot sample_tbl) = ok (True, c')"
  by (rule idle_turn)
    (simp_all add: boot_simps [OF sample_small] MAX_MODULE_def sample_length booted_fields del: length_0_conv length_greater_0_conv)

section \<open>Properties of every reachable state\<close>

text \<open>
  C1: Well-behaved sequences never touch freed memory. If every sequence of the table collects its
  asynchronous replies before it returns and reaches a wait point after finitely many calls, then
  in every reachable state a turn of any module comes to its end without undefined behaviour,
  whatever the order of events and timers, the outcome of every allocation and the contents of
  messages, as long as the module's request counter has not wrapped.
\<close>

theorem collected_replies_are_safe:
  assumes "reachable tbl c" and "table_wf tbl" and "collecting_table tbl" and "polite_table tbl"
    and "valid_mod c i"
  shows "(\<exists>b c'. sched_iter i c = ok (b, c')) \<or>
    (\<exists>p c1. sched_iter i c = undef (Use_after_free p c1) \<and> 2 ^ 32 < m_next_req_id (get_mod c1 i))"
  using accounts.sched_iter_spec [OF reachable_accounts [OF assms(1-3,5)]
      reachable_life(1) [OF assms(1,2)] assms(5)] reachable_turn_returns [OF assms(1,2,4,5)]
  unfolding wrapped_def by (cases "sched_iter i c" rule: outcome_exhaust) auto

lemma collected_replies_are_safe_witness:
  "(\<exists>b c'. sched_iter 0 (boot sample_tbl) = ok (b, c')) \<or>
    (\<exists>p c1. sched_iter 0 (boot sample_tbl) = undef (Use_after_free p c1) \<and>
      2 ^ 32 < m_next_req_id (get_mod c1 0))"
  by (rule collected_replies_are_safe [OF boot_reachable [OF sample_small] sample_table_wf
        sample_collecting sample_polite_table sample_valid])

text \<open>
  C8: Every turn ends. If the sequences of the table reach a wait point or return after finitely many
  calls, then in every reachable state, with any events and timers, the turn of any module's
  scheduler comes to an end: it returns to its wait or runs into undefined behaviour, and no
  fiber keeps the thread.
\<close>

theorem polite_turns_return:
  assumes "reachable tbl c" and "table_wf tbl" and "polite_table tbl" and "valid_mod c i"
  shows "(\<exists>b c'. sched_iter i c = ok (b, c')) \<or> (\<exists>u. sched_iter i c = undef u)"
  using reachable_turn_returns [OF assms] by (cases "sched_iter i c" rule: outcome_exhaust) auto

lemma polite_turns_return_witness:
  "(\<exists>b c'. sched_iter 2 (boot sample_tbl) = ok (b, c')) \<or> (\<exists>u. sched_iter 2 (boot sample_tbl) = undef u)"
  by (rule polite_turns_return [OF boot_reachable [OF sample_small] sample_table_wf sample_polite_table])
    (simp add: boot_simps [OF sample_small] MAX_MODULE_def)

text \<open>
  C13: The books balance. In every reachable state of a collecting table whose request counter has not
  wrapped, the ids in the table of outstanding requests are distinct, each belongs to a living
  fiber, and no fiber is owed more replies than its counter of outstanding requests says: the
  entries for it, apart from the request it blocks on, and the replies queued in it.
\<close>

theorem outstanding_requests_accounted:
  assumes "reachable tbl c" and "table_wf tbl" and "collecting_table tbl" and "valid_mod c i"
    and "m_next_req_id (get_mod c i) \<le> 2 ^ 32"
  shows "distinct (map p_req_id (m_pending (get_mod c i))) \<and>
    p_f ` set (m_pending (get_mod c i)) \<subseteq> f_self ` set (m_fibers (get_mod c i)) \<and>
    (\<forall>f \<in> set (m_fibers (get_mod c i)).
      int (length (filter (\<lambda>e. p_f e = f_self f \<and> (f_waiting_reply f \<longrightarrow> p_req_id e \<noteq> f_wait_req_id f))
        (m_pending (get_mod c i)))) + int (length (f_rq f)) \<le> f_async_outstanding f)"
proof -
  let ?m = "get_mod c i"
  have idle: "acct_idle ?m"
    using reachable_accounts [OF assms(1-4)] assms(5) by (simp add: Acct_def wrapped_def)
  have "owed ps (f_self f) (awaited f) =
      length (filter (\<lambda>e. p_f e = f_self f \<and> (f_waiting_reply f \<longrightarrow> p_req_id e \<noteq> f_wait_req_id f)) ps)"
    for f ps
    unfolding owed_def awaited_def by (intro arg_cong [where f = length] filter_cong) auto
  with idle show ?thesis
    by (auto simp: acct_idle_def entries_ok_def selves_def acct_parked_def)
qed

lemma outstanding_requests_accounted_witness:
  "distinct (map p_req_id (m_pending (get_mod (boot sample_tbl) 0)))"
  using outstanding_requests_accounted [OF boot_reachable [OF sample_small] sample_table_wf
      sample_collecting sample_valid]
  by (simp add: boot_simps [OF sample_small] sample_length booted_fields)

text \<open>
  C9: The life cycle of fibers. In every reachable state no module is inside a fiber, every fiber has its
  own address and waits for exactly one thing: the reply to a request (perhaps with a time
  limit), any reply, or a timer, and its saved context is inside the call that waits for it. The
  module lock is free or held by one of these fibers.
\<close>

theorem fibers_wait_for_one_thing:
  assumes "reachable tbl c" and "table_wf tbl" and "valid_mod c i"
    and "m_th_started (get_mod c i)" and "sched_iter i c = ok (True, c')"
  shows "m_current (get_mod c' i) = None \<and> distinct (map f_self (m_fibers (get_mod c' i))) \<and>
    (\<forall>f \<in> set (m_fibers (get_mod c' i)). \<not> f_done f \<and>
      ((f_waiting_reply f \<and> \<not> f_waiting_any f \<and> is_After_request (f_ctx f)) \<or>
       (f_waiting_any f \<and> \<not> f_waiting_reply f \<and> \<not> f_waiting_timer f \<and> is_After_wait_reply (f_ctx f)) \<or>
       (f_waiting_timer f \<and> \<not> f_waiting_reply f \<and> \<not> f_waiting_any f \<and> is_After_wait_timeout (f_ctx f)))) \<and>
    (\<forall>q. m_locked_by (get_mod c' i) = Some q \<longrightarrow> q \<in> f_self ` set (m_fibers (get_mod c' i)))"
proof -
  have st: "step_frame i c c'" and idle: "life_idle (get_mod c' i)"
    using life.sched_iter_spec [OF reachable_life(2) [OF assms(1-3)] reachable_life(1) [OF assms(1,2)] assms(3)]
      assms(5) by blast+
  have alive: "\<not> f_done f" if "f \<in> set (m_fibers (get_mod c' i))" for f
    by (rule turn_reaps [OF assms(5) _ that]) (use step_frame_length [OF st] assms(3) in simp)
  have wf: "fiber_wf f" if "f \<in> set (m_fibers (get_mod c' i))" for f
    using idle that by (simp add: life_idle_def)
  have parked: "parked_request f \<or> parked_any f \<or> parked_timer f"
    if "f \<in> set (m_fibers (get_mod c' i))" for f
    using alive [OF that] wf [OF that] by (simp add: fiber_wf_def)
  have "m_current (get_mod c' i) = None" "distinct (map f_self (m_fibers (get_mod c' i)))"
    "\<forall>q. m_locked_by (get_mod c' i) = Some q \<longrightarrow> q \<in> f_self ` set (m_fibers (get_mod c' i))"
    using idle by (simp_all add: life_idle_def addr_ok_def lock_ok_def selves_def subset_iff)
  then show ?thesis using alive parked unfolding parked_defs by blast
qed

lemma fibers_wait_for_one_thing_witness:
  "\<exists>c'. sched_iter 0 (boot sample_tbl) = ok (True, c') \<and> m_current (get_mod c' 0) = None"
proof -
  obtain c' where turn: "sched_iter 0 (boot sample_tbl) = ok (True, c')" using sample_idle_turn by blast
  have "m_th_started (get_mod (boot sample_tbl) 0)"
    by (simp add: boot_simps [OF sample_small] sample_length booted_fields)
  from fibers_wait_for_one_thing [OF boot_reachable [OF sample_small] sample_table_wf sample_valid this turn]
  show ?thesis using turn by blast
qed

text \<open>
  C10: Modules are isolated. In every reachable state a turn of module \<open>i\<close> changes nothing of another
  module but its inbox, to which it only appends: the data of a scheduler is touched by its own
  thread alone, which is why the code needs no lock for it.
\<close>

theorem turn_isolates_modules:
  assumes "reachable tbl c" and "table_wf tbl" and "valid_mod c i"
    and "sched_iter i c = ok (b, c')" and "j \<noteq> i"
  shows "\<exists>evs. get_mod c' j = (get_mod c j)\<lparr>m_inbox := m_inbox (get_mod c j) @ evs\<rparr>"
proof -
  have "step_frame i c c'"
    using life.sched_iter_spec [OF reachable_life(2) [OF assms(1-3)] reachable_life(1) [OF assms(1,2)] assms(3)]
      assms(4) by blast
  with assms(5) show ?thesis by (simp add: step_frame_def others_grow_def inbox_grows_def)
qed

lemma turn_isolates_modules_witness:
  "\<exists>c' evs. sched_iter 0 (boot sample_tbl) = ok (True, c') \<and>
    get_mod c' 1 = (get_mod (boot sample_tbl) 1)\<lparr>m_inbox := m_inbox (get_mod (boot sample_tbl) 1) @ evs\<rparr>"
proof -
  obtain c' where turn: "sched_iter 0 (boot sample_tbl) = ok (True, c')" using sample_idle_turn by blast
  from turn_isolates_modules [OF boot_reachable [OF sample_small] sample_table_wf sample_valid turn, of 1]
  show ?thesis using turn by auto
qed

end
