(* ===== verification/CoseqBuffers.thy ===== *)
theory CoseqBuffers
  imports CoseqSystem
begin

text \<open>
  Buffers and their sizes. Messages travel as a pointer and a size: in events, in queued replies, in the
  source of a fiber and in the mailbox. If the sequences only pass buffers that hold what they say,
  then in every reachable state each size is the size of its buffer, so no copy reads or writes past
  the end of one. The same invariant follows the addresses: if the sequences only address sequences
  that exist, every start event they have sent does.
\<close>

section \<open>Sequences that pass honest sizes and addresses\<close>

text \<open>
  A directory gives the number of sequences of each module there is. Without a directory every
  address is good.
\<close>

type_synonym directory = "int \<Rightarrow> u8 option"

definition known :: "directory option \<Rightarrow> int \<Rightarrow> u8 \<Rightarrow> bool" where
  "known A d s \<longleftrightarrow> (case A of None \<Rightarrow> True | Some D \<Rightarrow> (case D d of None \<Rightarrow> False | Some n \<Rightarrow> s < n))"

lemma known_None [simp]: "known None d s"
  by (simp add: known_def)

coinductive honest :: "directory option \<Rightarrow> seq_prog \<Rightarrow> bool" for A where
  ho_return: "honest A Return"
| ho_request: "known A (uint mi) si \<Longrightarrow> readable msg n \<Longrightarrow> (\<And>s. honest A (ks s)) \<Longrightarrow> honest A (Request mi si msg n ks)"
| ho_request_timeout: "known A (uint mi) si \<Longrightarrow> readable msg n \<Longrightarrow> (\<And>s. honest A (ks s)) \<Longrightarrow> honest A (Request_timeout mi si msg n ms ks)"
| ho_async: "known A (uint mi) si \<Longrightarrow> readable msg n \<Longrightarrow> (\<And>r. honest A (kr r)) \<Longrightarrow> honest A (Request_async mi si msg n kr)"
| ho_wait: "(\<And>r. honest A (kw r)) \<Longrightarrow> honest A (Wait_reply kw)"
| ho_send: "known A (uint mi) si \<Longrightarrow> readable msg n \<Longrightarrow> honest A p \<Longrightarrow> honest A (Send mi si msg n p)"
| ho_reply: "readable msg n \<Longrightarrow> honest A p \<Longrightarrow> honest A (Reply res msg n p)"
| ho_timeout: "honest A p \<Longrightarrow> honest A (Wait_timeout ms p)"
| ho_source: "(\<And>s. honest A (ks s)) \<Longrightarrow> honest A (Source ks)"
| ho_module: "(\<And>w. honest A (km w)) \<Longrightarrow> honest A (Self_module km)"
| ho_seq: "(\<And>w. honest A (km w)) \<Longrightarrow> honest A (Self_seq km)"
| ho_user: "(\<And>u. honest A (ku u)) \<Longrightarrow> honest A (Self_user ku)"
| ho_name: "(\<And>t. honest A (kt t)) \<Longrightarrow> honest A (Self_seq_name kt)"
| ho_reg: "(\<And>r. honest A (kg r)) \<Longrightarrow> honest A (Reg_notify cat kg)"
| ho_unreg: "(\<And>b. honest A (kb b)) \<Longrightarrow> honest A (Unreg_notify cat cid kb)"
| ho_notify: "readable msg n \<Longrightarrow> (\<And>b. honest A (kb b)) \<Longrightarrow> honest A (Notify cat msg n kb)"
| ho_lock: "honest A p \<Longrightarrow> honest A (Lock p)"
| ho_unlock: "honest A p \<Longrightarrow> honest A (Unlock p)"
| ho_access: "(\<And>u. honest A (ka u)) \<Longrightarrow> honest A (Access upd ka)"

inductive_cases honestE: "honest A p"

lemma honest_simps [simp]:
  "honest A Return"
  "honest A (Request mi si msg n ks) \<longleftrightarrow> known A (uint mi) si \<and> readable msg n \<and> (\<forall>s. honest A (ks s))"
  "honest A (Request_timeout mi si msg n ms ks) \<longleftrightarrow> known A (uint mi) si \<and> readable msg n \<and> (\<forall>s. honest A (ks s))"
  "honest A (Request_async mi si msg n kr) \<longleftrightarrow> known A (uint mi) si \<and> readable msg n \<and> (\<forall>r. honest A (kr r))"
  "honest A (Wait_reply kw) \<longleftrightarrow> (\<forall>r. honest A (kw r))"
  "honest A (Send mi si msg n p) \<longleftrightarrow> known A (uint mi) si \<and> readable msg n \<and> honest A p"
  "honest A (Reply res msg n p) \<longleftrightarrow> readable msg n \<and> honest A p"
  "honest A (Wait_timeout ms p) \<longleftrightarrow> honest A p"
  "honest A (Source ks) \<longleftrightarrow> (\<forall>s. honest A (ks s))"
  "honest A (Self_module km) \<longleftrightarrow> (\<forall>w. honest A (km w))"
  "honest A (Self_seq km) \<longleftrightarrow> (\<forall>w. honest A (km w))"
  "honest A (Self_user ku) \<longleftrightarrow> (\<forall>u. honest A (ku u))"
  "honest A (Self_seq_name kt) \<longleftrightarrow> (\<forall>t. honest A (kt t))"
  "honest A (Reg_notify cat kg) \<longleftrightarrow> (\<forall>r. honest A (kg r))"
  "honest A (Unreg_notify cat cid kb) \<longleftrightarrow> (\<forall>b. honest A (kb b))"
  "honest A (Notify cat msg n kb) \<longleftrightarrow> readable msg n \<and> (\<forall>b. honest A (kb b))"
  "honest A (Lock p) \<longleftrightarrow> honest A p"
  "honest A (Unlock p) \<longleftrightarrow> honest A p"
  "honest A (Access upd ka) \<longleftrightarrow> (\<forall>u. honest A (ka u))"
  by (auto elim: honestE intro: honest.intros)

section \<open>Well-formed data\<close>

fun rest_honest :: "directory option \<Rightarrow> ucontext_t \<Rightarrow> bool" where
  "rest_honest A At_entry = True"
| "rest_honest A (After_request k) = (\<forall>s. honest A (k s))"
| "rest_honest A (After_wait_reply k) = (\<forall>s. honest A (k s))"
| "rest_honest A (After_wait_timeout p) = honest A p"
| "rest_honest A Finished = True"

text \<open>
  Each module has its own view of the directory: the sequences it may ask. A module that asks for a
  sequence sees it.
\<close>

type_synonym views = "nat \<Rightarrow> directory option"

definition asked :: "views \<Rightarrow> nat \<Rightarrow> int \<Rightarrow> u8 \<Rightarrow> bool" where
  "asked A i q s \<longleftrightarrow> (q \<noteq> EXTERNAL \<longrightarrow> 0 \<le> q \<and> known (A (nat q)) (int i) s)"

definition fiber_bufs :: "views \<Rightarrow> nat \<Rightarrow> fiber_t \<Rightarrow> bool" where
  "fiber_bufs A i f \<longleftrightarrow> buf_wf f \<and> (\<forall>rr \<in> set (f_rq f). rr_wf rr) \<and> honest (A i) (f_fn f) \<and>
     rest_honest (A i) (f_ctx f) \<and> asked A i (f_reply_to f) (f_seq_idx f)"

text \<open>The start events that sequences have sent name sequences that exist.\<close>

definition ev_good :: "views \<Rightarrow> nat \<Rightarrow> ev_t \<Rightarrow> bool" where
  "ev_good A i e \<longleftrightarrow> ev_wf e \<and> (e_type e = EV_START \<longrightarrow> asked A i (e_requester e) (e_seq_idx e))"

definition listed :: "views \<Rightarrow> nat \<Rightarrow> u8 \<Rightarrow> bool" where
  "listed A i n \<longleftrightarrow> (\<forall>j D k. A j = Some D \<longrightarrow> D (int i) = Some k \<longrightarrow> n = k)"

text \<open>A module runs nothing or knows its index.\<close>

definition idx_ok :: "nat \<Rightarrow> module_t \<Rightarrow> bool" where
  "idx_ok i m \<longleftrightarrow> m_idx m = int i \<or> (m_seqs m = [] \<and> m_recv_notify m = None \<and> m_fibers m = [])"

definition mod_bufs :: "views \<Rightarrow> nat \<Rightarrow> module_t \<Rightarrow> bool" where
  "mod_bufs A i m \<longleftrightarrow> (\<forall>e \<in> set (m_inbox m) \<union> set (m_deferred m). ev_good A i e) \<and>
     (\<forall>f \<in> set (m_fibers m). fiber_bufs A i f) \<and> (\<forall>sq \<in> set (m_seqs m). honest (A i) (sq_fn sq)) \<and>
     (\<forall>fn. m_recv_notify m = Some fn \<longrightarrow> honest (A i) fn) \<and> listed A i (m_nr_seq m) \<and> idx_ok i m"

lemma ev_good_wf: "ev_good A i e \<Longrightarrow> ev_wf e"
  by (simp add: ev_good_def)

definition mailbox_wf :: "coseq_ctx_private \<Rightarrow> bool" where
  "mailbox_wf c \<longleftrightarrow> ext_size c = (case ext_msg c of None \<Rightarrow> 0 | Some b \<Rightarrow> length b)"

definition bufs :: "views \<Rightarrow> coseq_ctx_private \<Rightarrow> bool" where
  "bufs A c \<longleftrightarrow> nr_ok c \<and> length (modules c) = MAX_MODULE \<and> mailbox_wf c \<and> (\<forall>i < MAX_MODULE. mod_bufs A i (get_mod c i))"

text \<open>The invariant on the thread of module \<open>i\<close>.\<close>

definition bufs_at :: "views \<Rightarrow> nat \<Rightarrow> coseq_ctx_private \<Rightarrow> bool" where
  "bufs_at A i c \<longleftrightarrow> bufs A c \<and> valid_mod c i"

lemma fiber_bufs_upd [simp]:
  "fiber_bufs A i (f\<lparr>f_waiting_reply := b\<rparr>) = fiber_bufs A i f"
  "fiber_bufs A i (f\<lparr>f_wait_req_id := r\<rparr>) = fiber_bufs A i f"
  "fiber_bufs A i (f\<lparr>f_waiting_timer := b\<rparr>) = fiber_bufs A i f"
  "fiber_bufs A i (f\<lparr>f_waiting_any := b\<rparr>) = fiber_bufs A i f"
  "fiber_bufs A i (f\<lparr>f_deadline := t\<rparr>) = fiber_bufs A i f"
  "fiber_bufs A i (f\<lparr>f_async_outstanding := n\<rparr>) = fiber_bufs A i f"
  "fiber_bufs A i (f\<lparr>f_seq_name := nm\<rparr>) = fiber_bufs A i f"
  "fiber_bufs A i (f\<lparr>f_done := b\<rparr>) = fiber_bufs A i f"
  by (simp_all add: fiber_bufs_def buf_wf_def)

lemma fiber_bufs_ctx: "fiber_bufs A i f \<Longrightarrow> rest_honest (A i) k \<Longrightarrow> fiber_bufs A i (f\<lparr>f_ctx := k\<rparr>)"
  by (simp add: fiber_bufs_def buf_wf_def)

lemma fiber_bufs_rq: "fiber_bufs A i f \<Longrightarrow> \<forall>rr \<in> set rrs. rr_wf rr \<Longrightarrow> fiber_bufs A i (f\<lparr>f_rq := rrs\<rparr>)"
  by (simp add: fiber_bufs_def buf_wf_def)

lemma fiber_bufs_set_src:
  assumes "fiber_bufs A i f" and "readable msg sz"
  shows "fiber_bufs A i (fst (set_src f msg sz r t s cl rid en))"
  using set_src_buf_wf [of f msg sz r t s cl rid en] assms
  by (simp add: fiber_bufs_def set_src_keeps buf_wf_def)

lemma mod_bufs_upd [simp]:
  "mod_bufs A i (m\<lparr>m_env := en\<rparr>) = mod_bufs A i m"
  "mod_bufs A i (m\<lparr>m_pending := ps\<rparr>) = mod_bufs A i m"
  "mod_bufs A i (m\<lparr>m_next_req_id := n\<rparr>) = mod_bufs A i m"
  "mod_bufs A i (m\<lparr>m_next_fptr := n\<rparr>) = mod_bufs A i m"
  "mod_bufs A i (m\<lparr>m_notify_clients := ncs\<rparr>) = mod_bufs A i m"
  "mod_bufs A i (m\<lparr>m_current := q\<rparr>) = mod_bufs A i m"
  "mod_bufs A i (m\<lparr>m_locked_by := q\<rparr>) = mod_bufs A i m"
  "mod_bufs A i (pending_add m r p) = mod_bufs A i m"
  "mod_bufs A i (snd (pending_take m r)) = mod_bufs A i m"
  "mod_bufs A i (coseq_lock m f) = mod_bufs A i m"
  "mod_bufs A i (coseq_unlock m f) = mod_bufs A i m"
  by (simp_all add: mod_bufs_def idx_ok_def pending_add_def Let_def split_def pending_take_def coseq_lock_def
      coseq_unlock_def)

lemma idx_ok_put [simp]: "idx_ok i (put_fiber f m) = idx_ok i m"
  by (simp add: idx_ok_def put_fiber_def)

lemma mod_bufs_put: "mod_bufs A i m \<Longrightarrow> fiber_bufs A i f \<Longrightarrow> mod_bufs A i (put_fiber f m)"
  using put_fiber_in [of _ f m] by (fastforce simp: mod_bufs_def)

lemma mod_bufs_idx: "mod_bufs A i m \<Longrightarrow> get_fiber m p = Some f \<Longrightarrow> m_idx m = int i"
  using get_fiber_Some [of m p f] by (auto simp: mod_bufs_def idx_ok_def)

lemma mod_bufs_fiber: "mod_bufs A i m \<Longrightarrow> get_fiber m p = Some f \<Longrightarrow> fiber_bufs A i f"
  using get_fiber_Some [of m p f] by (simp add: mod_bufs_def)

lemma asked_known: "asked A (unat d) (int i) s \<longleftrightarrow> known (A i) (uint d) s"
  by (simp add: asked_def EXTERNAL_def)

lemma asked_external [simp]: "asked A i EXTERNAL s"
  by (simp add: asked_def)

lemma bufs_get: "bufs_at A i c \<Longrightarrow> mod_bufs A i (get_mod c i)"
  by (simp add: bufs_at_def bufs_def get_mod_def)

lemma bufs_set [intro]: "bufs_at A i c \<Longrightarrow> mod_bufs A i m \<Longrightarrow> bufs_at A i (set_mod i m c)"
  by (cases "valid_mod c i") (auto simp: bufs_at_def bufs_def mailbox_wf_def nr_ok_def get_set_mod_if)

lemma bufs_at_ctx [simp]:
  "bufs_at A i (c\<lparr>next_client_id := n\<rparr>) = bufs_at A i c"
  "bufs_at A i (c\<lparr>ext_ready := b\<rparr>) = bufs_at A i c"
  "bufs_at A i (c\<lparr>ext_result := r\<rparr>) = bufs_at A i c"
  "bufs_at A i (c\<lparr>ext_wait_rid := w\<rparr>) = bufs_at A i c"
  "bufs_at A i (c\<lparr>ext_id := w\<rparr>) = bufs_at A i c"
  "bufs_at A i (c\<lparr>user_mem := u\<rparr>) = bufs_at A i c"
  by (simp_all add: bufs_at_def bufs_def mailbox_wf_def nr_ok_def)

section \<open>Calls keep it\<close>

lemma bufs_post:
  assumes "bufs_at A i c" and "\<And>e. eo = Some e \<Longrightarrow> 0 \<le> dest \<Longrightarrow> ev_good A (nat dest) e"
  shows "bufs_at A i (fst (post c dest eo en))"
proof (cases eo)
  case None
  with assms show ?thesis by simp
next
  case (Some e)
  show ?thesis
  proof (cases "dest < 0 \<or> nr_module c \<le> dest")
    case True
    with assms(1) Some show ?thesis by (simp add: post_def)
  next
    case False
    let ?j = "nat dest"
    have j: "bufs_at A ?j c" using False assms(1) by (auto simp: bufs_at_def bufs_def nr_ok_def)
    have "mod_bufs A ?j (inbox_put (get_mod c ?j) e)"
      using bufs_get [OF j] assms(2) [OF Some] False by (auto simp: mod_bufs_def inbox_put_def idx_ok_def)
    with j have "bufs_at A ?j (set_mod ?j (inbox_put (get_mod c ?j) e) c)" by blast
    with assms(1) False Some show ?thesis by (simp add: post_def bufs_at_def)
  qed
qed

lemma bufs_post_ev:
  assumes "bufs_at A i c" and "\<And>e. fst made = Some e \<Longrightarrow> 0 \<le> dest \<Longrightarrow> ev_good A (nat dest) e"
  shows "bufs_at A i (post_ev c i dest made)"
proof -
  have p: "bufs_at A i (fst (post c dest (fst made) (snd made)))"
    using bufs_post [OF assms] by blast
  then show ?thesis by (simp add: post_ev_def split_def Let_def bufs_set bufs_get)
qed

lemma make_ev_good:
  assumes "fst (make_ev t s r q res msg n en) = Some e" and "readable msg n"
    and "t = EV_START \<Longrightarrow> asked A i q s"
  shows "ev_good A i e"
proof -
  have "ev_wf e" using make_ev_wf [OF _ assms(2)] assms(1) by blast
  moreover have "e_type e = t" "e_seq_idx e = s" "e_requester e = q"
    using assms(1) by (auto simp: make_ev_def Let_def split_def split: if_splits option.splits)
  ultimately show ?thesis using assms(3) by (auto simp: ev_good_def)
qed

lemma bufs_post_made:
  assumes "bufs_at A i c" and "readable msg n" and "t = EV_START \<Longrightarrow> 0 \<le> dest \<Longrightarrow> asked A (nat dest) q s"
  shows "bufs_at A i (post_ev c i dest (make_ev t s r q res msg n en))"
  by (rule bufs_post_ev [OF assms(1)]) (use assms(2,3) in \<open>auto intro!: make_ev_good\<close>)

lemma bufs_request:
  assumes "bufs_at A i c" and "fiber_bufs A i f" and "readable msg n" and "known (A i) (uint mi) si" and "\<forall>s. honest (A i) (k s)"
    and "m_idx (get_mod c i) = int i"
  shows "bufs_at A i (request_common c i f mi si msg n wt ms k)"
  unfolding request_common_def Let_def split_def
  by (intro bufs_post_made bufs_set assms mod_bufs_put)
    (use assms in \<open>auto simp: bufs_get asked_known intro!: fiber_bufs_ctx\<close>)

lemma bufs_async:
  assumes "bufs_at A i c" and "fiber_bufs A i f" and "readable msg n" and "known (A i) (uint mi) si"
    and "m_idx (get_mod c i) = int i"
  shows "bufs_at A i (snd (coseq_request_async c i f mi si msg n))"
  unfolding coseq_request_async_def Let_def snd_conv
  by (intro bufs_post_made bufs_set assms mod_bufs_put) (use assms in \<open>auto simp: bufs_get asked_known\<close>)

lemma bufs_send:
  assumes "bufs_at A i c" and "readable msg n" and "known (A i) (uint mi) si"
    and "m_idx (get_mod c i) = int i"
  shows "bufs_at A i (coseq_send c i f mi si msg n)"
  unfolding coseq_send_def Let_def
  by (intro bufs_post_made bufs_set assms) (use assms in \<open>auto simp: bufs_get asked_known\<close>)

lemma bufs_deliver:
  assumes "bufs_at A i c" and "readable msg n"
  shows "bufs_at A i (fst (ext_deliver c rid res msg n en))"
  using assms
  by (auto simp: ext_deliver_def Let_def split_def bufs_at_def bufs_def mailbox_wf_def nr_ok_def readable_def
      split: option.splits)

lemma bufs_reply:
  assumes "bufs_at A i c" and "readable msg n"
  shows "bufs_at A i (coseq_reply c i f res msg n)"
proof (cases "f_reply_to f = EXTERNAL")
  case True
  then show ?thesis
    using bufs_deliver [OF assms] bufs_get [OF assms(1)]
    by (simp add: coseq_reply_def Let_def split_def bufs_set)
next
  case False
  with assms show ?thesis by (auto simp: coseq_reply_def Let_def intro!: bufs_post_made)
qed

lemma bufs_notify_one:
  assumes "bufs_at A i c" and "readable msg n"
  shows "bufs_at A i (notify_one i cat msg n nc c)"
proof -
  let ?made = "make_ev EV_NOTIFY 0 0 (m_idx (get_mod c i)) COSEQ_RSLT_SUCCESS msg n (m_env (get_mod c i))"
  have "ev_good A d (e\<lparr>e_category := cat, e_client_id := nc_client_id nc\<rparr>)" if "fst ?made = Some e" for d e
    using make_ev_good [OF that assms(2), where A = A and i = d] by (auto simp: ev_good_def ev_wf_def split: option.splits)
  then show ?thesis
    using assms(1) by (auto simp: notify_one_def Let_def split_def intro!: bufs_post_ev)
qed

lemma bufs_notify:
  assumes "bufs_at A i c" and "readable msg n"
  shows "bufs_at A i (snd (coseq_notify c i cat msg n))"
proof -
  have "bufs_at A i (fold (notify_one i cat msg n) ncs c)" for ncs
    using assms(1) by (induction ncs arbitrary: c) (simp_all add: bufs_notify_one assms(2))
  then show ?thesis by (simp add: coseq_notify_def Let_def)
qed

lemma bufs_reg: "bufs_at A i c \<Longrightarrow> bufs_at A i (snd (coseq_reg_notify c i f cat))"
  by (auto simp: coseq_reg_notify_def Let_def split_def bufs_get)

lemma bufs_unreg: "bufs_at A i c \<Longrightarrow> bufs_at A i (snd (coseq_unreg_notify c i cat cid))"
  by (auto simp: coseq_unreg_notify_def Let_def bufs_get)

text \<open>What a call leaves: the sequence that goes on, or the module without one.\<close>

lemma readable_rr: "rr_wf rr \<Longrightarrow> readable (rr_msg rr) (rr_size rr)"
  by (auto simp: rr_wf_def readable_def split: option.splits)

lemma bufs_wait_reply:
  assumes "bufs_at A i c" and "fiber_bufs A i f" and "\<forall>r. honest (A i) (k r)"
  shows "case coseq_wait_reply c i f k of Continue c' p' \<Rightarrow> bufs_at A i c' \<and> honest (A i) p' | Yielded c' \<Rightarrow> bufs_at A i c'"
proof (cases "f_rq f")
  case Nil
  have "fiber_bufs A i (f\<lparr>f_waiting_any := True, f_ctx := After_wait_reply k\<rparr>)"
    using assms(2,3) fiber_bufs_ctx [of A i "f\<lparr>f_waiting_any := True\<rparr>" "After_wait_reply k"] by simp
  then have "bufs_at A i (set_mod i (put_fiber (f\<lparr>f_waiting_any := True, f_ctx := After_wait_reply k\<rparr>) (get_mod c i)) c)"
    using assms(1) by (intro bufs_set mod_bufs_put bufs_get)
  with assms Nil show ?thesis by (simp add: coseq_wait_reply_def)
next
  case (Cons rr rest)
  let ?d = "set_src (f\<lparr>f_rq := rest\<rparr>) (rr_msg rr) (rr_size rr) (rr_result rr) 0 (f_seq_idx f) 0 (rr_req_id rr)
    (m_env (get_mod c i))"
  have rr: "rr_wf rr" "\<forall>r \<in> set rest. rr_wf r" using assms(2) Cons by (auto simp: fiber_bufs_def)
  have "fiber_bufs A i (fst ?d)"
    by (rule fiber_bufs_set_src [OF fiber_bufs_rq [OF assms(2) rr(2)] readable_rr [OF rr(1)]])
  then have "bufs_at A i (set_mod i ((put_fiber ((fst ?d)\<lparr>f_async_outstanding := n\<rparr>) (get_mod c i))\<lparr>m_env := en\<rparr>) c)"
    for n en
    using assms(1) by (auto intro!: bufs_set mod_bufs_put bufs_get)
  with assms Cons show ?thesis by (simp add: coseq_wait_reply_def Let_def split_def)
qed

lemma bufs_api_step:
  assumes "bufs_at A i c" and f: "get_fiber (get_mod c i) p = Some f" and "honest (A i) prog"
  shows "case api_step c i f prog of Continue c' p' \<Rightarrow> bufs_at A i c' \<and> honest (A i) p' | Yielded c' \<Rightarrow> bufs_at A i c'"
proof -
  have fb: "fiber_bufs A i f" and idx: "m_idx (get_mod c i) = int i"
    by (rule mod_bufs_fiber [OF bufs_get [OF assms(1)] f] mod_bufs_idx [OF bufs_get [OF assms(1)] f])+
  note put = bufs_set [OF assms(1) mod_bufs_put [OF bufs_get [OF assms(1)]]]
  have env: "bufs_at A i (set_mod i ((put_fiber g (get_mod c i))\<lparr>m_env := en\<rparr>) c)" if "fiber_bufs A i g" for g en
    using assms(1) that by (auto intro!: bufs_set mod_bufs_put bufs_get)
  show ?thesis
  proof (cases prog)
    case Return
    have "fiber_bufs A i (f\<lparr>f_done := True, f_ctx := Finished\<rparr>)"
      using fiber_bufs_ctx [of A i "f\<lparr>f_done := True\<rparr>" Finished] fb by simp
    with put Return show ?thesis by (simp add: fiber_return_def)
  next
    case (Wait_timeout ms q)
    have "fiber_bufs A i (f\<lparr>f_waiting_timer := True, f_deadline := d, f_ctx := After_wait_timeout q\<rparr>)" for d
      using fiber_bufs_ctx [of A i "f\<lparr>f_waiting_timer := True, f_deadline := d\<rparr>" "After_wait_timeout q"] fb
        assms(3) Wait_timeout by simp
    with env Wait_timeout show ?thesis by (simp add: coseq_wait_timeout_def Let_def split_def)
  next
    case (Wait_reply k)
    with bufs_wait_reply [OF assms(1) fb] assms(3) show ?thesis by simp
  next
    case (Lock q)
    with assms bufs_get [OF assms(1)] show ?thesis by (auto intro!: bufs_set)
  next
    case (Unlock q)
    with assms bufs_get [OF assms(1)] show ?thesis by (auto intro!: bufs_set)
  qed (use assms fb idx in \<open>simp_all add: split_def Let_def coseq_request_def coseq_request_timeout_def bufs_request
      bufs_async bufs_send bufs_reply bufs_notify bufs_reg bufs_unreg\<close>)
qed

section \<open>Turns keep it\<close>

lemma bufs_run_fiber:
  assumes "run_fiber c i p prog = ok c'" and "bufs_at A i c" and "honest (A i) prog"
  shows "bufs_at A i c'"
proof -
  let ?P = "\<lambda>i c prog y. bufs_at A i c \<longrightarrow> honest (A i) prog \<longrightarrow> (case y of Inl (u :: ub) \<Rightarrow> True | Inr c' \<Rightarrow> bufs_at A i c')"
  have "?P i c prog (Inr c')"
  proof (rule run_fiber.raw_induct [where P = "\<lambda>c i p prog y. ?P i c prog y", OF _ assms(1) [unfolded ok_def]],
      intro impI)
    fix g c i p prog y
    assume IH: "\<And>c i p prog y. g c i p prog = Some y \<Longrightarrow> ?P i c prog y"
      and eq: "(case get_fiber (get_mod c i) p of None \<Rightarrow> undef (Use_after_free p c)
        | Some f \<Rightarrow> case api_step c i f prog of
            Continue c' prog' \<Rightarrow> g c' i p prog' | Yielded c' \<Rightarrow> ok c') = Some y"
      and c: "bufs_at A i c" and h: "honest (A i) prog"
    show "case y of Inl u \<Rightarrow> True | Inr c' \<Rightarrow> bufs_at A i c'"
    proof (cases "get_fiber (get_mod c i) p")
      case None
      with eq show ?thesis by (auto simp: undef_def)
    next
      case (Some f)
      note st = bufs_api_step [OF c Some h]
      show ?thesis
        using eq Some st IH by (cases "api_step c i f prog") (auto simp: ok_def)
    qed
  qed
  then show ?thesis using assms(2,3) by simp
qed

lemma bufs_resume:
  assumes "resume c i p = ok c'" and "bufs_at A i c"
  shows "bufs_at A i c'"
proof -
  have v: "valid_mod c i" using assms(2) by (simp add: bufs_at_def)
  obtain f where f: "get_fiber (get_mod c i) p = Some f"
    using assms(1) by (auto simp: resume_def Let_def split: option.splits)
  then have fb: "fiber_bufs A i f" by (rule mod_bufs_fiber [OF bufs_get [OF assms(2)]])
  obtain prog c2 where prog: "entry_prog f = Some prog" and run: "run_fiber (enter c i f) i p prog = ok c2"
    and c': "c' = leave i c2"
    using assms(1) unfolding resume_unfold [OF v f] by (auto simp: obind_eq_ok split: option.splits)
  have "honest (A i) prog"
    using fb prog by (cases "f_ctx f") (auto simp: fiber_bufs_def entry_prog_def)
  moreover have "fiber_bufs A i (switched f)"
    using fb by (simp add: switched_def fiber_bufs_def buf_wf_def)
  then have "bufs_at A i (enter c i f)"
    using assms(2) by (auto simp: enter_def intro!: bufs_set mod_bufs_put bufs_get)
  ultimately have "bufs_at A i c2" using bufs_run_fiber [OF run] by blast
  then show ?thesis unfolding c' leave_def by (auto intro!: bufs_set simp: bufs_get)
qed

lemma readable_ev: "ev_wf e \<Longrightarrow> readable (e_msg e) (e_msg_size e)"
  by (auto simp: ev_wf_def readable_def split: option.splits)

lemma bufs_set_src:
  assumes "bufs_at A i c" and "fiber_bufs A i f" and "readable msg sz" and "mod_bufs A i m"
  shows "bufs_at A i (set_mod i ((put_fiber (fst (set_src f msg sz r t s cl rid en)) m)\<lparr>m_env := en'\<rparr>) c)"
  using assms by (auto intro!: bufs_set mod_bufs_put fiber_bufs_set_src)

lemma queue_reply_bufs:
  assumes "mod_bufs A i m" and "fiber_bufs A i f" and "ev_wf e"
  shows "mod_bufs A i (queue_reply m f e)"
proof -
  have "fiber_bufs A i (rq_put f rr)" if "rr_wf rr" for rr
    using assms(2) that unfolding rq_put_def by (intro fiber_bufs_rq) (auto simp: fiber_bufs_def)
  then have put: "mod_bufs A i (put_fiber (rq_put f rr) m)" if "rr_wf rr" for rr
    using that assms(1) by (simp add: mod_bufs_put)
  show ?thesis
    using assms(1,3)
    by (auto simp: queue_reply_def Let_def split_def rr_wf_def ev_wf_def intro!: put split: option.splits)
qed

lemma bufs_handle_reply:
  assumes "handle_reply c i e = ok c'" and "bufs_at A i c" and "ev_wf e"
  shows "bufs_at A i c'"
proof (cases "pending_peek (get_mod c i) (e_req_id e)")
  case None
  with assms show ?thesis by (simp add: handle_reply_def)
next
  case (Some p)
  let ?m = "snd (pending_take (get_mod c i) (e_req_id e))"
  have m: "mod_bufs A i ?m" using bufs_get [OF assms(2)] by simp
  obtain f where f: "get_fiber ?m p = Some f"
    using assms(1) Some by (auto simp: handle_reply_def Let_def split: option.splits)
  have fb: "fiber_bufs A i f" by (rule mod_bufs_fiber [OF m f])
  have deliver: "bufs_at A i c'" if "deliver_reply c i ?m f e = ok c'"
    using that bufs_resume bufs_set_src [OF assms(2) fb readable_ev [OF assms(3)] m]
    unfolding deliver_reply_def split_def Let_def by blast
  have queue: "bufs_at A i (set_mod i (queue_reply ?m f e) c)"
    by (rule bufs_set [OF assms(2) queue_reply_bufs [OF m fb assms(3)]])
  show ?thesis
    using assms(1) Some f deliver queue by (auto simp: handle_reply_def Let_def split: if_splits)
qed

lemma bufs_timer_one:
  assumes "timer_one i now p c = ok c'" and "bufs_at A i c"
  shows "bufs_at A i c'"
proof -
  let ?m = "get_mod c i"
  obtain f where f: "get_fiber ?m p = Some f"
    using assms(1) by (auto simp: timer_one_def Let_def split: option.splits)
  let ?m1 = "snd (pending_take ?m (f_wait_req_id f))"
  have fb: "fiber_bufs A i f" by (rule mod_bufs_fiber [OF bufs_get [OF assms(2)] f])
  have "readable None 0" by (simp add: readable_def)
  note src = bufs_set_src [OF assms(2) fb this]
  have "mod_bufs A i ?m1" using bufs_get [OF assms(2)] by simp
  from src [OF this] bufs_resume assms(2) show ?thesis
    using assms(1) f by (auto simp: timer_one_def Let_def split_def split: if_splits)
qed

lemma bufs_start_fiber:
  assumes "(case rp of None \<Rightarrow> ok (set_mod i m1 c)
     | Some p \<Rightarrow> (case get_fiber m1 p of None \<Rightarrow> undef (Use_after_free p c)
         | Some f \<Rightarrow> resume (set_mod i (put_fiber (f\<lparr>f_seq_name := nm\<rparr>) m1) c) i p)) = ok c'"
    and "new_fiber (get_mod c i) fn s q r msg sz res t cl = (rp, m1)"
    and "bufs_at A i c" and "honest (A i) fn" and "readable msg sz" and "asked A i q s"
    and "m_idx (get_mod c i) = int i"
  shows "bufs_at A i c'"
proof (cases rp)
  case None
  then obtain en where "m1 = (get_mod c i)\<lparr>m_env := en\<rparr>" using new_fiber_None assms(2) by blast
  with assms(1,3) None show ?thesis by (auto intro!: bufs_set simp: bufs_get)
next
  case (Some p)
  obtain f0 en where m1: "m1 = (get_mod c i)\<lparr>m_env := en, m_next_fptr := m_next_fptr (get_mod c i) + 1,
      m_fibers := f0 # m_fibers (get_mod c i)\<rparr>" and "fresh_fiber f0" and "f_fn f0 = fn"
    and "f_reply_to f0 = q" and "f_seq_idx f0 = s" and "readable msg sz \<Longrightarrow> buf_wf f0"
    by (rule new_fiber_Some [OF assms(2) [unfolded Some]]) blast
  then have f0: "fiber_bufs A i f0" using assms(4-6) by (simp add: fiber_bufs_def fresh_fiber_def)
  then have m: "mod_bufs A i m1" using bufs_get [OF assms(3)] assms(7) by (auto simp: m1 mod_bufs_def idx_ok_def)
  obtain f where f: "get_fiber m1 p = Some f"
    and res: "resume (set_mod i (put_fiber (f\<lparr>f_seq_name := nm\<rparr>) m1) c) i p = ok c'"
    using assms(1) Some by (auto split: option.splits)
  have "fiber_bufs A i (f\<lparr>f_seq_name := nm\<rparr>)" using mod_bufs_fiber [OF m f] by simp
  then show ?thesis
    by (intro bufs_resume [OF res] bufs_set [OF assms(3)] mod_bufs_put [OF m])
qed

lemma bufs_event_one:
  assumes "event_one i e c = ok c'" and "bufs_at A i c" and "ev_good A i e"
  shows "bufs_at A i c'"
proof -
  let ?m = "get_mod c i"
  note m = bufs_get [OF assms(2)]
  have start: "bufs_at A i c'" if "start_sequence c i e = ok c'" and t: "e_type e = EV_START"
  proof (cases "m_nr_seq ?m \<le> e_seq_idx e")
    case True
    with that m assms(2) show ?thesis by (auto simp: start_sequence_def Let_def)
  next
    case False
    with that have idx: "unat (e_seq_idx e) < length (m_seqs ?m)"
      by (auto simp: start_sequence_def Let_def split: if_splits)
    then have h: "honest (A i) (sq_fn (m_seqs ?m ! unat (e_seq_idx e)))" using m by (simp add: mod_bufs_def)
    have mi: "m_idx ?m = int i" using idx m by (auto simp: mod_bufs_def idx_ok_def)
    obtain rp m1 where new: "new_fiber ?m (sq_fn (m_seqs ?m ! unat (e_seq_idx e))) (e_seq_idx e) (e_requester e)
        (e_req_id e) (e_msg e) (e_msg_size e) COSEQ_RSLT_IGNORE (word_of_int (e_requester e)) 0 = (rp, m1)"
      by fastforce
    show ?thesis
      by (rule bufs_start_fiber [OF _ new assms(2) h readable_ev [OF ev_good_wf [OF assms(3)]]])
        (use that False idx mi assms(3) t in \<open>auto simp: start_sequence_def Let_def new ev_good_def\<close>)
  qed
  have notify: "bufs_at A i c'" if "run_notify c i e = ok c'"
  proof (cases "m_recv_notify ?m")
    case None
    with that assms(2) show ?thesis by (simp add: run_notify_def)
  next
    case (Some fn)
    have h: "honest (A i) fn" using m Some by (simp add: mod_bufs_def)
    have mi: "m_idx ?m = int i" using Some m by (auto simp: mod_bufs_def idx_ok_def)
    obtain rp m1 where new: "new_fiber ?m fn 0 EXTERNAL 0 (e_msg e) (e_msg_size e) COSEQ_RSLT_SUCCESS
        (word_of_int (e_requester e)) (e_client_id e) = (rp, m1)" by fastforce
    show ?thesis
      by (rule bufs_start_fiber [OF _ new assms(2) h readable_ev [OF ev_good_wf [OF assms(3)]]])
        (use that Some mi in \<open>auto simp: run_notify_def Let_def new asked_def\<close>)
  qed
  have "mod_bufs A i (defer_ev ?m e)" using m assms(3) by (auto simp: mod_bufs_def defer_ev_def idx_ok_def)
  with assms(2) have "bufs_at A i (set_mod i (defer_ev ?m e) c)" by blast
  with start notify bufs_handle_reply [OF _ assms(2) ev_good_wf [OF assms(3)]] show ?thesis
    using assms(1) by (auto simp: event_one_def Let_def split: if_splits)
qed

lemma bufs_sched_iter:
  assumes "sched_iter i c = ok (b, c')" and "bufs_at A i c"
  shows "bufs_at A i c'"
proof -
  have splice: "bufs_at A i (set_mod i (sched_splice (get_mod c i)) c)"
    using bufs_get [OF assms(2)] by (intro bufs_set [OF assms(2)]) (auto simp: sched_splice_def mod_bufs_def idx_ok_def)
  have turn: "bufs_at A i c'" if t: "sched_turn i d = ok (b, c')" and d: "bufs_at A i d" for d
  proof (cases "m_stop (get_mod d i)")
    case True
    with t d show ?thesis by (simp add: sched_turn_def)
  next
    case False
    let ?m = "get_mod d i" and ?now = "now_ts (m_env (get_mod d i))"
    obtain c2 c3 where c2: "ofold (timer_one i (fst ?now)) (map f_self (m_fibers ?m))
        (set_mod i (?m\<lparr>m_inbox := [], m_env := snd ?now\<rparr>) d) = ok c2"
      and c3: "ofold (event_one i) (m_inbox ?m) c2 = ok c3"
      and c': "c' = set_mod i (reap_done (get_mod c3 i)) c3"
      using t False by (auto simp: sched_turn_def Let_def split_def obind_eq_ok)
    have m: "mod_bufs A i ?m" by (rule bufs_get [OF d])
    then have "mod_bufs A i (?m\<lparr>m_inbox := [], m_env := snd ?now\<rparr>)" by (simp add: mod_bufs_def idx_ok_def)
    from bufs_set [OF d this] have "bufs_at A i c2"
      by (rule ofold_inv [where I = "bufs_at A i", OF c2]) (rule bufs_timer_one)
    then have "bufs_at A i c3"
      by (rule ofold_inv [where I = "bufs_at A i", OF c3]) (use m bufs_event_one in \<open>auto simp: mod_bufs_def\<close>)
    then show ?thesis
      unfolding c' by (intro bufs_set) (use bufs_get in \<open>fastforce simp: mod_bufs_def reap_done_def idx_ok_def\<close>)+
  qed
  show ?thesis by (rule turn [OF _ splice]) (use assms(1) in \<open>simp add: sched_iter_def\<close>)
qed

section \<open>Every reachable state\<close>

definition honest_reg :: "directory option \<Rightarrow> coseq_reg_t \<Rightarrow> bool" where
  "honest_reg A r \<longleftrightarrow> (\<forall>sq \<in> set (r_seq_array r). honest A (sq_fn sq)) \<and>
     (\<forall>fn. r_recv_notify r = Some fn \<longrightarrow> honest A fn)"

definition honest_table :: "directory option \<Rightarrow> coseq_reg_t list \<Rightarrow> bool" where
  "honest_table A tbl \<longleftrightarrow> (\<forall>r \<in> set tbl. honest_reg A r)"

definition honest_modules :: "views \<Rightarrow> coseq_reg_t list \<Rightarrow> bool" where
  "honest_modules A tbl \<longleftrightarrow> (\<forall>i < length tbl. honest_reg (A i) (tbl ! i))"

lemma honest_table_modules: "honest_table A tbl \<longleftrightarrow> honest_modules (\<lambda>_. A) tbl"
  by (simp add: honest_table_def honest_modules_def all_set_conv_all_nth)

lemma mailbox_wf_upd [simp]:
  "mailbox_wf (c\<lparr>ext_wait_rid := w\<rparr>) = mailbox_wf c" "mailbox_wf (c\<lparr>ext_id := w\<rparr>) = mailbox_wf c"
  "mailbox_wf (c\<lparr>ext_ready := b\<rparr>) = mailbox_wf c" "mailbox_wf (c\<lparr>ext_msg := None, ext_size := 0\<rparr>)"
  by (simp_all add: mailbox_wf_def)

lemma bufs_external:
  assumes "bufs_at A i c" and "c1 = c\<lparr>ext_id := a\<rparr> \<or> c1 = c\<lparr>ext_id := a, ext_wait_rid := w, ext_ready := b\<rparr>"
    and "readable msg n"
  shows "bufs_at A i (fst (post c1 dest (fst (make_ev t s r EXTERNAL res msg n en)) en1))"
  by (rule bufs_post) (use assms in \<open>auto intro!: make_ev_good\<close>)

lemma bufs_step:
  assumes "sys_step c c'" and "bufs_at A i c"
  shows "bufs_at A i c'"
  using assms(1)
proof (cases rule: sys_step.cases)
  case (turn j evs late b c1)
  then have j: "bufs_at A j c" using assms(2) by (simp add: bufs_at_def)
  note old = bufs_get [OF j] and evs = arrived_set [OF turn(4)]
  have "mod_bufs A j ((get_mod c j)\<lparr>m_inbox := evs\<rparr>)"
    using old evs by (auto simp: mod_bufs_def idx_ok_def)
  then have "bufs_at A j (set_inbox j evs c)" unfolding set_inbox_def by (rule bufs_set [OF j])
  from bufs_sched_iter [OF turn(5) this] have d: "bufs_at A j c1" .
  have "mod_bufs A j ((get_mod c1 j)\<lparr>m_inbox := late @ m_inbox (get_mod c1 j)\<rparr>)"
    using bufs_get [OF d] old evs by (auto simp: mod_bufs_def idx_ok_def)
  then have "bufs_at A j c'" unfolding turn(1) set_inbox_def by (rule bufs_set [OF d])
  then have "bufs A c'" by (simp add: bufs_at_def)
  then show ?thesis using assms(2) by (simp add: bufs_at_def bufs_def)
next
  case (sync_begin mi si msg n en rid en')
  have "c' = fst (post (c\<lparr>ext_id := ext_id c + 1, ext_wait_rid := ext_id c, ext_ready := False\<rparr>) (uint mi)
      (fst (make_ev EV_START si (ext_id c) EXTERNAL COSEQ_RSLT_IGNORE msg n en))
      (snd (make_ev EV_START si (ext_id c) EXTERNAL COSEQ_RSLT_IGNORE msg n en)))"
    using sync_begin(1) by (auto simp: request_sync_begin_def Let_def split_def)
  then show ?thesis using bufs_external [OF assms(2) disjI2 [OF refl] sync_begin(2)] by simp
next
  case (sync_end t rid mi si en t' en')
  then show ?thesis
    using assms(2)
    by (auto simp: request_sync_end_def Let_def split_def bufs_at_def bufs_def nr_ok_def mailbox_wf_def split: if_splits)
next
  case (async mi si msg n en en')
  have "c' = fst (post (c\<lparr>ext_id := ext_id c + 1\<rparr>) (uint mi)
      (fst (make_ev EV_START si (ext_id c) EXTERNAL COSEQ_RSLT_IGNORE msg n en))
      (snd (make_ev EV_START si (ext_id c) EXTERNAL COSEQ_RSLT_IGNORE msg n en)))"
    using async(1) by (simp add: request_async_def Let_def split_def)
  then show ?thesis using bufs_external [OF assms(2) disjI1 [OF refl] async(2)] by simp
qed

text \<open>Setup does not touch the mailbox.\<close>

lemma stop_modules_mailbox [simp]:
  "ext_msg (stop_modules nr c) = ext_msg c" "ext_size (stop_modules nr c) = ext_size c"
proof -
  have "ext_msg (for_modules nr g c) = ext_msg c \<and> ext_size (for_modules nr g c) = ext_size c" for nr g c
    by (induction nr) simp_all
  then show "ext_msg (stop_modules nr c) = ext_msg c" "ext_size (stop_modules nr c) = ext_size c"
    by (simp_all add: stop_modules_def)
qed

lemma init_modules_mailbox:
  "mailbox_wf (fst (snd (init_modules rs i envs c en))) = mailbox_wf c"
  by (induction rs arbitrary: i c en)
    (simp_all add: init_modules_Cons Let_def split_def mailbox_wf_def)

lemma create_threads_mailbox:
  "mailbox_wf (fst (snd (create_threads n i nr c en))) = mailbox_wf c"
  by (induction n arbitrary: i c en) (simp_all add: Let_def split_def mailbox_wf_def)

lemma setup_mailbox:
  "mailbox_wf (fst (snd (coseq_setup c tbl nr envs en))) = mailbox_wf c"
  using init_modules_mailbox [of "take (unat nr) tbl" 0 envs "c\<lparr>nr_module := uint nr\<rparr>" en]
  by (simp add: coseq_setup_def Let_def split_def create_threads_mailbox) (simp add: mailbox_wf_def)

text \<open>The directory of a table.\<close>

definition directory :: "coseq_reg_t list \<Rightarrow> directory" where
  "directory tbl d = (if 0 \<le> d \<and> d < int (length tbl) then Some (r_nr_seq_max (tbl ! nat d)) else None)"

text \<open>Views that show part of the table.\<close>

definition views_of :: "coseq_reg_t list \<Rightarrow> views \<Rightarrow> bool" where
  "views_of tbl A \<longleftrightarrow> (\<forall>j D d n. A j = Some D \<longrightarrow> D d = Some n \<longrightarrow> directory tbl d = Some n)"

lemma views_of_all [simp]: "views_of tbl (\<lambda>_. None)" "views_of tbl (\<lambda>_. Some (directory tbl))"
  by (simp_all add: views_of_def)

lemma views_listed: "views_of tbl A \<Longrightarrow> i < length tbl \<Longrightarrow> listed A i (r_nr_seq_max (tbl ! i))"
  by (fastforce simp: listed_def views_of_def directory_def)

lemma views_unlisted: "views_of tbl A \<Longrightarrow> \<not> i < length tbl \<Longrightarrow> listed A i n"
  by (fastforce simp: listed_def views_of_def directory_def)

lemma reachable_views:
  assumes "reachable tbl c" and "honest_modules A tbl" and A: "views_of tbl A"
  shows "bufs A c"
  using assms(1)
proof induction
  case (start nr envs en c en')
  note ok = coseq_setup_ok [OF start fresh_ctx_simps(1)]
  have "unat nr \<le> MAX_MODULE"
    using start(1) by (auto simp: coseq_setup_def split: if_splits)
  then have "nr_ok c" unfolding nr_ok_def ok(1,2) by (metis of_nat_mono uint_nat)
  moreover have "mailbox_wf c"
    using setup_mailbox [of fresh_ctx tbl nr envs en] start(1)
    by (simp add: fresh_ctx_def zero_ctx_def mailbox_wf_def)
  moreover have "mod_bufs A i (get_mod c i)" if i: "i < MAX_MODULE" for i
  proof (cases "i < unat nr")
    case True
    then have t: "i < length tbl" using start(2) by simp
    with assms(2) True views_listed [OF A t] show ?thesis
      by (auto simp: ok(4) mod_bufs_def idx_ok_def booted_fields honest_modules_def honest_reg_def)
  next
    case False
    with i start(2) views_unlisted [OF A] show ?thesis by (simp add: ok(4) mod_bufs_def idx_ok_def zero_module_def)
  qed
  ultimately show ?case using ok(2) by (simp add: bufs_def)
next
  case (more c c')
  then have "bufs_at A 0 c" by (simp add: bufs_at_def bufs_def MAX_MODULE_def)
  from bufs_step [OF more(2) this] show ?case by (simp add: bufs_at_def)
qed

lemma reachable_bufs:
  assumes "reachable tbl c" and "honest_table A tbl" and "A = None \<or> A = Some (directory tbl)"
  shows "bufs (\<lambda>_. A) c"
  by (rule reachable_views [OF assms(1)]) (use assms(2,3) honest_table_modules views_of_all in \<open>auto\<close>)

lemma honest_gather:
  assumes "\<And>m u. honest A (k m u)"
  shows "honest A (coseq_gather cb u n k)"
proof (coinduction arbitrary: u n)
  case honest
  have "coseq_gather cb u n k = Wait_reply (\<lambda>r. case r of
     None \<Rightarrow> k n u | Some s \<Rightarrow> coseq_gather cb (cb s u) (n + 1) k)" by (rule coseq_gather.code)
  with assms show ?case by (auto split: option.split)
qed

lemma honest_gather_writing:
  assumes "\<And>m u. honest A (k m u)"
  shows "honest A (gather_writing line cb got u n k)"
proof (coinduction arbitrary: got u n)
  case honest
  show ?case
  proof (cases got)
    case None
    show ?thesis unfolding None gather_writing_code(1) using assms by (auto split: option.split)
  next
    case (Some s)
    show ?thesis unfolding Some gather_writing_code(2) put_text_def by auto
  qed
qed

lemma honest_c_loop: "honest A (c_loop_round fired n)"
proof (coinduction arbitrary: fired n)
  case honest
  show ?case
  proof (cases fired)
    case True
    then have "c_loop_round fired n = Notify NOTIFY_CAT_1 (Some (notify_text (n + 1)))
        (length (notify_text (n + 1))) (\<lambda>_. c_loop_round False (n + 1))"
      using c_loop_simps(2) [of n] by simp
    then show ?thesis by (auto simp: readable_def)
  next
    case False
    then have "c_loop_round fired n = Wait_timeout 300 (c_loop_round True n)"
      using c_loop_simps(1) [of n] by simp
    then show ?thesis by auto
  qed
qed

lemma sample_known:
  "known (Some (directory sample_tbl)) (uint MOD_B) B_CHAIN" "known (Some (directory sample_tbl)) (uint MOD_B) B_SLOW"
  "known (Some (directory sample_tbl)) (uint MOD_C) C_REGISTER" "known (Some (directory sample_tbl)) (uint MOD_C) C_WORK"
  by (simp_all add: known_def directory_def sample_tables sample_ids)

lemma sample_honest:
  assumes "A = None \<or> A = Some (directory sample_tbl)"
  shows "honest_table A sample_tbl"
proof -
  have "known A (uint MOD_B) B_CHAIN" "known A (uint MOD_B) B_SLOW" "known A (uint MOD_C) C_REGISTER"
    "known A (uint MOD_C) C_WORK"
    using assms sample_known by auto
  then show ?thesis
    by (simp add: honest_table_def honest_reg_def sample_tables a_echo_def a_chain_def a_sub_def a_reqto_def a_fanout_def
        a_gather_def a_recv_notify_def b_chain_def b_slow_def c_loop_def c_register_def c_work_def
        honest_c_loop honest_gather_writing put_text_def Let_def readable_def split: option.split)
qed

lemma ev_wf_size: "ev_wf e \<Longrightarrow> e_msg_size e = (case e_msg e of None \<Rightarrow> 0 | Some b \<Rightarrow> length b)"
  by (auto simp: ev_wf_def buf_wf_def split: option.splits)

lemma rr_wf_size: "rr_wf r \<Longrightarrow> rr_size r = (case rr_msg r of None \<Rightarrow> 0 | Some b \<Rightarrow> length b)"
  by (auto simp: rr_wf_def buf_wf_def split: option.splits)

lemma mailbox_wf_size: "mailbox_wf c \<Longrightarrow> ext_size c = (case ext_msg c of None \<Rightarrow> 0 | Some b \<Rightarrow> length b)"
  by (simp add: mailbox_wf_def)

text \<open>
  C14: Every size is the size of its buffer. If the sequences of the table pass buffers that hold what they
  say, then in every reachable state, whatever allocations have failed, the message of each event
  in an inbox or set aside is as long as the event says, and so is each queued reply and the
  mailbox; the buffer of each fiber has the recorded capacity, and the message its source shows lies
  inside it.
\<close>

theorem buffers_match_sizes:
  assumes "reachable tbl c" and "honest_table None tbl" and "valid_mod c i"
  shows "(\<forall>e \<in> set (m_inbox (get_mod c i) @ m_deferred (get_mod c i)).
      e_msg_size e = (case e_msg e of None \<Rightarrow> 0 | Some b \<Rightarrow> length b)) \<and>
    (\<forall>f \<in> set (m_fibers (get_mod c i)). length (f_src_buf f) = f_src_cap f \<and>
      length (s_msg (f_src f)) \<le> f_src_cap f \<and>
      (\<forall>rr \<in> set (f_rq f). rr_size rr = (case rr_msg rr of None \<Rightarrow> 0 | Some b \<Rightarrow> length b))) \<and>
    ext_size c = (case ext_msg c of None \<Rightarrow> 0 | Some b \<Rightarrow> length b)"
proof -
  have c: "bufs (\<lambda>_. None) c" by (rule reachable_bufs [OF assms(1,2)]) simp
  then have m: "mod_bufs (\<lambda>_. None) i (get_mod c i)" using assms(3) by (simp add: bufs_def)
  have "mailbox_wf c" using c by (simp add: bufs_def)
  then show ?thesis
    using m mailbox_wf_size [of c] by (simp add: mod_bufs_def ev_good_def ev_wf_size rr_wf_size fiber_bufs_def buf_wf_def ball_Un)
qed

lemma buffers_match_sizes_witness:
  "let c = fst (request_async (boot sample_tbl) MOD_A A_ECHO (Some [1, 2, 3]) 2 no_env)
   in \<exists>e. m_inbox (get_mod c 0) = [e] \<and> e_msg_size e = (case e_msg e of None \<Rightarrow> 0 | Some b \<Rightarrow> length b)"
proof -
  define c where "c = fst (request_async (boot sample_tbl) MOD_A A_ECHO (Some [1, 2, 3]) 2 no_env)"
  have "reachable sample_tbl c"
    unfolding c_def
    by (rule reachable.more [OF boot_reachable [OF sample_small] sys_step.async])
      (rule prod.collapse [symmetric], simp add: readable_def)
  moreover have "length (m_inbox (get_mod c 0)) = 1" "valid_mod c 0"
    using boot_simps [OF sample_small]
    by (simp_all add: c_def request_async_def Let_def split_def post_def make_ev_def inbox_put_def MOD_A_def
        sample_length MAX_MODULE_def booted_fields lib_call_def)
  ultimately show ?thesis
    using buffers_match_sizes [OF _ sample_honest, of c 0]
    by (auto simp: Let_def c_def [symmetric] length_Suc_conv)
qed

end
