(* ===== verification/CoseqScenario.thy ===== *)
theory CoseqScenario
  imports CoseqSystem
begin

text \<open>
  Runs of whole instances, evaluated: a table whose sequences do not collect their replies, and
  the echo of the sample with any message.
\<close>

section \<open>An uncollected reply\<close>

definition leak_tbl :: "coseq_reg_t list" where
  "leak_tbl = [\<lparr>r_name = Some ''m'', r_nr_que_max = 4,
     r_seq_array = [seq_entry (Request_async 0 1 None 0 (\<lambda>_. Return)) ''ask'',
       seq_entry (Reply COSEQ_RSLT_SUCCESS None 0 Return) ''answer''],
     r_nr_seq_max = 2, r_recv_notify = None, r_user = 0\<rparr>]"

lemma leak_small: "length leak_tbl \<le> MAX_MODULE"
  by (simp add: leak_tbl_def MAX_MODULE_def)

text \<open>The surroundings after some library calls and clock readings, and the module in between turns.\<close>

definition env_at :: "nat \<Rightarrow> nat \<Rightarrow> env" where
  "env_at a b = no_env\<lparr>lib_calls := a, clock_reads := b\<rparr>"

definition leak_module :: "ev_t list \<Rightarrow> pending_t list \<Rightarrow> nat \<Rightarrow> nat \<Rightarrow> env \<Rightarrow> module_t" where
  "leak_module inbox ps n p en = (booted 0 (leak_tbl ! 0) en)\<lparr>m_inbox := inbox, m_pending := ps,
     m_next_req_id := n, m_next_fptr := p\<rparr>"

definition event :: "ev_type_t \<Rightarrow> u8 \<Rightarrow> u32 \<Rightarrow> int \<Rightarrow> coseq_result_t \<Rightarrow> ev_t" where
  "event t s r q res = \<lparr>e_type = t, e_seq_idx = s, e_req_id = r, e_requester = q, e_result = res,
     e_category = 0, e_client_id = 0, e_msg = None, e_msg_size = 0\<rparr>"

lemmas module_defs = booted_def inited_def load_module_def zero_module_def no_env_def env_at_def
  event_def seq_entry_def

lemma word_facts: "\<not> (2 :: u8) \<le> 1" "\<not> (2 :: u8) \<le> 0" "\<not> (3 :: u8) \<le> 2"  "\<not> (6 :: u8) \<le> 1" "\<not> (6 :: u8) \<le> 0"
  by (simp_all add: word_le_nat_alt)

lemma leak_asks:
  assumes "valid_mod c 0" and "nr_module c = 1"
  shows "sched_iter 0 (set_mod 0 (leak_module [event EV_START 0 r EXTERNAL COSEQ_RSLT_IGNORE] [] 1 0 (env_at 0 0)) c) =
    ok (True, set_mod 0 (leak_module [event EV_START 1 1 0 COSEQ_RSLT_IGNORE] [\<lparr>p_req_id = 1, p_f = 0\<rparr>] 2 1
      (env_at 5 1)) c)"
  using assms
  by (simp add: leak_module_def leak_tbl_def module_defs eval_defs Let_def word_facts eval_nat_numeral)

lemma leak_answers:
  assumes "valid_mod c 0" and "nr_module c = 1"
  shows "sched_iter 0 (set_mod 0 (leak_module [event EV_START 1 1 0 COSEQ_RSLT_IGNORE] [\<lparr>p_req_id = 1, p_f = 0\<rparr>] 2 1
      (env_at 5 1)) c) =
    ok (True, set_mod 0 (leak_module [event EV_REPLY 0 1 0 COSEQ_RSLT_SUCCESS] [\<lparr>p_req_id = 1, p_f = 0\<rparr>] 2 2
      (env_at 9 2)) c)"
  using assms
  by (simp add: leak_module_def leak_tbl_def module_defs eval_defs Let_def word_facts eval_nat_numeral)

lemma leak_strikes:
  assumes "valid_mod c 0" and "nr_module c = 1"
  shows "\<exists>c1. sched_iter 0 (set_mod 0 (leak_module [event EV_REPLY 0 1 0 COSEQ_RSLT_SUCCESS]
      [\<lparr>p_req_id = 1, p_f = 0\<rparr>] 2 2 (env_at 9 2)) c) = undef (Use_after_free 0 c1)"
  using assms
  by (simp add: leak_module_def leak_tbl_def module_defs eval_defs Let_def word_facts eval_nat_numeral)

text \<open>
  C3: An uncollected reply makes the scheduler use a freed fiber. Two sequences suffice: the first makes
  an asynchronous request to the second and returns without waiting for the reply. Its fiber is
  freed at the end of the turn, its entry stays in the table, and the turn that handles the reply
  reads the freed fiber.
\<close>

theorem uncollected_reply_uses_freed_fiber:
  "\<exists>c p c1. reachable leak_tbl c \<and> sched_iter 0 c = undef (Use_after_free p c1)"
proof -
  let ?c0 = "fst (request_async (boot leak_tbl) 0 0 None 0 no_env)"
  let ?b = "(boot leak_tbl)\<lparr>ext_id := ext_id (boot leak_tbl) + 1\<rparr>"
  have b: "valid_mod ?b 0" "nr_module ?b = 1"
    using boot_simps [OF leak_small] by (simp_all add: leak_tbl_def MAX_MODULE_def)
  have "get_mod (boot leak_tbl) 0 = leak_module [] [] 1 0 (env_at 0 0)"
    using boot_simps(3) [OF leak_small] by (simp add: leak_tbl_def leak_module_def module_defs)
  then have c0: "?c0 = set_mod 0 (leak_module [event EV_START 0 (ext_id (boot leak_tbl)) EXTERNAL
      COSEQ_RSLT_IGNORE] [] 1 0 (env_at 0 0)) ?b"
    using b by (simp add: request_async_def eval_defs Let_def leak_module_def leak_tbl_def module_defs)
  have v: "valid_mod (set_mod 0 m ?b) 0" "m_th_started (get_mod (set_mod 0 (leak_module evs ps n q en) ?b) 0)"
    for m evs ps n q en
    using b by (simp_all add: leak_module_def module_defs)
  have "reachable leak_tbl ?c0"
    by (rule reachable.more [OF boot_reachable [OF leak_small] sys_step.async])
      (rule prod.collapse [symmetric], simp add: readable_def)
  note r1 = reachable.more [OF this [unfolded c0] sys_turn [OF v leak_asks [OF b]]]
  note r2 = reachable.more [OF r1 sys_turn [OF v leak_answers [OF b]]]
  from r2 leak_strikes [OF b] show ?thesis by blast
qed

section \<open>The echo of the sample\<close>

lemma sample_modules:
  "get_mod (boot sample_tbl) 0 = booted 0 (sample_tbl ! 0) no_env"
  "get_mod (boot sample_tbl) 1 = booted 1 (sample_tbl ! 1) no_env"
  "get_mod (boot sample_tbl) 2 = booted 2 (sample_tbl ! 2) no_env"
  "length (modules (boot sample_tbl)) = 32" "nr_module (boot sample_tbl) = 3"
  using boot_simps [OF sample_small] by (simp_all add: sample_length MAX_MODULE_def)

definition echo_start :: "u32 \<Rightarrow> u8 list \<Rightarrow> ev_t" where
  "echo_start rid b = (event EV_START A_ECHO rid EXTERNAL COSEQ_RSLT_IGNORE)\<lparr>
     e_msg := (if b = [] then None else Some b), e_msg_size := length b\<rparr>"

lemma echo_turn:
  assumes "valid_mod c 0" and "ext_wait_rid c = rid"
    and m: "get_mod c 0 = (booted 0 (sample_tbl ! 0) no_env)\<lparr>m_inbox := [echo_start rid b]\<rparr>"
  shows "\<exists>c2. sched_iter 0 c = ok (True, c2) \<and> ext_ready c2 \<and> ext_result c2 = COSEQ_RSLT_SUCCESS \<and>
    ext_msg c2 = (if b = [] then None else Some b) \<and> ext_size c2 = length b"
proof (cases b)
  case Nil
  then show ?thesis using assms
    by (simp add: m sample_tables a_echo_def module_defs echo_start_def sample_ids eval_defs Let_def)
next
  case (Cons x xs)
  then show ?thesis using assms
    by (simp add: m sample_tables a_echo_def module_defs echo_start_def sample_ids eval_defs Let_def)
qed

text \<open>
  C24: The echo of the sample returns any message. A thread outside the modules that sends bytes to
  \<open>A_ECHO\<close> of the freshly set up sample with \<open>request_sync\<close> wakes up after one turn of module A, with the
  result \<open>SUCCESS\<close> and exactly these bytes.
\<close>

theorem sample_echo_roundtrip:
  assumes "n \<le> length b" and "length (tls_buf t) = tls_cap t"
    and "request_sync_begin (boot sample_tbl) MOD_A A_ECHO (Some b) n no_env = (rid, c1, en1)"
  shows "\<exists>c2. sched_iter 0 c1 = ok (True, c2) \<and> ext_ready c2 \<and>
    (let s = tls_s (fst (request_sync_end c2 t rid MOD_A A_ECHO no_env))
     in s_msg s = take n b \<and> s_result s = COSEQ_RSLT_SUCCESS \<and> s_req_id s = rid)"
proof -
  let ?b = "take n b"
  have "length (modules c1) = 32"
    using request_sync_begin_grows [OF reachable_life(1) [OF boot_reachable [OF sample_small] sample_table_wf] assms(3)]
      sample_modules(4) by (simp add: all_grow_def)
  then have "valid_mod c1 0" by simp
  moreover have "get_mod c1 0 = (booted 0 (sample_tbl ! 0) no_env)\<lparr>m_inbox := [echo_start rid ?b]\<rparr> \<and>
      ext_wait_rid c1 = rid"
    using assms(1,3) sample_modules(1,4,5)
    by (cases "n = 0 \<or> b = []")
      (auto simp: request_sync_begin_def eval_defs Let_def booted_fields event_def no_env_def echo_start_def sample_ids)
  ultimately obtain c2 where "sched_iter 0 c1 = ok (True, c2)" "ext_ready c2" "ext_result c2 = COSEQ_RSLT_SUCCESS"
    "ext_msg c2 = (if ?b = [] then None else Some ?b)" "ext_size c2 = length ?b"
    using echo_turn by blast
  moreover from this assms(1,2)
  have "s_msg (tls_s (fst (request_sync_end c2 t rid MOD_A A_ECHO no_env))) = ?b \<and>
      s_result (tls_s (fst (request_sync_end c2 t rid MOD_A A_ECHO no_env))) = COSEQ_RSLT_SUCCESS \<and>
      s_req_id (tls_s (fst (request_sync_end c2 t rid MOD_A A_ECHO no_env))) = rid"
    by (cases "?b = []") (auto simp: request_sync_end_def Let_def split_def lib_call_def)
  ultimately show ?thesis by (auto simp: Let_def)
qed

lemma sample_echo_roundtrip_witness:
  "let (rid, c1, en1) = request_sync_begin (boot sample_tbl) MOD_A A_ECHO (Some [116, 101]) 2 no_env
   in \<exists>c2. sched_iter 0 c1 = ok (True, c2) \<and> s_msg (tls_s (fst (request_sync_end c2
     \<lparr>tls_s = zero_src, tls_block = 0, tls_buf = [], tls_cap = 0\<rparr> rid MOD_A A_ECHO no_env))) = [116, 101]"
proof -
  obtain rid c1 en1 where b: "request_sync_begin (boot sample_tbl) MOD_A A_ECHO (Some [116, 101]) 2 no_env
      = (rid, c1, en1)" by (metis prod.exhaust)
  from sample_echo_roundtrip [OF _ _ b, of "\<lparr>tls_s = zero_src, tls_block = 0, tls_buf = [], tls_cap = 0\<rparr>"]
  show ?thesis by (auto simp: b Let_def)
qed

end
