(* ===== verification/CoseqCausal.thy ===== *)
theory CoseqCausal
  imports CoseqBuffers CoseqScenario
begin

text \<open>
  No request is lost. An outstanding request is on its way as an event that starts the sequence asked,
  or is being worked on by a fiber that still has to reply, or its reply is on its way back. This
  is an invariant of the whole instance: the request is in the table of one module and what it
  waits for is in another.
\<close>

section \<open>Sequences that reply\<close>

text \<open>
  The sequence sends a reply before it returns. It need not return.
\<close>

coinductive answers :: "seq_prog \<Rightarrow> bool" where
  an_request: "\<forall>s. answers (ks s) \<Longrightarrow> answers (Request mi si msg n ks)"
| an_request_timeout: "\<forall>s. answers (ks s) \<Longrightarrow> answers (Request_timeout mi si msg n ms ks)"
| an_async: "\<forall>r. answers (kr r) \<Longrightarrow> answers (Request_async mi si msg n kr)"
| an_wait: "\<forall>r. answers (kw r) \<Longrightarrow> answers (Wait_reply kw)"
| an_send: "answers p \<Longrightarrow> answers (Send mi si msg n p)"
| an_reply: "answers (Reply res msg n p)"
| an_timeout: "answers p \<Longrightarrow> answers (Wait_timeout ms p)"
| an_source: "\<forall>s. answers (ks s) \<Longrightarrow> answers (Source ks)"
| an_module: "\<forall>w. answers (km w) \<Longrightarrow> answers (Self_module km)"
| an_seq: "\<forall>w. answers (km w) \<Longrightarrow> answers (Self_seq km)"
| an_user: "\<forall>u. answers (ku u) \<Longrightarrow> answers (Self_user ku)"
| an_name: "\<forall>t. answers (kt t) \<Longrightarrow> answers (Self_seq_name kt)"
| an_reg: "\<forall>r. answers (kg r) \<Longrightarrow> answers (Reg_notify cat kg)"
| an_unreg: "\<forall>r. answers (kb r) \<Longrightarrow> answers (Unreg_notify cat cid kb)"
| an_notify: "\<forall>r. answers (kb r) \<Longrightarrow> answers (Notify cat msg n kb)"
| an_lock: "answers p \<Longrightarrow> answers (Lock p)"
| an_unlock: "answers p \<Longrightarrow> answers (Unlock p)"
| an_access: "\<forall>u. answers (ka u) \<Longrightarrow> answers (Access upd ka)"

inductive_cases answersE: "answers p"

lemma answers_simps [simp]:
  "\<not> answers Return"
  "answers (Request mi si msg n ks) \<longleftrightarrow> (\<forall>s. answers (ks s))"
  "answers (Request_timeout mi si msg n ms ks) \<longleftrightarrow> (\<forall>s. answers (ks s))"
  "answers (Request_async mi si msg n kr) \<longleftrightarrow> (\<forall>r. answers (kr r))"
  "answers (Wait_reply kw) \<longleftrightarrow> (\<forall>r. answers (kw r))"
  "answers (Send mi si msg n p) \<longleftrightarrow> answers p"
  "answers (Reply res msg n p)"
  "answers (Wait_timeout ms p) \<longleftrightarrow> answers p"
  "answers (Source ks) \<longleftrightarrow> (\<forall>s. answers (ks s))"
  "answers (Self_module km) \<longleftrightarrow> (\<forall>w. answers (km w))"
  "answers (Self_seq km) \<longleftrightarrow> (\<forall>w. answers (km w))"
  "answers (Self_user ku) \<longleftrightarrow> (\<forall>u. answers (ku u))"
  "answers (Self_seq_name kt) \<longleftrightarrow> (\<forall>t. answers (kt t))"
  "answers (Reg_notify cat kg) \<longleftrightarrow> (\<forall>r. answers (kg r))"
  "answers (Unreg_notify cat cid kb) \<longleftrightarrow> (\<forall>r. answers (kb r))"
  "answers (Notify cat msg n kb) \<longleftrightarrow> (\<forall>r. answers (kb r))"
  "answers (Lock p) \<longleftrightarrow> answers p"
  "answers (Unlock p) \<longleftrightarrow> answers p"
  "answers (Access upd ka) \<longleftrightarrow> (\<forall>u. answers (ka u))"
  by (auto elim: answersE intro: answers.intros)

section \<open>Who owes a reply\<close>

text \<open>What the fiber does when it is switched in, or what the running fiber has left to do.\<close>

fun rest_answers :: "seq_prog \<Rightarrow> ucontext_t \<Rightarrow> bool" where
  "rest_answers fn At_entry = answers fn"
| "rest_answers fn (After_request k) = (\<forall>s. answers (k s))"
| "rest_answers fn (After_wait_reply k) = (\<forall>s. answers (k s))"
| "rest_answers fn (After_wait_timeout p) = answers p"
| "rest_answers fn Finished = False"

type_synonym running = "(fptr \<times> seq_prog) option"

definition owes :: "running \<Rightarrow> fiber_t \<Rightarrow> bool" where
  "owes r f \<longleftrightarrow> (case r of
       Some (p, prog) \<Rightarrow> if f_self f = p then answers prog
         else \<not> f_done f \<and> rest_answers (f_fn f) (f_ctx f)
     | None \<Rightarrow> \<not> f_done f \<and> rest_answers (f_fn f) (f_ctx f))"

text \<open>A request is named by the module that waits for it and its id there.\<close>

definition m_owed :: "running \<Rightarrow> module_t \<Rightarrow> (int \<times> u32) set" where
  "m_owed r m = (\<lambda>f. (f_reply_to f, f_reply_req_id f)) ` {f \<in> set (m_fibers m). owes r f}"

definition ids :: "module_t \<Rightarrow> u32 set" where
  "ids m = p_req_id ` set (m_pending m)"

text \<open>The ids in use are distinct and have been given out.\<close>

definition ids_ok :: "module_t \<Rightarrow> bool" where
  "ids_ok m \<longleftrightarrow> distinct (map p_req_id (m_pending m)) \<and> (\<forall>r \<in> ids m. unat r < m_next_req_id m)"

definition at_most :: "fptr \<Rightarrow> running \<Rightarrow> bool" where
  "at_most p r \<longleftrightarrow> (\<forall>q prog. r = Some (q, prog) \<longrightarrow> q = p)"

lemma at_most_simps [simp]: "at_most p None" "at_most p (Some (p, prog))"
  by (simp_all add: at_most_def)

lemma owes_other: "at_most p r \<Longrightarrow> f_self f \<noteq> p \<Longrightarrow> owes r f = owes None f"
  by (auto simp: owes_def at_most_def split: option.split)

lemma m_owed_private: "m_private m' = m_private m \<Longrightarrow> m_owed r m' = m_owed r m"
  using m_private_fields(6) [of m' m] by (simp add: m_owed_def)

lemma m_owedI: "f \<in> set (m_fibers m) \<Longrightarrow> owes r f \<Longrightarrow> (f_reply_to f, f_reply_req_id f) \<in> m_owed r m"
  by (auto simp: m_owed_def)

lemma m_owed_put:
  assumes "get_fiber m p = Some f" and "addr_ok m" and "at_most p r" and "at_most p r'"
    and "f_self g = p" and "f_reply_to g = f_reply_to f" and "f_reply_req_id g = f_reply_req_id f"
    and "m_fibers x = m_fibers m"
  shows "m_owed r m \<subseteq> m_owed r' (put_fiber g x) \<union>
    (if owes r f \<and> \<not> owes r' g then {(f_reply_to f, f_reply_req_id f)} else {})"
proof
  fix a
  assume "a \<in> m_owed r m"
  then obtain h where h: "h \<in> set (m_fibers m)" "owes r h" "a = (f_reply_to h, f_reply_req_id h)"
    by (auto simp: m_owed_def)
  note f = get_fiber_Some [OF assms(1)]
  have "g \<in> set (m_fibers (put_fiber g x))"
    using f assms(5,8) by (force simp: put_fiber_def)
  moreover have "h = f" if "f_self h = p"
    using get_fiber_unique [of m h] that h(1) assms(1,2) by (simp add: addr_ok_def)
  moreover have "h \<in> set (m_fibers (put_fiber g x)) \<and> owes r' h" if p: "f_self h \<noteq> p"
  proof -
    have "(if f_self h = f_self g then g else h) \<in> set (m_fibers (put_fiber g x))"
      using h(1) assms(8) by (simp add: put_fiber_def)
    then show ?thesis
      using p h(2) owes_other [OF assms(3) p] owes_other [OF assms(4) p] assms(5) by simp
  qed
  ultimately show "a \<in> m_owed r' (put_fiber g x) \<union>
      (if owes r f \<and> \<not> owes r' g then {(f_reply_to f, f_reply_req_id f)} else {})"
    using h(2,3) assms(6,7) m_owedI [of g "put_fiber g x" r'] m_owedI [of h "put_fiber g x" r']
    by (cases "f_self h = p") auto
qed

section \<open>What a call does to its module\<close>

text \<open>The parts of a module that matter here and that the calls never change.\<close>

definition same_base :: "module_t \<Rightarrow> module_t \<Rightarrow> bool" where
  "same_base m m' \<longleftrightarrow> m_idx m' = m_idx m \<and> m_seqs m' = m_seqs m \<and> m_deferred m' = m_deferred m"

text \<open>The ids after a step that may have given out one.\<close>

definition ids_grow :: "module_t \<Rightarrow> module_t \<Rightarrow> u32 set \<Rightarrow> bool" where
  "ids_grow m m' new \<longleftrightarrow> m_next_req_id m \<le> m_next_req_id m' \<and> ids m' \<subseteq> ids m \<union> new \<and>
     (ids_ok m \<longrightarrow> m_next_req_id m' \<le> 2 ^ 32 \<longrightarrow> ids_ok m')"

lemma ids_grow_same:
  "m_pending m' = m_pending m \<Longrightarrow> m_next_req_id m \<le> m_next_req_id m' \<Longrightarrow> ids_grow m m' {}"
  by (auto simp: ids_grow_def ids_def ids_ok_def)

lemma ids_grow_add:
  assumes "m_pending m' = \<lparr>p_req_id = of_nat (m_next_req_id m), p_f = q\<rparr> # m_pending m \<or>
      m_pending m' = m_pending m"
    and "m_next_req_id m' = m_next_req_id m + 1"
  shows "ids_grow m m' {of_nat (m_next_req_id m)}"
proof -
  have "unat (of_nat (m_next_req_id m) :: u32) = m_next_req_id m" if "m_next_req_id m' \<le> 2 ^ 32"
    using that assms(2) by (simp add: unat_of_nat)
  then have "of_nat (m_next_req_id m) \<notin> ids m" "unat (of_nat (m_next_req_id m) :: u32) = m_next_req_id m"
    if "ids_ok m" "m_next_req_id m' \<le> 2 ^ 32"
    using that by (auto simp: ids_ok_def)
  then show ?thesis
    using assms by (auto simp: ids_grow_def ids_def ids_ok_def less_Suc_eq)
qed

text \<open>The id a call gives out, and whether it is the reply.\<close>

definition new_ids :: "seq_prog \<Rightarrow> module_t \<Rightarrow> u32 set" where
  "new_ids prog m = (if is_Request prog \<or> is_Request_timeout prog \<or> is_Request_async prog
     then {of_nat (m_next_req_id m)} else {})"

definition settled :: "seq_prog \<Rightarrow> fiber_t \<Rightarrow> (int \<times> u32) set" where
  "settled prog f = (if is_Reply prog then {(f_reply_to f, f_reply_req_id f)} else {})"

lemma private_parts:
  assumes "m_private m' = m_private x"
  shows "m_idx m' = m_idx x \<and> m_seqs m' = m_seqs x \<and> m_deferred m' = m_deferred x \<and>
    m_pending m' = m_pending x \<and> m_next_req_id m' = m_next_req_id x \<and> m_fibers m' = m_fibers x"
  using m_private_fields [OF assms] by simp

lemma plain_base:
  assumes "plain_change m f m'"
  shows "same_base m m' \<and> ids_grow m m' {} \<and> m_fibers m' = m_fibers m"
  using assms
  by cases (auto dest!: private_parts simp: same_base_def coseq_lock_def coseq_unlock_def intro!: ids_grow_same)

text \<open>Only the fiber \<open>p\<close> changes.\<close>

lemma m_owed_fiber:
  assumes "get_fiber m p = Some f" and "addr_ok m" and "at_most p r" and "at_most p r'"
    and "f_self g = p" and "f_reply_to g = f_reply_to f" and "f_reply_req_id g = f_reply_req_id f"
    and "m_fibers x = m_fibers m" and "m_private m' = m_private (put_fiber g x)"
    and "owes r f \<Longrightarrow> owes r' g"
  shows "m_owed r m \<subseteq> m_owed r' m'"
  using m_owed_put [OF assms(1-8)] m_owed_private [OF assms(9)] assms(10) by (auto split: if_splits)

lemma m_owed_run:
  assumes "get_fiber m p = Some f" and "addr_ok m" and "at_most p r" and "at_most p r'"
    and "m_fibers m' = m_fibers m"
  shows "m_owed r m \<subseteq> m_owed r' m' \<union> (if owes r f \<and> \<not> owes r' f then {(f_reply_to f, f_reply_req_id f)} else {})"
proof -
  have "map (\<lambda>h. if f_self h = f_self f then f else h) (m_fibers m) = m_fibers m"
  proof (rule map_idI)
    fix h
    assume h: "h \<in> set (m_fibers m)"
    then show "(if f_self h = f_self f then f else h) = h"
      using get_fiber_unique [of m h] get_fiber_self [OF assms(1)] assms(1,2)
      by (cases "f_self h = p") (simp_all add: addr_ok_def)
  qed
  then have "m_owed r' (put_fiber f m) = m_owed r' m'"
    using assms(5) by (simp add: m_owed_def put_fiber_def)
  then show ?thesis
    using m_owed_put [OF assms(1-4) _ refl refl refl] get_fiber_Some [OF assms(1)] by simp
qed

lemma owes_running: "f_self f = p \<Longrightarrow> owes (Some (p, prog)) f \<longleftrightarrow> answers prog"
  by (simp add: owes_def)

lemma answers_next: "plain_next prog prog' \<Longrightarrow> \<not> is_Reply prog \<Longrightarrow> answers prog \<Longrightarrow> answers prog'"
  by (erule plain_nextE) auto

lemma continues_base:
  assumes "continues m f prog m' prog'" and f: "get_fiber m p = Some f" and "addr_ok m"
  shows "same_base m m' \<and> ids_grow m m' (new_ids prog m) \<and>
    m_owed (Some (p, prog)) m \<subseteq> m_owed (Some (p, prog')) m' \<union> settled prog f"
proof -
  have p: "f_self f = p" using get_fiber_self [OF f] .
  note run = m_owed_run [OF f assms(3), of "Some (p, prog)" "Some (p, prog')" m']
    and fib = m_owed_fiber [OF f assms(3), of "Some (p, prog)" "Some (p, prog')"]
  show ?thesis
    using assms(1)
  proof (cases rule: continues.cases)
    case c_plain
    have "new_ids prog m = {}" using c_plain(1) by (auto simp: new_ids_def elim: plain_nextE)
    then show ?thesis
      using run plain_base [OF c_plain(2)] answers_next [OF c_plain(1)]
      by (auto simp: owes_running p settled_def split: if_splits)
  next
    case (c_async rid mi si msg n k)
    note pr = private_parts [OF c_async(4)]
    have "ids_grow m m' {of_nat (m_next_req_id m)}"
      by (rule ids_grow_add [where q = p]) (use pr c_async(3) p in \<open>simp_all add: pending_add_pending\<close>)
    then show ?thesis
      using pr fib [OF _ _ _ _ _ _ c_async(4)] c_async(1,2)
      by (simp add: same_base_def new_ids_def owes_running p le_supI1)
  next
    case (c_wait_none kw)
    then show ?thesis
      using run private_parts [OF c_wait_none(5)]
      by (auto simp: same_base_def new_ids_def owes_running p intro!: ids_grow_same split: if_splits)
  next
    case (c_wait_some rr rest f1 kw)
    note pr = private_parts [OF c_wait_some(5)]
    have "f_self f1 = p" "f_reply_to f1 = f_reply_to f" "f_reply_req_id f1 = f_reply_req_id f"
      using src_only_fields [OF c_wait_some(4)] p by simp_all
    then show ?thesis
      using pr fib [OF _ _ _ _ _ _ c_wait_some(5)] c_wait_some(1,2)
      by (simp add: same_base_def new_ids_def owes_running p ids_grow_same le_supI1)
  qed
qed

lemma yields_base:
  assumes "yields m f prog m'" and f: "get_fiber m p = Some f" and "addr_ok m" and "\<not> f_done f"
  shows "same_base m m' \<and> ids_grow m m' (new_ids prog m) \<and> m_owed (Some (p, prog)) m \<subseteq> m_owed None m'"
proof -
  have p: "f_self f = p" using get_fiber_self [OF f] .
  note fib = m_owed_fiber [OF f assms(3), of "Some (p, prog)" None]
  show ?thesis
    using assms(1)
  proof (cases rule: yields.cases)
    case y_return
    then show ?thesis
      using private_parts [OF y_return(2)] fib [OF _ _ _ _ _ _ y_return(2)]
      by (simp add: same_base_def new_ids_def owes_running p ids_grow_same)
  next
    case (y_request rid k mi si msg n)
    note pr = private_parts [OF y_request(3)]
    have "ids_grow m m' {of_nat (m_next_req_id m)}"
      by (rule ids_grow_add [where q = p]) (use pr y_request(2) p in \<open>simp_all add: pending_add_pending\<close>)
    then show ?thesis
      using pr fib [OF _ _ _ _ _ _ y_request(3)] y_request(1) assms(4)
      by (simp add: same_base_def new_ids_def owes_running p owes_def)
  next
    case (y_request_timeout rid d k mi si msg n ms)
    note pr = private_parts [OF y_request_timeout(3)]
    have "ids_grow m m' {of_nat (m_next_req_id m)}"
      by (rule ids_grow_add [where q = p]) (use pr y_request_timeout(2) p in \<open>simp_all add: pending_add_pending\<close>)
    then show ?thesis
      using pr fib [OF _ _ _ _ _ _ y_request_timeout(3)] y_request_timeout(1) assms(4)
      by (simp add: same_base_def new_ids_def owes_running p owes_def)
  next
    case (y_wait_reply kw)
    then show ?thesis
      using private_parts [OF y_wait_reply(4)] fib [OF _ _ _ _ _ _ y_wait_reply(4)] assms(4)
      by (simp add: same_base_def new_ids_def owes_running p ids_grow_same owes_def)
  next
    case (y_wait_timeout d q ms)
    then show ?thesis
      using private_parts [OF y_wait_timeout(2)] fib [OF _ _ _ _ _ _ y_wait_timeout(2)] assms(4)
      by (simp add: same_base_def new_ids_def owes_running p ids_grow_same owes_def)
  qed
qed

section \<open>What the calls post\<close>

lemma post_ev_inbox:
  assumes "nr_ok c" and "valid_mod c i"
  shows "set (m_inbox (get_mod c i)) \<subseteq> set (m_inbox (get_mod (post_ev c i dest made) i))"
proof -
  obtain c1 en where p: "post c dest (fst made) (snd made) = (c1, en)" by fastforce
  have "inbox_grows (get_mod c i) (get_mod c1 i)" "length (modules c1) = length (modules c)"
    using post_effect(1,3) [OF assms(1) p] by simp_all
  then show ?thesis using assms(2) by (auto simp: post_ev_def p inbox_grows_def)
qed

lemma post_ev_posts:
  assumes "nr_ok c" and "valid_mod c i" and "fst made = Some e" and "0 \<le> dest" and "dest < nr_module c"
  shows "e \<in> set (m_inbox (get_mod (post_ev c i dest made) (nat dest)))"
proof -
  have "nat dest < length (modules c)" using assms(1,4,5) by (simp add: nr_ok_def)
  then show ?thesis
    using assms by (simp add: post_ev_def post_valid get_set_mod_if inbox_put_def Let_def)
qed

lemma notify_inbox:
  assumes "nr_ok c" and "valid_mod c i"
  shows "set (m_inbox (get_mod c i)) \<subseteq> set (m_inbox (get_mod (fold (notify_one i cat msg n) ncs c) i))"
  using assms
proof (induction ncs arbitrary: c)
  case (Cons nc ncs)
  note one = notify_one_step(1) [OF Cons.prems, of cat msg n nc]
  have "set (m_inbox (get_mod c i)) \<subseteq> set (m_inbox (get_mod (notify_one i cat msg n nc c) i))"
    using Cons.prems by (simp add: notify_one_def Let_def split_def post_ev_inbox)
  also have "\<dots> \<subseteq> set (m_inbox (get_mod (fold (notify_one i cat msg n) ncs (notify_one i cat msg n nc c)) i))"
    by (rule Cons.IH) (use one Cons.prems in \<open>auto dest: step_frame_nr_ok step_frame_length\<close>)
  finally show ?case by simp
qed simp

lemma set_post_inbox:
  assumes "nr_ok c" and "valid_mod c i" and "m_inbox m = m_inbox (get_mod c i)"
  shows "set (m_inbox (get_mod c i)) \<subseteq> set (m_inbox (get_mod (post_ev (set_mod i m c) i dest made) i))"
  using post_ev_inbox [of "set_mod i m c" i dest made] assms by simp

lemma request_inbox:
  assumes "nr_ok c" and "valid_mod c i"
  shows "set (m_inbox (get_mod c i)) \<subseteq> set (m_inbox (get_mod (request_common c i f mi si msg n wt ms k) i))"
  unfolding request_common_def Let_def split_def by (rule set_post_inbox [OF assms]) simp

lemma reply_inbox:
  assumes "nr_ok c" and "valid_mod c i"
  shows "set (m_inbox (get_mod c i)) \<subseteq> set (m_inbox (get_mod (coseq_reply c i f r msg n) i))"
  using assms by (simp add: coseq_reply_def Let_def split_def post_ev_inbox ext_deliver_keeps)

lemma reg_inbox:
  "valid_mod c i \<Longrightarrow> m_inbox (get_mod (snd (coseq_reg_notify c i f cat)) i) = m_inbox (get_mod c i)"
  by (simp add: coseq_reg_notify_def Let_def split_def)

lemma api_inbox:
  assumes "nr_ok c" and "valid_mod c i"
  shows "case api_step c i f prog of
      Continue c' prog' \<Rightarrow> set (m_inbox (get_mod c i)) \<subseteq> set (m_inbox (get_mod c' i))
    | Yielded c' \<Rightarrow> set (m_inbox (get_mod c i)) \<subseteq> set (m_inbox (get_mod c' i))"
proof (cases prog)
  case (Wait_reply k)
  with assms show ?thesis by (auto simp: coseq_wait_reply_def Let_def split_def split: list.split)
next
  case (Send mi si msg n p)
  with assms show ?thesis by (simp add: coseq_send_def Let_def set_post_inbox)
next
  case (Request_async mi si msg n k)
  with assms show ?thesis by (simp add: coseq_request_async_def Let_def set_post_inbox)
qed (use assms in \<open>simp_all add: split_def Let_def coseq_request_def coseq_request_timeout_def request_inbox
    reply_inbox coseq_notify_def notify_inbox reg_inbox coseq_unreg_notify_def fiber_return_def
    coseq_wait_timeout_def coseq_lock_def coseq_unlock_def\<close>)

text \<open>A request posts its start event, a reply its reply event.\<close>

lemma make_ev_made:
  assumes "all_ok en"
  obtains e where "fst (make_ev t s r q res msg n en) = Some e" and "e_type e = t" and "e_req_id e = r"
    and "e_requester e = q"
proof -
  obtain e where e: "fst (make_ev t s r q res msg n en) = Some e"
    using make_ev_all_ok [OF assms, of t s r q res msg n] by blast
  show ?thesis by (rule that [OF e]) (use make_ev_fields [OF e] in simp_all)
qed

lemma set_post_posts:
  assumes "nr_ok c" and "valid_mod c i" and "all_ok en" and "0 \<le> dest" and "dest < nr_module c"
  shows "\<exists>e \<in> set (m_inbox (get_mod (post_ev (set_mod i m c) i dest (make_ev t s r q res msg n en)) (nat dest))).
    e_type e = t \<and> e_req_id e = r \<and> e_requester e = q"
proof -
  obtain e where e: "fst (make_ev t s r q res msg n en) = Some e" "e_type e = t" "e_req_id e = r" "e_requester e = q"
    by (rule make_ev_made [OF assms(3)])
  have "e \<in> set (m_inbox (get_mod (post_ev (set_mod i m c) i dest (make_ev t s r q res msg n en)) (nat dest)))"
    by (rule post_ev_posts) (use assms e in simp_all)
  with e show ?thesis by blast
qed

lemma all_ok_pending_add [simp]: "all_ok (m_env (pending_add m r p)) = all_ok (m_env m)"
  by (simp add: all_ok_def)

lemma all_ok_now [simp]: "all_ok (snd (now_ts en)) = all_ok en"
  by (simp add: all_ok_def now_ts_env)

lemma request_posts:
  assumes "nr_ok c" and "valid_mod c i" and "all_ok (m_env (get_mod c i))" and "uint mi < nr_module c"
  shows "\<exists>e \<in> set (m_inbox (get_mod (request_common c i f mi si msg n wt ms k) (nat (uint mi)))).
    e_type e = EV_START \<and> e_req_id e = of_nat (m_next_req_id (get_mod c i)) \<and> e_requester e = m_idx (get_mod c i)"
  unfolding request_common_def Let_def split_def
  by (rule set_post_posts [OF assms(1,2)]) (use assms in \<open>auto\<close>)

lemma async_posts:
  assumes "nr_ok c" and "valid_mod c i" and "all_ok (m_env (get_mod c i))" and "uint mi < nr_module c"
  shows "\<exists>e \<in> set (m_inbox (get_mod (snd (coseq_request_async c i f mi si msg n)) (nat (uint mi)))).
    e_type e = EV_START \<and> e_req_id e = of_nat (m_next_req_id (get_mod c i)) \<and> e_requester e = m_idx (get_mod c i)"
  unfolding coseq_request_async_def Let_def snd_conv
  by (rule set_post_posts [OF assms(1,2)]) (use assms in \<open>auto\<close>)

lemma reply_posts:
  assumes "nr_ok c" and "valid_mod c i" and "all_ok (m_env (get_mod c i))" and "f_reply_to f = int k"
    and "int k < nr_module c"
  shows "\<exists>e \<in> set (m_inbox (get_mod (coseq_reply c i f r msg n) k)). e_type e = EV_REPLY \<and> e_req_id e = f_reply_req_id f"
proof -
  have "f_reply_to f \<noteq> EXTERNAL" using assms(4) by (simp add: EXTERNAL_def)
  then have "coseq_reply c i f r msg n = post_ev (set_mod i (get_mod c i) c) i (int k)
      (make_ev EV_REPLY 0 (f_reply_req_id f) (m_idx (get_mod c i)) r msg n (m_env (get_mod c i)))"
    using assms(4) by (simp add: coseq_reply_def Let_def)
  then show ?thesis
    using set_post_posts [OF assms(1-3) _ assms(5), of "get_mod c i" EV_REPLY 0 "f_reply_req_id f"
        "m_idx (get_mod c i)" r msg n] by auto
qed

section \<open>Where the requests are\<close>

text \<open>
  The scheduler of module \<open>i\<close> has the events \<open>E\<close> in hand, and its fiber \<open>r\<close> runs. The events of a module
  are those in its inbox, set aside, or in hand.
\<close>

definition events :: "coseq_ctx_private \<Rightarrow> nat \<Rightarrow> ev_t list \<Rightarrow> nat \<Rightarrow> ev_t set" where
  "events c i E j = set (m_inbox (get_mod c j)) \<union> set (m_deferred (get_mod c j)) \<union> (if j = i then set E else {})"

definition carried :: "coseq_ctx_private \<Rightarrow> nat \<Rightarrow> running \<Rightarrow> ev_t list \<Rightarrow> (int \<times> u32) set" where
  "carried c i r E =
     {(e_requester e, e_req_id e) | e j. int j < nr_module c \<and> e \<in> events c i E j \<and> e_type e = EV_START} \<union>
     {(int j, e_req_id e) | e j. int j < nr_module c \<and> e \<in> events c i E j \<and> e_type e = EV_REPLY} \<union>
     {x | x j. int j < nr_module c \<and> x \<in> m_owed (if j = i then r else None) (get_mod c j)}"

definition outstanding :: "coseq_ctx_private \<Rightarrow> (int \<times> u32) set" where
  "outstanding c = {(int j, id) | j id. int j < nr_module c \<and> id \<in> ids (get_mod c j)}"

text \<open>A module has given out \<open>2\<^sup>3\<^sup>2\<close> ids.\<close>

definition ids_wrapped :: "coseq_ctx_private \<Rightarrow> bool" where
  "ids_wrapped c \<longleftrightarrow> (\<exists>j. int j < nr_module c \<and> 2 ^ 32 < m_next_req_id (get_mod c j))"

definition safe :: "coseq_ctx_private \<Rightarrow> nat \<Rightarrow> running \<Rightarrow> ev_t list \<Rightarrow> bool" where
  "safe c i r E \<longleftrightarrow> ids_wrapped c \<or>
     ((\<forall>j. int j < nr_module c \<longrightarrow> ids_ok (get_mod c j)) \<and> outstanding c \<subseteq> carried c i r E)"

lemma carried_start: "int j < nr_module c \<Longrightarrow> e \<in> events c i E j \<Longrightarrow> e_type e = EV_START \<Longrightarrow>
    (e_requester e, e_req_id e) \<in> carried c i r E"
  by (auto simp: carried_def)

lemma carried_reply: "int j < nr_module c \<Longrightarrow> e \<in> events c i E j \<Longrightarrow> e_type e = EV_REPLY \<Longrightarrow>
    (int j, e_req_id e) \<in> carried c i r E"
  by (auto simp: carried_def)

lemma carried_owed: "int j < nr_module c \<Longrightarrow> x \<in> m_owed (if j = i then r else None) (get_mod c j) \<Longrightarrow> x \<in> carried c i r E"
  by (auto simp: carried_def)

text \<open>A step of module \<open>i\<close> loses nothing but what the module itself loses.\<close>

lemma step_frame_other:
  assumes "step_frame i c c'" and "j \<noteq> i"
  shows "set (m_inbox (get_mod c j)) \<subseteq> set (m_inbox (get_mod c' j))" "m_deferred (get_mod c' j) = m_deferred (get_mod c j)"
    "m_fibers (get_mod c' j) = m_fibers (get_mod c j)" "m_pending (get_mod c' j) = m_pending (get_mod c j)"
    "m_next_req_id (get_mod c' j) = m_next_req_id (get_mod c j)" "m_idx (get_mod c' j) = m_idx (get_mod c j)"
    "m_seqs (get_mod c' j) = m_seqs (get_mod c j)" "m_env (get_mod c' j) = m_env (get_mod c j)"
proof -
  obtain evs where "get_mod c' j = (get_mod c j)\<lparr>m_inbox := m_inbox (get_mod c j) @ evs\<rparr>"
    using assms unfolding step_frame_def others_grow_def inbox_grows_def by blast
  then show "set (m_inbox (get_mod c j)) \<subseteq> set (m_inbox (get_mod c' j))" "m_deferred (get_mod c' j) = m_deferred (get_mod c j)"
    "m_fibers (get_mod c' j) = m_fibers (get_mod c j)" "m_pending (get_mod c' j) = m_pending (get_mod c j)"
    "m_next_req_id (get_mod c' j) = m_next_req_id (get_mod c j)" "m_idx (get_mod c' j) = m_idx (get_mod c j)"
    "m_seqs (get_mod c' j) = m_seqs (get_mod c j)" "m_env (get_mod c' j) = m_env (get_mod c j)"
    by simp_all
qed

lemma step_frame_nr: "step_frame i c c' \<Longrightarrow> nr_module c' = nr_module c"
  by (simp add: step_frame_def others_grow_def)

lemma carried_step:
  assumes "step_frame i c c'" and "events c i E i \<subseteq> events c' i E' i"
    and "m_owed r (get_mod c i) \<subseteq> m_owed r' (get_mod c' i) \<union> L"
  shows "carried c i r E \<subseteq> carried c' i r' E' \<union> L"
proof -
  have ev: "events c i E j \<subseteq> events c' i E' j" for j
    using assms(2) step_frame_other(1,2) [OF assms(1), of j] by (cases "j = i") (auto simp: events_def)
  have ow: "m_owed (if j = i then r else None) (get_mod c j) \<subseteq> m_owed (if j = i then r' else None) (get_mod c' j) \<union> L" for j
    using assms(3) step_frame_other(3) [OF assms(1), of j] by (cases "j = i") (auto simp: m_owed_def)
  have nr: "nr_module c' = nr_module c" by (rule step_frame_nr [OF assms(1)])
  show ?thesis
    using ev ow unfolding carried_def nr by (fast dest: subsetD)
qed

lemma safe_step:
  assumes "safe c i r E" and st: "step_frame i c c'" and "int i < nr_module c"
    and "ids_grow (get_mod c i) (get_mod c' i) new"
    and "\<And>x. ids_ok (get_mod c i) \<Longrightarrow> x \<in> carried c i r E \<Longrightarrow> x \<in> outstanding c' \<Longrightarrow> x \<in> carried c' i r' E'"
    and "\<And>id. id \<in> new \<Longrightarrow> (int i, id) \<in> carried c' i r' E'"
  shows "safe c' i r' E'"
proof (cases "ids_wrapped c'")
  case True
  then show ?thesis by (simp add: safe_def)
next
  case False
  note nr = step_frame_nr [OF st] and other = step_frame_other [OF st]
  have le: "m_next_req_id (get_mod c j) \<le> m_next_req_id (get_mod c' j)" for j
    using assms(4) other(5) by (cases "j = i") (auto simp: ids_grow_def)
  have "\<not> ids_wrapped c"
    using False le unfolding ids_wrapped_def nr by (meson less_le_trans)
  then have ok: "int j < nr_module c \<Longrightarrow> ids_ok (get_mod c j)"
    and sub: "outstanding c \<subseteq> carried c i r E" for j
    using assms(1) by (auto simp: safe_def)
  have "ids_ok (get_mod c' j)" if j: "int j < nr_module c'" for j
  proof (cases "j = i")
    case True
    have "m_next_req_id (get_mod c' i) \<le> 2 ^ 32"
      using False assms(3) unfolding ids_wrapped_def nr by (meson not_less)
    then show ?thesis
      using assms(4) ok [OF assms(3)] True unfolding ids_grow_def by blast
  next
    case j': False
    then show ?thesis using ok j nr other(4,5) [OF j'] by (simp add: ids_ok_def ids_def)
  qed
  moreover have "x \<in> carried c' i r' E'" if x: "x \<in> outstanding c'" for x
  proof -
    obtain j id where j: "x = (int j, id)" "int j < nr_module c'" "id \<in> ids (get_mod c' j)"
      using x by (auto simp: outstanding_def)
    have "x \<in> outstanding c \<or> (j = i \<and> id \<in> new)"
    proof (cases "j = i")
      case True
      with j assms(4) nr show ?thesis by (auto simp: ids_grow_def outstanding_def)
    next
      case j': False
      with j nr other(4) [OF j'] show ?thesis by (auto simp: outstanding_def ids_def)
    qed
    then show ?thesis using sub assms(5) [OF ok [OF assms(3)] _ x] assms(6) j(1) by blast
  qed
  ultimately show ?thesis by (auto simp: safe_def)
qed

text \<open>The usual case: the module keeps its events and what its fibers owe.\<close>

lemma safe_keep:
  assumes "safe c i r E" and "step_frame i c c'" and "int i < nr_module c"
    and "ids_grow (get_mod c i) (get_mod c' i) {}"
    and "events c i E i \<subseteq> events c' i E' i"
    and "m_owed r (get_mod c i) \<subseteq> m_owed r' (get_mod c' i)"
  shows "safe c' i r' E'"
  by (rule safe_step [OF assms(1-4)]) (use carried_step [OF assms(2,5), of r r' "{}"] assms(6) in auto)

section \<open>Calls keep the requests\<close>

definition mod_ok :: "nat \<Rightarrow> module_t \<Rightarrow> bool" where
  "mod_ok k m \<longleftrightarrow> all_ok (m_env m) \<and> m_idx m = int k \<and> (\<forall>sq \<in> set (m_seqs m). answers (sq_fn sq))"

definition causal :: "views \<Rightarrow> nat \<Rightarrow> coseq_ctx_private \<Rightarrow> bool" where
  "causal A i c \<longleftrightarrow> bufs_at A i c \<and> int i < nr_module c \<and> (\<forall>k d s. known (A k) d s \<longrightarrow> 0 \<le> d \<and> d < nr_module c) \<and>
     (\<forall>k. int k < nr_module c \<longrightarrow> mod_ok k (get_mod c k))"

lemma causal_parts:
  assumes "causal A i c"
  shows "bufs_at A i c" "int i < nr_module c" "nr_ok c" "valid_mod c i" "mod_ok i (get_mod c i)"
    "all_ok (m_env (get_mod c i))" "m_idx (get_mod c i) = int i" "mod_bufs A i (get_mod c i)"
  using assms bufs_get [of A i c] by (auto simp: causal_def bufs_at_def bufs_def mod_ok_def)

lemma causal_known: "causal A i c \<Longrightarrow> known (A k) d s \<Longrightarrow> 0 \<le> d \<and> d < nr_module c"
  unfolding causal_def by blast

lemma causal_step:
  assumes "causal A i c" and st: "step_frame i c c'" and "bufs_at A i c'"
    and "m_idx (get_mod c' i) = m_idx (get_mod c i)" and "m_seqs (get_mod c' i) = m_seqs (get_mod c i)"
  shows "causal A i c'"
proof -
  note nr = step_frame_nr [OF st] and other = step_frame_other [OF st]
  have "mod_ok k (get_mod c' k)" if "int k < nr_module c" for k
  proof -
    have "mod_ok k (get_mod c k)" using assms(1) that by (simp add: causal_def)
    then show ?thesis
      using other(6-8) [of k] assms(4,5) st
      by (cases "k = i") (simp_all add: mod_ok_def all_ok_def step_frame_def)
  qed
  then show ?thesis using assms(1,3) nr by (simp add: causal_def)
qed

lemma events_grow:
  "set (m_inbox (get_mod c i)) \<subseteq> set (m_inbox (get_mod c' i)) \<Longrightarrow> m_deferred (get_mod c' i) = m_deferred (get_mod c i) \<Longrightarrow>
    events c i E i \<subseteq> events c' i E i"
  by (auto simp: events_def)

lemma carried_posted:
  assumes "\<exists>e \<in> set (m_inbox (get_mod c' (nat d))). e_type e = EV_START \<and> e_req_id e = rid \<and> e_requester e = q"
    and "0 \<le> d" and "d < nr_module c'"
  shows "(q, rid) \<in> carried c' i r E"
proof -
  obtain e where e: "e \<in> set (m_inbox (get_mod c' (nat d)))" "e_type e = EV_START" "e_req_id e = rid" "e_requester e = q"
    using assms(1) by blast
  have "(e_requester e, e_req_id e) \<in> carried c' i r E"
    by (rule carried_start [of "nat d"]) (use assms(2,3) e in \<open>simp_all add: events_def\<close>)
  then show ?thesis by (simp add: e)
qed

text \<open>The start event of a request carries the new id.\<close>

lemma new_carried:
  assumes "causal A i c" and "honest (A i) prog" and "rid \<in> new_ids prog (get_mod c i)"
    and "api_step c i f prog = Continue c' prog' \<or> api_step c i f prog = Yielded c'"
    and st: "step_frame i c c'"
  shows "(int i, rid) \<in> carried c' i r E"
proof -
  note c = causal_parts [OF assms(1)] and nr = step_frame_nr [OF st]
  have req: "is_Request prog \<or> is_Request_timeout prog \<or> is_Request_async prog"
    and rid: "rid = of_nat (m_next_req_id (get_mod c i))"
    using assms(3) by (auto simp: new_ids_def split: if_splits)
  show ?thesis
  proof (cases prog)
    case (Request mi si msg n k)
    then have d: "0 \<le> uint mi \<and> uint mi < nr_module c" using assms(2) causal_known [OF assms(1), of i "uint mi" si] by simp
    have "c' = request_common c i f mi si msg n False 0 k"
      using assms(4) Request by (simp add: coseq_request_def)
    with request_posts [OF c(3,4,6), of mi f si msg n False 0 k] d rid nr show ?thesis
      by (intro carried_posted [where d = "uint mi"]) (simp_all add: c(7))
  next
    case (Request_timeout mi si msg n ms k)
    then have d: "0 \<le> uint mi \<and> uint mi < nr_module c" using assms(2) causal_known [OF assms(1), of i "uint mi" si] by simp
    have "c' = request_common c i f mi si msg n True ms k"
      using assms(4) Request_timeout by (simp add: coseq_request_timeout_def)
    with request_posts [OF c(3,4,6), of mi f si msg n True ms k] d rid nr show ?thesis
      by (intro carried_posted [where d = "uint mi"]) (simp_all add: c(7))
  next
    case (Request_async mi si msg n k)
    then have d: "0 \<le> uint mi \<and> uint mi < nr_module c" using assms(2) causal_known [OF assms(1), of i "uint mi" si] by simp
    have "c' = snd (coseq_request_async c i f mi si msg n)"
      using assms(4) Request_async by (auto simp: split_def Let_def)
    with async_posts [OF c(3,4,6), of mi f si msg n] d rid nr show ?thesis
      by (intro carried_posted [where d = "uint mi"]) (simp_all add: c(7))
  qed (use req in simp_all)
qed

text \<open>A reply carries on what the fiber owed.\<close>

lemma settled_carried:
  assumes "causal A i c" and "api_step c i f prog = Continue c' prog'" and st: "step_frame i c c'"
    and "x \<in> settled prog f" and "x \<in> outstanding c'"
  shows "x \<in> carried c' i r E"
proof -
  note c = causal_parts [OF assms(1)] and nr = step_frame_nr [OF st]
  obtain res msg n p where prog: "prog = Reply res msg n p" and x: "x = (f_reply_to f, f_reply_req_id f)"
    using assms(4) by (cases prog) (auto simp: settled_def)
  obtain k where k: "f_reply_to f = int k" "int k < nr_module c"
    using assms(5) x nr by (auto simp: outstanding_def)
  have c': "c' = coseq_reply c i f res msg n" using assms(2) prog by simp
  from reply_posts [OF c(3,4,6) k] obtain e where e: "e \<in> set (m_inbox (get_mod c' k))"
    "e_type e = EV_REPLY" "e_req_id e = f_reply_req_id f" unfolding c' by blast
  have "(int k, e_req_id e) \<in> carried c' i r E"
    by (rule carried_reply) (use e k nr in \<open>simp_all add: events_def\<close>)
  then show ?thesis by (simp add: x k e)
qed

text \<open>The fiber that runs has not finished.\<close>

definition run_ok :: "module_t \<Rightarrow> fptr \<Rightarrow> bool" where
  "run_ok m p \<longleftrightarrow> addr_ok m \<and> (\<forall>f. get_fiber m p = Some f \<longrightarrow> \<not> f_done f)"

lemma run_ok_put:
  assumes "m_private m' = m_private (put_fiber g x)" and "m_fibers x = m_fibers m" and "get_fiber m p = Some f"
    and "f_self g = p" and "\<not> f_done g"
  shows "get_fiber m' p = Some h \<Longrightarrow> \<not> f_done h"
  using get_fiber_private [OF assms(1), of p] get_fiber_cong [OF assms(2), of p] assms(3-5)
  by (simp add: get_put_fiber)

lemma run_ok_continues:
  assumes "continues m f prog m' prog'" and f: "get_fiber m p = Some f" and "run_ok m p"
  shows "run_ok m' p"
proof -
  have addr: "addr_ok m'"
    using continues_keeps_addr [OF assms(1)] assms(3) by (simp add: keeps_addr_def run_ok_def)
  have nd: "\<not> f_done f" "f_self f = p" using assms(3) f get_fiber_self [OF f] by (simp_all add: run_ok_def)
  have same: "run_ok m' p" if "m_fibers m' = m_fibers m"
    using get_fiber_cong [OF that, of p] addr assms(3) by (simp add: run_ok_def)
  show ?thesis
    using assms(1)
  proof (cases rule: continues.cases)
    case c_plain
    then show ?thesis using plain_base same by blast
  next
    case (c_async rid mi si msg n k)
    then show ?thesis using run_ok_put [OF c_async(4) _ f] nd addr by (simp add: run_ok_def)
  next
    case (c_wait_none kw)
    then show ?thesis using same private_parts by blast
  next
    case (c_wait_some rr rest f1 kw)
    then show ?thesis
      using run_ok_put [OF c_wait_some(5) refl f] nd addr src_only_fields [OF c_wait_some(4)] by (simp add: run_ok_def)
  qed
qed

lemma causal_continue:
  assumes c: "causal A i c" and f: "get_fiber (get_mod c i) p = Some f" and l: "run_ok (get_mod c i) p"
    and h: "honest (A i) prog" and s: "safe c i (Some (p, prog)) E" and a: "api_step c i f prog = Continue c' prog'"
  shows "causal A i c' \<and> run_ok (get_mod c' i) p \<and> honest (A i) prog' \<and> safe c' i (Some (p, prog')) E"
proof -
  note cp = causal_parts [OF c]
  note st = api_step_continue [OF cp(3,4) a]
  have b: "bufs_at A i c'" "honest (A i) prog'" using bufs_api_step [OF cp(1) f h] a by simp_all
  have ao: "addr_ok (get_mod c i)" using l by (simp add: run_ok_def)
  note base = continues_base [OF st(2) f ao]
  have inbox: "set (m_inbox (get_mod c i)) \<subseteq> set (m_inbox (get_mod c' i))"
    using api_inbox [OF cp(3,4), of f prog] a by simp
  have ev: "events c i E i \<subseteq> events c' i E i"
    by (rule events_grow [OF inbox]) (use base in \<open>simp add: same_base_def\<close>)
  have "safe c' i (Some (p, prog')) E"
  proof (rule safe_step [OF s st(1) cp(2)])
    show "ids_grow (get_mod c i) (get_mod c' i) (new_ids prog (get_mod c i))" using base by simp
    show "x \<in> carried c' i (Some (p, prog')) E" if "x \<in> carried c i (Some (p, prog)) E" "x \<in> outstanding c'" for x
      using carried_step [OF st(1) ev, of "Some (p, prog)" "Some (p, prog')" "settled prog f"] base that
        settled_carried [OF c a st(1)] by blast
    show "(int i, rid) \<in> carried c' i (Some (p, prog')) E" if "rid \<in> new_ids prog (get_mod c i)" for rid
      by (rule new_carried [OF c h that _ st(1)]) (use a in blast)
  qed
  moreover have "causal A i c'"
    by (rule causal_step [OF c st(1) b(1)]) (use base in \<open>simp_all add: same_base_def\<close>)
  ultimately show ?thesis using b run_ok_continues [OF st(2) f l] by simp
qed

lemma causal_yield:
  assumes c: "causal A i c" and f: "get_fiber (get_mod c i) p = Some f" and l: "run_ok (get_mod c i) p"
    and h: "honest (A i) prog" and s: "safe c i (Some (p, prog)) E" and a: "api_step c i f prog = Yielded c'"
  shows "causal A i c' \<and> safe c' i None E"
proof -
  note cp = causal_parts [OF c]
  note st = api_step_yield [OF cp(3,4) a]
  have b: "bufs_at A i c'" using bufs_api_step [OF cp(1) f h] a by simp
  have ao: "addr_ok (get_mod c i)" and nd: "\<not> f_done f"
    using l f by (simp_all add: run_ok_def)
  note base = yields_base [OF st(2) f ao nd]
  have inbox: "set (m_inbox (get_mod c i)) \<subseteq> set (m_inbox (get_mod c' i))"
    using api_inbox [OF cp(3,4), of f prog] a by simp
  have ev: "events c i E i \<subseteq> events c' i E i"
    by (rule events_grow [OF inbox]) (use base in \<open>simp add: same_base_def\<close>)
  have "safe c' i None E"
  proof (rule safe_step [OF s st(1) cp(2)])
    show "ids_grow (get_mod c i) (get_mod c' i) (new_ids prog (get_mod c i))" using base by simp
    show "x \<in> carried c' i None E" if "x \<in> carried c i (Some (p, prog)) E" for x
      using carried_step [OF st(1) ev, of "Some (p, prog)" None "{}"] base that by blast
    show "(int i, rid) \<in> carried c' i None E" if "rid \<in> new_ids prog (get_mod c i)" for rid
      by (rule new_carried [OF c h that _ st(1)]) (use a in blast)
  qed
  moreover have "causal A i c'"
    by (rule causal_step [OF c st(1) b(1)]) (use base in \<open>simp_all add: same_base_def\<close>)
  ultimately show ?thesis by simp
qed


section \<open>Turns keep the requests\<close>

lemma causal_run_fiber:
  assumes "run_fiber c i p prog = ok c'" and "causal A i c" and "run_ok (get_mod c i) p" and "honest (A i) prog"
    and "safe c i (Some (p, prog)) E"
  shows "causal A i c' \<and> safe c' i None E"
proof -
  let ?P = "\<lambda>i p c prog y. causal A i c \<longrightarrow> run_ok (get_mod c i) p \<longrightarrow> honest (A i) prog \<longrightarrow> safe c i (Some (p, prog)) E \<longrightarrow>
    (case y of Inl (u :: ub) \<Rightarrow> True | Inr c' \<Rightarrow> causal A i c' \<and> safe c' i None E)"
  have "?P i p c prog (Inr c')"
  proof (rule run_fiber.raw_induct [where P = "\<lambda>c i p prog y. ?P i p c prog y", OF _ assms(1) [unfolded ok_def]],
      intro impI)
    fix g c i p prog y
    assume IH: "\<And>c i p prog y. g c i p prog = Some y \<Longrightarrow> ?P i p c prog y"
      and eq: "(case get_fiber (get_mod c i) p of None \<Rightarrow> undef (Use_after_free p c)
        | Some f \<Rightarrow> case api_step c i f prog of
            Continue c' prog' \<Rightarrow> g c' i p prog' | Yielded c' \<Rightarrow> ok c') = Some y"
      and c: "causal A i c" and l: "run_ok (get_mod c i) p" and h: "honest (A i) prog" and s: "safe c i (Some (p, prog)) E"
    show "case y of Inl u \<Rightarrow> True | Inr c' \<Rightarrow> causal A i c' \<and> safe c' i None E"
    proof (cases "get_fiber (get_mod c i) p")
      case None
      with eq show ?thesis by (auto simp: undef_def)
    next
      case (Some f)
      show ?thesis
      proof (cases "api_step c i f prog")
        case (Continue c1 prog1)
        then have "g c1 i p prog1 = Some y" using eq Some by simp
        from IH [OF this] causal_continue [OF c Some l h s Continue] show ?thesis by blast
      next
        case (Yielded c1)
        then show ?thesis using eq Some causal_yield [OF c Some l h s Yielded] by (auto simp: ok_def)
      qed
    qed
  qed
  then show ?thesis using assms(2-5) by simp
qed

lemma ids_grow_upd:
  "m_pending m' = m_pending m \<Longrightarrow> m_next_req_id m' = m_next_req_id m \<Longrightarrow> ids_grow m m' {}"
  by (simp add: ids_grow_same)

lemma ids_grow_drop:
  "m_pending m' = remove_first P (m_pending m) \<Longrightarrow> m_next_req_id m' = m_next_req_id m \<Longrightarrow> ids_grow m m' {}"
  using set_remove_first_subset [of P "m_pending m"] distinct_map_remove_first [of p_req_id "m_pending m" P]
  by (auto simp: ids_grow_def ids_def ids_ok_def)

lemma owes_entry: "owes None f \<Longrightarrow> entry_prog f = Some prog \<Longrightarrow> answers prog"
  by (cases "f_ctx f") (auto simp: owes_def entry_prog_def)

lemma causal_resume:
  assumes "resume c i p = ok c'" and c: "causal A i c" and f: "get_fiber (get_mod c i) p = Some f"
    and "addr_ok (get_mod c i)" and "\<not> f_done f" and s: "safe c i None E"
  shows "causal A i c' \<and> safe c' i None E"
proof -
  note cp = causal_parts [OF c]
  have p: "f_self f = p" by (rule get_fiber_self [OF f])
  obtain prog c2 where prog: "entry_prog f = Some prog" and run: "run_fiber (enter c i f) i p prog = ok c2"
    and c': "c' = leave i c2"
    using assms(1) unfolding resume_unfold [OF cp(4) f] by (auto simp: obind_eq_ok split: option.splits)
  have fb: "fiber_bufs A i f" by (rule mod_bufs_fiber [OF cp(8) f])
  have h: "honest (A i) prog" using fb prog by (cases "f_ctx f") (auto simp: fiber_bufs_def entry_prog_def)
  have sw: "f_self (switched f) = p" "f_reply_to (switched f) = f_reply_to f"
    "f_reply_req_id (switched f) = f_reply_req_id f" "f_done (switched f) = f_done f"
    by (simp_all add: switched_def p)
  let ?m = "(put_fiber (switched f) (get_mod c i))\<lparr>m_current := Some (f_self f)\<rparr>"
  have e: "get_mod (enter c i f) i = ?m" using cp(4) by (simp add: enter_def)
  have st: "step_frame i c (enter c i f)" using cp(4) by (simp add: enter_def step_frame_set_mod)
  have "fiber_bufs A i (switched f)" using fb by (simp add: switched_def fiber_bufs_def buf_wf_def)
  then have "bufs_at A i (enter c i f)" using cp(1,8) by (auto simp: enter_def intro!: mod_bufs_put)
  then have c1: "causal A i (enter c i f)" by (rule causal_step [OF c st]) (simp_all add: e)
  have "m_owed None (get_mod c i) \<subseteq> m_owed (Some (p, prog)) (put_fiber (switched f) (get_mod c i))"
    by (rule m_owed_fiber [OF f assms(4) _ _ sw(1-3) refl refl])
      (use owes_entry [OF _ prog] sw(1) in \<open>simp_all add: owes_running\<close>)
  then have "safe (enter c i f) i (Some (p, prog)) E"
    by (intro safe_keep [OF s st cp(2)]) (simp_all add: e events_def ids_grow_upd m_owed_def)
  moreover have "run_ok (get_mod (enter c i f) i) p"
    using f assms(4,5) sw(1,4) by (simp add: e run_ok_def get_put_fiber)
  ultimately have c2: "causal A i c2" "safe c2 i None E" using causal_run_fiber [OF run c1 _ h] by blast+
  note cp2 = causal_parts [OF c2(1)]
  have l: "step_frame i c2 c'" "get_mod c' i = (get_mod c2 i)\<lparr>m_current := None\<rparr>"
    using leave_frame [OF cp2(4)] get_leave [OF cp2(4)] by (simp_all add: c')
  have "bufs_at A i c'" by (rule bufs_resume [OF assms(1) cp(1)])
  then have "causal A i c'" by (rule causal_step [OF c2(1) l(1)]) (simp_all add: l(2))
  moreover have "safe c' i None E"
    by (rule safe_keep [OF c2(2) l(1) cp2(2)]) (simp_all add: l(2) events_def ids_grow_upd m_owed_def)
  ultimately show ?thesis ..
qed

text \<open>Taking an event in hand: what it carried must be carried on.\<close>

lemma carried_hand:
  assumes "int i < nr_module c"
  shows "carried c i r (e # E) \<subseteq> carried c i r E \<union>
    (case e_type e of EV_START \<Rightarrow> {(e_requester e, e_req_id e)} | EV_REPLY \<Rightarrow> {(int i, e_req_id e)} | EV_NOTIFY \<Rightarrow> {})"
proof -
  have "events c i (e # E) j \<subseteq> events c i E j \<union> (if j = i then {e} else {})" for j
    by (auto simp: events_def)
  then have ev: "x \<in> events c i (e # E) j \<Longrightarrow> x \<in> events c i E j \<or> (j = i \<and> x = e)" for x j
    by (fastforce split: if_splits)
  show ?thesis
    unfolding carried_def by (auto dest!: ev)
qed

text \<open>The reply with the id is handled: its entry is gone.\<close>

lemma safe_reply:
  assumes s: "safe c i None (e # E)" and st: "step_frame i c c'" and nr: "int i < nr_module c" and "e_type e = EV_REPLY"
    and pend: "m_pending (get_mod c' i) = remove_first (\<lambda>p. p_req_id p = e_req_id e) (m_pending (get_mod c i))"
    and "m_next_req_id (get_mod c' i) = m_next_req_id (get_mod c i)"
    and "m_inbox (get_mod c' i) = m_inbox (get_mod c i)" and "m_deferred (get_mod c' i) = m_deferred (get_mod c i)"
    and "m_owed None (get_mod c i) \<subseteq> m_owed None (get_mod c' i)"
  shows "safe c' i None E"
proof (rule safe_step [OF s st nr ids_grow_drop [OF pend assms(6)]])
  fix x
  assume ok: "ids_ok (get_mod c i)" and x: "x \<in> carried c i None (e # E)" "x \<in> outstanding c'"
  have "carried c i None E \<subseteq> carried c' i None E"
    using carried_step [OF st, of E E None None "{}"] assms(7-9) by (simp add: events_def)
  moreover have "x \<in> carried c i None E \<or> x = (int i, e_req_id e)"
    using carried_hand [OF nr, of None e E] x(1) assms(4) by auto
  moreover have "e_req_id e \<notin> ids (get_mod c' i)"
  proof -
    have "distinct (map p_req_id ps) \<Longrightarrow> r \<notin> p_req_id ` set (remove_first (\<lambda>p. p_req_id p = r) ps)" for r ps
      by (induction ps) auto
    then show ?thesis using ok unfolding ids_def ids_ok_def pend by blast
  qed
  then have "x \<noteq> (int i, e_req_id e)" using x(2) by (auto simp: outstanding_def)
  ultimately show "x \<in> carried c' i None E" by blast
qed simp

definition resting :: "views \<Rightarrow> nat \<Rightarrow> ev_t list \<Rightarrow> coseq_ctx_private \<Rightarrow> bool" where
  "resting A i E c \<longleftrightarrow> causal A i c \<and> life_idle (get_mod c i) \<and> safe c i None E"

lemma resting_parts:
  assumes "resting A i E c"
  shows "causal A i c" "life_idle (get_mod c i)" "safe c i None E" "addr_ok (get_mod c i)"
  using assms by (simp_all add: resting_def life_idle_def)

lemma src_only_owes: "src_only f g \<Longrightarrow> owes None g = owes None f"
  using src_only_fields [of f g] by (simp add: owes_def)

lemma awake_not_done:
  assumes "life_idle m" and "get_fiber m p = Some f" and "f_waiting_reply f \<or> f_waiting_any f \<or> f_waiting_timer f"
  shows "\<not> f_done f"
  using assms get_fiber_Some [OF assms(2)] by (auto simp: life_idle_def fiber_wf_def no_wait_def split: if_splits)

text \<open>The source of a fiber is filled and the fiber switched in.\<close>

lemma causal_deliver:
  assumes res: "resume (set_mod i ((put_fiber (fst d) x)\<lparr>m_env := snd d\<rparr>) c) i p = ok c'"
    and d: "d = set_src f msg sz r t s cl rid en" and c: "causal A i c" and f: "get_fiber (get_mod c i) p = Some f"
    and addr: "addr_ok (get_mod c i)" and nd: "\<not> f_done f" and rd: "readable msg sz"
    and x: "m_private x = m_private ((get_mod c i)\<lparr>m_pending := ps\<rparr>)" "m_inbox x = m_inbox (get_mod c i)"
    and en: "lib_ok en = lib_ok (m_env (get_mod c i))" and mx: "mod_bufs A i x"
    and safe: "\<And>c1. step_frame i c c1 \<Longrightarrow> m_pending (get_mod c1 i) = ps \<Longrightarrow>
      m_next_req_id (get_mod c1 i) = m_next_req_id (get_mod c i) \<Longrightarrow> m_inbox (get_mod c1 i) = m_inbox (get_mod c i) \<Longrightarrow>
      m_deferred (get_mod c1 i) = m_deferred (get_mod c i) \<Longrightarrow> m_owed None (get_mod c i) \<subseteq> m_owed None (get_mod c1 i) \<Longrightarrow>
      safe c1 i None E"
  shows "causal A i c' \<and> safe c' i None E"
proof -
  note cp = causal_parts [OF c] and p = get_fiber_self [OF f]
  have so: "src_only f (fst d)" unfolding d by (rule set_src_only)
  note sf = src_only_fields [OF so]
  note xf = m_private_fields [OF x(1), simplified]
  define c1 where "c1 = set_mod i ((put_fiber (fst d) x)\<lparr>m_env := snd d\<rparr>) c"
  have g: "get_mod c1 i = (put_fiber (fst d) x)\<lparr>m_env := snd d\<rparr>" using cp(4) by (simp add: c1_def)
  have st: "step_frame i c c1" using cp(4) en by (simp add: c1_def step_frame_set_mod d)
  have fb: "fiber_bufs A i f" by (rule mod_bufs_fiber [OF cp(8) f])
  have "bufs_at A i c1" unfolding c1_def d by (rule bufs_set_src [OF cp(1) fb rd mx])
  then have c1: "causal A i c1" by (rule causal_step [OF c st]) (use xf in \<open>simp_all add: g\<close>)
  have "m_owed None (get_mod c i) \<subseteq> m_owed None (get_mod c1 i)"
    by (rule m_owed_fiber [where g = "fst d" and x = x, OF f addr])
      (use sf p xf src_only_owes [OF so] in \<open>simp_all add: g\<close>)
  then have s1: "safe c1 i None E" by (intro safe [OF st]) (use xf x(2) in \<open>simp_all add: g\<close>)
  have "get_fiber x p = Some f" using get_fiber_cong [of x "get_mod c i" p] xf f by simp
  then have f1: "get_fiber (get_mod c1 i) p = Some (fst d)" using sf p by (simp add: g get_put_fiber)
  have "addr_ok x" using addr_ok_private [OF x(1)] addr by simp
  then have "addr_ok (get_mod c1 i)" by (simp add: g)
  from causal_resume [OF res [folded c1_def] c1 f1 this _ s1] nd sf show ?thesis by simp
qed

lemma queue_reply_shape:
  obtains en where "queue_reply m f e = m\<lparr>m_env := en\<rparr>"
  | en rr where "queue_reply m f e = (put_fiber (rq_put f rr) m)\<lparr>m_env := en\<rparr>"
proof (cases "fst (lib_call (m_env m))")
  case False
  show ?thesis by (rule that(1)) (use False in \<open>simp add: queue_reply_def Let_def split_def\<close>)
next
  case True
  show ?thesis
    by (rule that(2)) (use True in \<open>unfold queue_reply_def Let_def split_def, simp\<close>)
qed

lemma resting_handle_reply:
  assumes h: "handle_reply c i e = ok c'" and rest: "resting A i (e # E) c" and "e_type e = EV_REPLY" and "ev_wf e"
  shows "resting A i E c'"
proof -
  note rp = resting_parts [OF rest] and cp = causal_parts [OF resting_parts(1) [OF rest]]
  have idle: "life_idle (get_mod c' i)" using life.handle_reply_spec [OF rp(2) cp(3,4), of e] h by simp
  let ?r = "e_req_id e" and ?ps = "remove_first (\<lambda>p. p_req_id p = e_req_id e) (m_pending (get_mod c i))"
  have "causal A i c' \<and> safe c' i None E"
  proof (cases "pending_find (m_pending (get_mod c i)) ?r")
    case None
    then have "?ps = m_pending (get_mod c i)" by (intro remove_first_none) (force simp: pending_find_None)
    moreover have "c' = c" using h None by (simp add: handle_reply_def pending_peek_def)
    ultimately show ?thesis using rp(1) safe_reply [OF rp(3) step_frame_refl cp(2) assms(3)] by simp
  next
    case (Some p)
    let ?x = "snd (pending_take (get_mod c i) ?r)"
    have x: "m_private ?x = m_private ((get_mod c i)\<lparr>m_pending := ?ps\<rparr>)" "m_inbox ?x = m_inbox (get_mod c i)"
      "lib_ok (m_env ?x) = lib_ok (m_env (get_mod c i))" "get_fiber ?x p = get_fiber (get_mod c i) p"
      "m_fibers ?x = m_fibers (get_mod c i)" "m_next_req_id ?x = m_next_req_id (get_mod c i)"
      "m_deferred ?x = m_deferred (get_mod c i)" "m_pending ?x = ?ps" "m_idx ?x = m_idx (get_mod c i)"
      "m_seqs ?x = m_seqs (get_mod c i)"
      by (simp_all add: pending_take_def)
    obtain f where f: "get_fiber (get_mod c i) p = Some f"
      using h Some by (auto simp: handle_reply_def pending_peek_def Let_def x(4) split: option.splits)
    have mx: "mod_bufs A i ?x" using cp(8) by simp
    have p: "f_self f = p" by (rule get_fiber_self [OF f])
    show ?thesis
    proof (cases "(f_waiting_reply f \<and> f_wait_req_id f = ?r) \<or> f_waiting_any f")
      case True
      define d where "d = set_src f (e_msg e) (e_msg_size e) (e_result e) (word_of_int (e_requester e)) (f_seq_idx f) 0
        ?r (m_env ?x)"
      have "resume (set_mod i ((put_fiber (fst d) ?x)\<lparr>m_env := snd d\<rparr>) c) i p = ok c'"
        using h Some f True
        by (auto simp: handle_reply_def pending_peek_def Let_def x(4) deliver_reply_def split_def d_def p split: if_splits)
      moreover have "\<not> f_done f" using awake_not_done [OF rp(2) f] True by blast
      ultimately show ?thesis
        by (intro causal_deliver [OF _ d_def rp(1) f rp(4) _ readable_ev [OF assms(4)] x(1,2,3) mx]
            safe_reply [OF rp(3) _ cp(2) assms(3)])
    next
      case False
      let ?m = "queue_reply ?x f e"
      have c': "c' = set_mod i ?m c"
        using h Some f False by (auto simp: handle_reply_def pending_peek_def Let_def x(4) split: if_splits)
      consider en where "?m = ?x\<lparr>m_env := en\<rparr>" | en rr where "?m = (put_fiber (rq_put f rr) ?x)\<lparr>m_env := en\<rparr>"
        by (rule queue_reply_shape)
      then have m: "m_pending ?m = ?ps \<and> m_next_req_id ?m = m_next_req_id (get_mod c i) \<and>
          m_inbox ?m = m_inbox (get_mod c i) \<and> m_deferred ?m = m_deferred (get_mod c i) \<and>
          m_idx ?m = m_idx (get_mod c i) \<and> m_seqs ?m = m_seqs (get_mod c i) \<and>
          m_owed None (get_mod c i) \<subseteq> m_owed None ?m"
      proof cases
        case 1
        then show ?thesis using x by (simp add: m_owed_def)
      next
        case 2
        have "m_owed None (get_mod c i) \<subseteq> m_owed None ?m"
          by (rule m_owed_fiber [where g = "rq_put f rr" and x = ?x, OF f rp(4)])
            (use 2 x(5) p in \<open>simp_all add: rq_put_def owes_def\<close>)
        then show ?thesis using 2 x by simp
      qed
      have g: "get_mod c' i = ?m" using cp(4) c' by simp
      have "run_spec life_idle dangling False i c (handle_reply c i e)" by (rule life.handle_reply_spec [OF rp(2) cp(3,4)])
      then have st: "step_frame i c c'" using h by simp
      have "bufs_at A i c'" by (rule bufs_handle_reply [OF h cp(1) assms(4)])
      then have "causal A i c'" by (rule causal_step [OF rp(1) st]) (use m in \<open>simp_all add: g\<close>)
      moreover have "safe c' i None E"
        by (rule safe_reply [OF rp(3) st cp(2) assms(3)]) (use m in \<open>simp_all add: g\<close>)
      ultimately show ?thesis ..
    qed
  qed
  with idle show ?thesis by (simp add: resting_def)
qed

lemma resting_timer_one:
  assumes h: "timer_one i now p c = ok c'" and rest: "resting A i E c"
  shows "resting A i E c'"
proof -
  note rp = resting_parts [OF rest] and cp = causal_parts [OF resting_parts(1) [OF rest]]
  obtain f where f: "get_fiber (get_mod c i) p = Some f"
    using h by (auto simp: timer_one_def Let_def split: option.splits)
  have idle: "life_idle (get_mod c' i)" using life.timer_one_spec [OF rp(2) cp(3,4), of p now] h f by simp
  let ?ps = "remove_first (\<lambda>q. p_req_id q = f_wait_req_id f) (m_pending (get_mod c i))"
  let ?x = "snd (pending_take (get_mod c i) (f_wait_req_id f))"
  have x: "m_private ?x = m_private ((get_mod c i)\<lparr>m_pending := ?ps\<rparr>)" "m_inbox ?x = m_inbox (get_mod c i)"
    "lib_ok (m_env ?x) = lib_ok (m_env (get_mod c i))"
    by (simp_all add: pending_take_def)
  define d where "d = set_src f None 0 COSEQ_RSLT_REQ_TIMEOUT 0 (f_seq_idx f) 0 (f_wait_req_id f) (m_env ?x)"
  consider "c' = c" | "f_waiting_timer f" "resume c i p = ok c'"
    | "f_waiting_timer f" "resume (set_mod i ((put_fiber (fst d) ?x)\<lparr>m_env := snd d\<rparr>) c) i p = ok c'"
  proof -
    have "timer_one i now p c =
        (if f_waiting_timer f \<and> \<not> ts_lt now (f_deadline f) \<and>
            \<not> (m_locked_by (get_mod c i) \<noteq> None \<and> m_locked_by (get_mod c i) \<noteq> Some p)
         then if f_waiting_reply f then resume (set_mod i ((put_fiber (fst d) ?x)\<lparr>m_env := snd d\<rparr>) c) i p
           else resume c i p
         else ok c)"
      by (simp add: timer_one_def Let_def f split_def d_def)
    then show ?thesis using h that by (simp del: ts_lt_less split: if_splits)
  qed
  then have "causal A i c' \<and> safe c' i None E"
  proof cases
    case 1
    then show ?thesis using rp by simp
  next
    case 2
    then show ?thesis using causal_resume [OF 2(2) rp(1) f rp(4) _ rp(3)] awake_not_done [OF rp(2) f] by simp
  next
    case 3
    have nd: "\<not> f_done f" using awake_not_done [OF rp(2) f] 3(1) by blast
    have mx: "mod_bufs A i ?x" and rd: "readable None 0" using cp(8) by (simp_all add: readable_def)
    show ?thesis
    proof (rule causal_deliver [OF 3(2) d_def rp(1) f rp(4) nd rd x mx])
      fix c1
      assume st: "step_frame i c c1" and k: "m_pending (get_mod c1 i) = ?ps" "m_next_req_id (get_mod c1 i) = m_next_req_id (get_mod c i)"
        "m_inbox (get_mod c1 i) = m_inbox (get_mod c i)" "m_deferred (get_mod c1 i) = m_deferred (get_mod c i)"
        "m_owed None (get_mod c i) \<subseteq> m_owed None (get_mod c1 i)"
      show "safe c1 i None E"
        by (rule safe_keep [OF rp(3) st cp(2) ids_grow_drop [OF k(1,2)] _ k(5)]) (simp add: events_def k)
    qed
  qed
  with idle show ?thesis by (simp add: resting_def)
qed

lemma new_fiber_all_ok:
  assumes "all_ok (m_env m)"
  shows "fst (new_fiber m fn s q r msg sz res t cl) \<noteq> None"
  using assms by (simp add: new_fiber_def Let_def split_def all_ok_def)

lemma causal_start_fiber:
  assumes run: "(case rp of None \<Rightarrow> ok (set_mod i m1 c)
     | Some p \<Rightarrow> (case get_fiber m1 p of None \<Rightarrow> undef (Use_after_free p c)
         | Some f \<Rightarrow> resume (set_mod i (put_fiber (f\<lparr>f_seq_name := nm\<rparr>) m1) c) i p)) = ok c'"
    and new: "new_fiber (get_mod c i) fn s q r msg sz res t cl = (rp, m1)"
    and c: "causal A i c" and addr: "addr_ok (get_mod c i)" and h: "honest (A i) fn" and rd: "readable msg sz"
    and q: "asked A i q s"
    and sf: "safe c i None (e # E)"
    and lost: "carried c i None (e # E) \<subseteq> carried c i None E \<union> L" "L = {} \<or> (L = {(q, r)} \<and> answers fn)"
  shows "causal A i c' \<and> safe c' i None E"
proof -
  note cp = causal_parts [OF c]
  let ?m = "get_mod c i"
  have "rp \<noteq> None" using new_fiber_all_ok [OF cp(6)] new by (metis fst_conv)
  then obtain p where rp: "rp = Some p" by blast
  obtain f0 en where m1: "m1 = ?m\<lparr>m_env := en, m_next_fptr := m_next_fptr ?m + 1, m_fibers := f0 # m_fibers ?m\<rparr>"
    and p: "p = m_next_fptr ?m" and self: "f_self f0 = p" and fresh: "fresh_fiber f0" and ffn: "f_fn f0 = fn"
    and to: "f_reply_to f0 = q" "f_reply_req_id f0 = r" and sq: "f_seq_idx f0 = s" and en: "lib_ok en = lib_ok (m_env ?m)"
    and wf: "readable msg sz \<Longrightarrow> buf_wf f0"
    by (rule new_fiber_Some [OF new [unfolded rp]]) blast
  define g where "g = f0\<lparr>f_seq_name := nm\<rparr>"
  have gf: "f_self g = p" "f_reply_to g = q" "f_reply_req_id g = r" "\<not> f_done g" "f_fn g = fn" "f_ctx g = At_entry"
    using self to fresh ffn by (simp_all add: g_def fresh_fiber_def)
  have other: "f_self f \<noteq> p" if "f \<in> set (m_fibers ?m)" for f
    using addr that p unfolding addr_ok_def by fastforce
  have map: "map (\<lambda>f. if f_self f = p then g else f) (m_fibers ?m) = m_fibers ?m"
    by (rule map_idI) (simp add: other)
  have pm: "put_fiber g m1 = m1\<lparr>m_fibers := g # m_fibers ?m\<rparr>"
    by (simp add: put_fiber_def m1 gf(1) self map)
  define c1 where "c1 = set_mod i (put_fiber g m1) c"
  have g1: "get_mod c1 i = m1\<lparr>m_fibers := g # m_fibers ?m\<rparr>" using cp(4) by (simp add: c1_def pm)
  have res: "resume c1 i p = ok c'"
    using run rp by (simp add: c1_def g_def m1 get_fiber_def self)
  have st: "step_frame i c c1" using cp(4) en by (simp add: c1_def step_frame_set_mod m1)
  have "fiber_bufs A i f0" using wf [OF rd] h ffn fresh to sq q by (simp add: fiber_bufs_def fresh_fiber_def)
  then have "mod_bufs A i m1" "fiber_bufs A i g" using cp(7,8) by (auto simp: m1 mod_bufs_def idx_ok_def g_def)
  then have "bufs_at A i c1" using cp(1) by (auto simp: c1_def intro!: mod_bufs_put)
  then have c1: "causal A i c1" by (rule causal_step [OF c st]) (simp_all add: g1 m1)
  have "addr_ok m1" using addr other p by (auto simp: addr_ok_def m1 self less_Suc_eq)
  then have a1: "addr_ok (get_mod c1 i)" using g1 pm addr_ok_put by metis
  have f1: "get_fiber (get_mod c1 i) p = Some g" by (simp add: g1 get_fiber_def gf(1))
  have "safe c1 i None E"
  proof (rule safe_step [OF sf st cp(2)])
    show "ids_grow ?m (get_mod c1 i) {}" by (rule ids_grow_upd) (simp_all add: g1 m1)
    have own: "(q, r) \<in> m_owed None (get_mod c1 i)" if "answers fn"
      using m_owedI [of g "get_mod c1 i" None] gf that by (simp add: g1 owes_def)
    have "m_owed None ?m \<subseteq> m_owed None (get_mod c1 i) \<union> {}" by (auto simp: m_owed_def g1)
    then have "carried c i None E \<subseteq> carried c1 i None E"
      using carried_step [OF st, of E E None None "{}"] by (simp add: events_def g1 m1)
    moreover have "L \<subseteq> carried c1 i None E"
      using lost(2) own carried_owed [of i c1 _ i None E] causal_parts(2) [OF c1] by auto
    ultimately show "x \<in> carried c1 i None E" if "x \<in> carried c i None (e # E)" for x
      using lost(1) that by blast
  qed simp
  from causal_resume [OF res c1 f1 a1 gf(4) this] show ?thesis .
qed

lemma known_listed:
  assumes "causal A i c" and "ev_good A i e" and "e_type e = EV_START" and "e_requester e \<noteq> EXTERNAL"
  shows "e_seq_idx e < m_nr_seq (get_mod c i)"
proof -
  let ?A = "A (nat (e_requester e))"
  have k: "known ?A (int i) (e_seq_idx e)" using assms(2-4) by (simp add: ev_good_def asked_def)
  have "\<not> known ?A (- 1) 0" using causal_known [OF assms(1), of _ "-1" 0] by fastforce
  then have "?A \<noteq> None" by (metis known_None)
  then obtain D where D: "?A = Some D" by blast
  then obtain n where n: "D (int i) = Some n" "e_seq_idx e < n"
    using k by (auto simp: known_def split: option.splits)
  have "listed A i (m_nr_seq (get_mod c i))" using causal_parts(8) [OF assms(1)] by (simp add: mod_bufs_def)
  then show ?thesis using D n by (simp add: listed_def)
qed

lemma resting_start:
  assumes st: "start_sequence c i e = ok c'" and rest: "resting A i (e # E) c" and t: "e_type e = EV_START"
    and good: "ev_good A i e"
  shows "resting A i E c'"
proof -
  note rp = resting_parts [OF rest] and cp = causal_parts [OF resting_parts(1) [OF rest]]
  let ?m = "get_mod c i"
  have spec: "run_spec life_idle dangling False i c (start_sequence c i e)" by (rule life.start_sequence_spec [OF rp(2) cp(3,4)])
  have hand: "carried c i None (e # E) \<subseteq> carried c i None E \<union> {(e_requester e, e_req_id e)}"
    using carried_hand [OF cp(2), of None e E] t by simp
  have "causal A i c' \<and> safe c' i None E"
  proof (cases "m_nr_seq ?m \<le> e_seq_idx e")
    case True
    then have ext: "e_requester e = EXTERNAL" using known_listed [OF rp(1) good t] by force
    obtain en where c': "c' = set_mod i (?m\<lparr>m_env := en\<rparr>) c"
      using st True by (auto simp: start_sequence_def Let_def)
    have g: "get_mod c' i = ?m\<lparr>m_env := en\<rparr>" using cp(4) c' by simp
    have fr: "step_frame i c c'" using spec st by simp
    have "bufs_at A i c'" using cp(1,8) c' by auto
    then have "causal A i c'" by (rule causal_step [OF rp(1) fr]) (simp_all add: g)
    moreover have "safe c' i None E"
    proof (rule safe_step [OF rp(3) fr cp(2)])
      show "ids_grow ?m (get_mod c' i) {}" by (rule ids_grow_upd) (simp_all add: g)
      have "carried c i None E \<subseteq> carried c' i None E"
        using carried_step [OF fr, of E E None None "{}"] by (simp add: events_def g m_owed_def)
      moreover have "x \<noteq> (e_requester e, e_req_id e)" if "x \<in> outstanding c'" for x
        using that ext by (auto simp: outstanding_def EXTERNAL_def)
      ultimately show "x \<in> carried c' i None E" if "x \<in> carried c i None (e # E)" "x \<in> outstanding c'" for x
        using hand that by blast
    qed simp
    ultimately show ?thesis ..
  next
    case False
    with st have idx: "unat (e_seq_idx e) < length (m_seqs ?m)"
      by (auto simp: start_sequence_def Let_def split: if_splits)
    let ?sq = "m_seqs ?m ! unat (e_seq_idx e)"
    have h: "honest (A i) (sq_fn ?sq)" using idx cp(8) by (simp add: mod_bufs_def)
    have a: "answers (sq_fn ?sq)" using idx cp(5) by (simp add: mod_ok_def)
    obtain r1 m1 where new: "new_fiber ?m (sq_fn ?sq) (e_seq_idx e) (e_requester e) (e_req_id e) (e_msg e)
        (e_msg_size e) COSEQ_RSLT_IGNORE (word_of_int (e_requester e)) 0 = (r1, m1)" by fastforce
    show ?thesis
      by (rule causal_start_fiber [OF _ new rp(1,4) h readable_ev [OF ev_good_wf [OF good]] _ rp(3) hand])
        (use st False idx a good t in \<open>simp_all add: start_sequence_def Let_def new ev_good_def\<close>)
  qed
  then show ?thesis using spec st by (simp add: resting_def)
qed

lemma resting_notify:
  assumes st: "run_notify c i e = ok c'" and rest: "resting A i (e # E) c" and t: "e_type e = EV_NOTIFY"
    and "ev_wf e"
  shows "resting A i E c'"
proof -
  note rp = resting_parts [OF rest] and cp = causal_parts [OF resting_parts(1) [OF rest]]
  have spec: "run_spec life_idle dangling False i c (run_notify c i e)" by (rule life.run_notify_spec [OF rp(2) cp(3,4)])
  have hand: "carried c i None (e # E) \<subseteq> carried c i None E \<union> {}"
    using carried_hand [OF cp(2), of None e E] t by simp
  have "causal A i c' \<and> safe c' i None E"
  proof (cases "m_recv_notify (get_mod c i)")
    case None
    then have "c' = c" using st by (simp add: run_notify_def)
    moreover have "safe c i None E"
      by (rule safe_step [OF rp(3) step_frame_refl cp(2) ids_grow_upd]) (use hand in auto)
    ultimately show ?thesis using rp(1) by simp
  next
    case (Some fn)
    have h: "honest (A i) fn" using cp(8) Some by (simp add: mod_bufs_def)
    obtain r1 m1 where new: "new_fiber (get_mod c i) fn 0 EXTERNAL 0 (e_msg e) (e_msg_size e) COSEQ_RSLT_SUCCESS
        (word_of_int (e_requester e)) (e_client_id e) = (r1, m1)" by fastforce
    show ?thesis
      by (rule causal_start_fiber [OF _ new rp(1,4) h readable_ev [OF assms(4)] _ rp(3) hand])
        (use st Some in \<open>simp_all add: run_notify_def Let_def new\<close>)
  qed
  then show ?thesis using spec st by (simp add: resting_def)
qed

lemma resting_event_one:
  assumes ev: "event_one i e c = ok c'" and rest: "resting A i (e # E) c" and good: "ev_good A i e"
  shows "resting A i E c'"
proof -
  note rp = resting_parts [OF rest] and cp = causal_parts [OF resting_parts(1) [OF rest]]
  let ?c1 = "set_mod i (defer_ev (get_mod c i) e) c"
  consider "c' = ?c1" | "e_type e = EV_START" "start_sequence c i e = ok c'"
    | "e_type e = EV_REPLY" "handle_reply c i e = ok c'" | "e_type e = EV_NOTIFY" "run_notify c i e = ok c'"
    using ev ev_type_t.exhaust [of "e_type e"] by (auto simp: event_one_def Let_def split: if_splits)
  then show ?thesis
  proof cases
    case 1
    have spec: "run_spec life_idle dangling False i c (event_one i e c)" by (rule life.event_one_spec [OF rp(2) cp(3,4)])
    have g: "get_mod c' i = defer_ev (get_mod c i) e" using 1 cp(4) by simp
    have st: "step_frame i c c'" using spec ev by simp
    have "bufs_at A i c'" by (rule bufs_event_one [OF ev cp(1) good])
    then have "causal A i c'" by (rule causal_step [OF rp(1) st]) (simp_all add: g defer_ev_def)
    moreover have "safe c' i None E"
      by (rule safe_keep [OF rp(3) st cp(2)]) (auto simp: g defer_ev_def ids_grow_upd events_def m_owed_def)
    ultimately show ?thesis using spec ev by (simp add: resting_def)
  next
    case 2
    then show ?thesis using resting_start [OF _ rest _ good] by blast
  next
    case 3
    then show ?thesis using resting_handle_reply [OF _ rest _ ev_good_wf [OF good]] by blast
  next
    case 4
    then show ?thesis using resting_notify [OF _ rest _ ev_good_wf [OF good]] by blast
  qed
qed

lemma resting_events:
  assumes "ofold (event_one i) E c = ok c'" and "resting A i (E @ R) c" and "\<forall>e \<in> set E. ev_good A i e"
  shows "resting A i R c'"
  using assms
proof (induction E arbitrary: c)
  case (Cons e E)
  then obtain c1 where c1: "event_one i e c = ok c1" "ofold (event_one i) E c1 = ok c'"
    by (auto simp: obind_eq_ok)
  have "resting A i (E @ R) c1" using Cons.prems(2,3) by (intro resting_event_one [OF c1(1)]) simp_all
  from Cons.IH [OF c1(2) this] Cons.prems(3) show ?case by simp
qed simp

text \<open>A change of the own module that keeps its fibers, its ids and, with those in hand, its events.\<close>

lemma resting_set:
  assumes rest: "resting A i E c" and m: "mod_bufs A i m" "life_idle m" "lib_ok (m_env m) = lib_ok (m_env (get_mod c i))"
    "m_idx m = m_idx (get_mod c i)" "m_seqs m = m_seqs (get_mod c i)" "m_pending m = m_pending (get_mod c i)"
    "m_next_req_id m = m_next_req_id (get_mod c i)"
    "m_owed None (get_mod c i) \<subseteq> m_owed None m"
    and ev: "set (m_inbox (get_mod c i)) \<union> set (m_deferred (get_mod c i)) \<union> set E \<subseteq>
      set (m_inbox m) \<union> set (m_deferred m) \<union> set E'"
  shows "resting A i E' (set_mod i m c)"
proof -
  note rp = resting_parts [OF rest] and cp = causal_parts [OF resting_parts(1) [OF rest]]
  have g: "get_mod (set_mod i m c) i = m" using cp(4) by simp
  have st: "step_frame i c (set_mod i m c)" using cp(4) m(3) by (simp add: step_frame_set_mod)
  have "bufs_at A i (set_mod i m c)" using cp(1) m(1) by blast
  then have "causal A i (set_mod i m c)" by (rule causal_step [OF rp(1) st]) (simp_all add: g m)
  moreover have "safe (set_mod i m c) i None E'"
    by (rule safe_keep [OF rp(3) st cp(2)]) (use ev in \<open>simp_all add: g m ids_grow_upd events_def\<close>)
  ultimately show ?thesis using m(2) g by (simp add: resting_def)
qed

lemma life_idle_upd:
  "life_idle (m\<lparr>m_inbox := evs, m_deferred := ds\<rparr>) = life_idle m"
  "life_idle (m\<lparr>m_inbox := evs, m_env := en\<rparr>) = life_idle m"
  by (simp_all add: life_idle_def lock_ok_def table_ok_def addr_ok_def selves_def)

lemma life_inbox: "life_idle (m\<lparr>m_inbox := evs\<rparr>) = life_idle m"
  by (simp add: life_idle_def lock_ok_def table_ok_def addr_ok_def selves_def)

lemma resting_sched_iter:
  assumes it: "sched_iter i c = ok (b, c')" and rest: "resting A i R c"
  shows "resting A i R c'"
proof -
  note rp = resting_parts [OF rest] and cp = causal_parts [OF resting_parts(1) [OF rest]]
  let ?s = "sched_splice (get_mod c i)"
  have "mod_bufs A i ?s" using cp(8) by (auto simp: sched_splice_def mod_bufs_def idx_ok_def)
  then have splice: "resting A i R (set_mod i ?s c)"
    by (rule resting_set [OF rest])
      (use rp(2) in \<open>auto simp: sched_splice_def m_owed_def life_idle_upd\<close>)
  have turn: "resting A i R c'" if t: "sched_turn i d = ok (b, c')" and d: "resting A i R d" for d
  proof (cases "m_stop (get_mod d i)")
    case True
    with t d show ?thesis by (simp add: sched_turn_def)
  next
    case False
    note dp = resting_parts [OF d] and dcp = causal_parts [OF resting_parts(1) [OF d]]
    let ?m = "get_mod d i" and ?now = "now_ts (m_env (get_mod d i))"
    let ?m1 = "?m\<lparr>m_inbox := [], m_env := snd ?now\<rparr>"
    obtain c2 c3 where c2: "ofold (timer_one i (fst ?now)) (map f_self (m_fibers ?m)) (set_mod i ?m1 d) = ok c2"
      and c3: "ofold (event_one i) (m_inbox ?m) c2 = ok c3"
      and c': "c' = set_mod i (reap_done (get_mod c3 i)) c3"
      using t False by (auto simp: sched_turn_def Let_def split_def obind_eq_ok)
    have "mod_bufs A i ?m1" using dcp(8) by (simp add: mod_bufs_def idx_ok_def)
    then have "resting A i (m_inbox ?m @ R) (set_mod i ?m1 d)"
      by (rule resting_set [OF d]) (use dp(2) in \<open>auto simp: m_owed_def life_idle_upd now_ts_env\<close>)
    then have "resting A i (m_inbox ?m @ R) c2"
      by (rule ofold_inv [where I = "resting A i (m_inbox ?m @ R)", OF c2]) (rule resting_timer_one)
    then have r3: "resting A i R c3"
      by (rule resting_events [OF c3]) (use dcp(8) in \<open>auto simp: mod_bufs_def\<close>)
    have "mod_bufs A i (reap_done (get_mod c3 i))"
      using causal_parts(8) [OF resting_parts(1) [OF r3]] by (auto simp: mod_bufs_def idx_ok_def reap_done_def)
    then show ?thesis
      unfolding c'
      by (rule resting_set [OF r3])
        (use life.reap_Q [OF resting_parts(2) [OF r3]] in \<open>auto simp: reap_done_def m_owed_def owes_def\<close>)
  qed
  show ?thesis by (rule turn [OF _ splice]) (use it in \<open>simp add: sched_iter_def\<close>)
qed

text \<open>In a turn of the system the events that have not arrived yet are in hand.\<close>

lemma resting_turn:
  assumes "arrived (m_inbox (get_mod c i)) evs late" and "sched_iter i (set_inbox i evs c) = ok (b, c1)"
    and rest: "resting A i [] c"
  shows "resting A i [] (set_inbox i (late @ m_inbox (get_mod c1 i)) c1)"
proof -
  note rp = resting_parts [OF rest] and cp = causal_parts [OF resting_parts(1) [OF rest]] and evs = arrived_set [OF assms(1)]
  have "resting A i late (set_inbox i evs c)"
    unfolding set_inbox_def
    by (rule resting_set [OF rest]) (use rp(2) cp(8) evs in \<open>auto simp: mod_bufs_def idx_ok_def life_inbox m_owed_def\<close>)
  from resting_sched_iter [OF assms(2) this] have r1: "resting A i late c1" .
  note rp1 = resting_parts [OF r1] and cp1 = causal_parts [OF resting_parts(1) [OF r1]]
  have "\<forall>e \<in> set late. ev_good A i e" using cp(8) evs by (auto simp: mod_bufs_def)
  then show ?thesis
    unfolding set_inbox_def
    by (intro resting_set [OF r1]) (use rp1(2) cp1(8) in \<open>auto simp: mod_bufs_def idx_ok_def life_inbox m_owed_def\<close>)
qed

section \<open>Every reachable state\<close>

definition answering_table :: "coseq_reg_t list \<Rightarrow> bool" where
  "answering_table tbl \<longleftrightarrow> (\<forall>r \<in> set tbl. \<forall>sq \<in> set (r_seq_array r). answers (sq_fn sq))"

text \<open>Each module of the table is in its place and has its sequences, and only these run.\<close>

definition placed :: "coseq_ctx_private \<Rightarrow> bool" where
  "placed c \<longleftrightarrow> (\<forall>j. int j < nr_module c \<longrightarrow> m_idx (get_mod c j) = int j \<and>
       (\<forall>sq \<in> set (m_seqs (get_mod c j)). answers (sq_fn sq)))"

definition started :: "coseq_ctx_private \<Rightarrow> bool" where
  "started c \<longleftrightarrow> (\<forall>j < MAX_MODULE. m_th_started (get_mod c j) \<longrightarrow> int j < nr_module c)"

definition calm :: "coseq_ctx_private \<Rightarrow> bool" where
  "calm c \<longleftrightarrow> (\<forall>j. int j < nr_module c \<longrightarrow> all_ok (m_env (get_mod c j)))"

lemma calm_step: "step_frame i c c' \<Longrightarrow> calm c' = calm c"
proof -
  assume st: "step_frame i c c'"
  have "all_ok (m_env (get_mod c' j)) = all_ok (m_env (get_mod c j))" for j
    using step_frame_other(8) [OF st, of j] st by (cases "j = i") (simp_all add: all_ok_def step_frame_def)
  then show ?thesis using step_frame_nr [OF st] by (simp add: calm_def)
qed

lemma safe_index: "safe c i None [] = safe c j None []"
proof -
  have "events c i [] = events c j []" by (rule ext) (simp add: events_def)
  then have "carried c i None [] = carried c j None []" by (simp add: carried_def)
  then show ?thesis by (simp add: safe_def)
qed

lemma all_grow_mod:
  assumes "all_grow c c'"
  obtains evs where "get_mod c' j = (get_mod c j)\<lparr>m_inbox := m_inbox (get_mod c j) @ evs\<rparr>"
  using assms unfolding all_grow_def inbox_grows_def by blast

lemma all_grow_keeps:
  assumes "all_grow c c'"
  shows "nr_module c' = nr_module c" "m_idx (get_mod c' j) = m_idx (get_mod c j)" "m_seqs (get_mod c' j) = m_seqs (get_mod c j)"
    "m_th_started (get_mod c' j) = m_th_started (get_mod c j)" "m_env (get_mod c' j) = m_env (get_mod c j)"
    "m_pending (get_mod c' j) = m_pending (get_mod c j)" "m_next_req_id (get_mod c' j) = m_next_req_id (get_mod c j)"
    "m_fibers (get_mod c' j) = m_fibers (get_mod c j)" "events c i E j \<subseteq> events c' i E j"
proof -
  obtain evs where "get_mod c' j = (get_mod c j)\<lparr>m_inbox := m_inbox (get_mod c j) @ evs\<rparr>"
    by (rule all_grow_mod [OF assms])
  then show "m_idx (get_mod c' j) = m_idx (get_mod c j)" "m_seqs (get_mod c' j) = m_seqs (get_mod c j)"
    "m_th_started (get_mod c' j) = m_th_started (get_mod c j)" "m_env (get_mod c' j) = m_env (get_mod c j)"
    "m_pending (get_mod c' j) = m_pending (get_mod c j)" "m_next_req_id (get_mod c' j) = m_next_req_id (get_mod c j)"
    "m_fibers (get_mod c' j) = m_fibers (get_mod c j)" "events c i E j \<subseteq> events c' i E j"
    by (auto simp: events_def)
qed (use assms in \<open>simp add: all_grow_def\<close>)

lemma safe_grow:
  assumes "all_grow c c'" and "safe c i None []"
  shows "safe c' i None []"
proof -
  note k = all_grow_keeps [OF assms(1)]
  have o: "outstanding c' = outstanding c" by (simp add: outstanding_def ids_def k)
  have w: "ids_wrapped c' = ids_wrapped c" by (simp add: ids_wrapped_def k)
  have ok: "ids_ok (get_mod c' j) = ids_ok (get_mod c j)" for j by (simp add: ids_ok_def ids_def k)
  have ow: "m_owed r (get_mod c' j) = m_owed r (get_mod c j)" for r j by (simp add: m_owed_def k)
  have ev: "x \<in> events c i [] j \<Longrightarrow> x \<in> events c' i [] j" for x j using k(9) by blast
  have "carried c i None [] \<subseteq> carried c' i None []"
    unfolding carried_def ow k(1) by (fast intro: ev)
  then show ?thesis using assms(2) by (simp add: safe_def o w ok k(1)) blast
qed

lemma placed_grow: "all_grow c c' \<Longrightarrow> placed c' = placed c"
  using all_grow_keeps [of c c'] by (simp add: placed_def)

lemma started_grow: "all_grow c c' \<Longrightarrow> started c' = started c"
  using all_grow_keeps [of c c'] by (simp add: started_def)

lemma calm_grow: "all_grow c c' \<Longrightarrow> calm c' = calm c"
  using all_grow_keeps [of c c'] by (simp add: calm_def)

lemma known_directory: "known (Some (directory tbl)) d s \<Longrightarrow> 0 \<le> d \<and> d < int (length tbl)"
  by (auto simp: known_def directory_def split: if_splits option.splits)

lemma resting_calm:
  assumes "placed c" and "calm c" and "safe c i None []" and "bufs (\<lambda>_. Some (directory tbl)) c"
    and "nr_module c = int (length tbl)" and "valid_mod c i" and "int i < nr_module c" and "life_idle (get_mod c i)"
  shows "resting (\<lambda>_. Some (directory tbl)) i [] c"
  using assms known_directory [of tbl]
  by (auto simp: resting_def causal_def bufs_at_def mod_ok_def placed_def calm_def)

lemma start_state:
  assumes ready: "coseq_setup fresh_ctx tbl nr envs en = (True, c, en')" and l: "length tbl = unat nr"
    and "answering_table tbl"
  shows "placed c" "started c" "nr_module c = int (length tbl)" "safe c i None []"
proof -
  note ok = coseq_setup_ok [OF ready l fresh_ctx_simps(1)]
  show nr: "nr_module c = int (length tbl)" unfolding ok(1) l by simp
  have j: "int j < nr_module c \<longleftrightarrow> j < unat nr" for j using nr l by linarith
  have b: "get_mod c j = booted j (tbl ! j) (envs j)" if "int j < nr_module c" for j
    using that j ok(4) [of j] by simp
  have "\<not> m_th_started (get_mod c j)" if "j < MAX_MODULE" "\<not> int j < nr_module c" for j
    using that j ok(4) [of j] by (simp add: zero_module_def)
  then show "started c" by (auto simp: started_def)
  have "tbl ! j \<in> set tbl" if "int j < nr_module c" for j using that nr by simp
  then show "placed c" using b assms(3) by (auto simp: placed_def booted_fields answering_table_def)
  show "safe c i None []"
    using b by (auto simp: safe_def outstanding_def ids_def ids_ok_def booted_fields)
qed

lemma reachable_causal:
  assumes "reachable tbl c" and "table_wf tbl" and "honest_table (Some (directory tbl)) tbl" and "answering_table tbl"
  shows "nr_module c = int (length tbl) \<and> started c \<and> (calm c \<longrightarrow> placed c \<and> safe c 0 None [])"
  using assms(1)
proof induction
  case (start nr envs en c en')
  from start_state [OF start assms(4)] show ?case by simp
next
  case (more c c')
  note nr = reachable_life(1) [OF more(1) assms(2)]
  have grown: ?case if g: "all_grow c c'"
    using more.IH all_grow_keeps(1) [OF g] placed_grow [OF g] started_grow [OF g] calm_grow [OF g] safe_grow [OF g]
    by simp
  from more(2) show ?case
  proof (cases rule: sys_step.cases)
    case (turn i evs late b c1)
    note idle = reachable_life(2) [OF more(1) assms(2) turn(2)]
    have bufs: "bufs (\<lambda>_. Some (directory tbl)) c" by (rule reachable_bufs [OF more(1) assms(3)]) simp
    have i: "int i < nr_module c"
    proof -
      have "started c" "i < MAX_MODULE" using more.IH bufs turn(2) by (simp_all add: bufs_def)
      then show ?thesis using turn(3) unfolding started_def by blast
    qed
    have st: "step_frame i c c'" unfolding turn(1) by (rule life.turn_spec(1) [OF idle nr turn(2,5)])
    have "started c'"
      unfolding started_def
    proof (intro allI impI)
      fix j
      assume j: "j < MAX_MODULE" "m_th_started (get_mod c' j)"
      show "int j < nr_module c'"
      proof (cases "j = i")
        case False
        then obtain evs where "get_mod c' j = (get_mod c j)\<lparr>m_inbox := m_inbox (get_mod c j) @ evs\<rparr>"
          using st unfolding step_frame_def others_grow_def inbox_grows_def by blast
        then have "m_th_started (get_mod c j)" using j by simp
        moreover have "started c" using more.IH by simp
        ultimately show ?thesis using j(1) unfolding step_frame_nr [OF st] started_def by blast
      qed (use i step_frame_nr [OF st] in simp)
    qed
    moreover have "placed c' \<and> safe c' 0 None []" if "calm c'"
    proof -
      have "calm c" using that calm_step [OF st] by simp
      then have "resting (\<lambda>_. Some (directory tbl)) i [] c"
        using more.IH safe_index [of c 0 i] by (intro resting_calm bufs turn(2) i idle) auto
      then have "resting (\<lambda>_. Some (directory tbl)) i [] c'"
        unfolding turn(1) by (rule resting_turn [OF turn(4,5)])
      then show ?thesis
        using safe_index [of c' 0 i] by (auto simp: resting_def causal_def mod_ok_def placed_def)
    qed
    ultimately show ?thesis using more.IH step_frame_nr [OF st] by simp
  next
    case (sync_begin mi si msg n en rid en')
    from grown [OF request_sync_begin_grows [OF nr sync_begin(1)]] show ?thesis .
  next
    case (sync_end t rid mi si en t' en')
    from grown [OF request_sync_end_grows [OF sync_end(2)]] show ?thesis .
  next
    case (async mi si msg n en en')
    from grown [OF request_async_grows [OF nr async(1)]] show ?thesis .
  qed
qed

lemma carried_cases:
  assumes "(int i, r) \<in> carried c k None []"
  obtains j e where "int j < nr_module c" "e \<in> set (m_inbox (get_mod c j) @ m_deferred (get_mod c j))"
    "e_type e = EV_START" "e_requester e = int i" "e_req_id e = r"
  | e where "e \<in> set (m_inbox (get_mod c i) @ m_deferred (get_mod c i))" "e_type e = EV_REPLY" "e_req_id e = r"
  | j f where "int j < nr_module c" "f \<in> set (m_fibers (get_mod c j))" "f_reply_to f = int i" "f_reply_req_id f = r"
    "owes None f"
proof -
  have "events c k [] = (\<lambda>j. set (m_inbox (get_mod c j) @ m_deferred (get_mod c j)))"
    by (rule ext) (simp add: events_def)
  then have "carried c k None [] =
      {(e_requester e, e_req_id e) | e j. int j < nr_module c \<and> e \<in> set (m_inbox (get_mod c j) @ m_deferred (get_mod c j)) \<and>
        e_type e = EV_START} \<union>
      {(int j, e_req_id e) | e j. int j < nr_module c \<and> e \<in> set (m_inbox (get_mod c j) @ m_deferred (get_mod c j)) \<and>
        e_type e = EV_REPLY} \<union>
      {x | x j. int j < nr_module c \<and> x \<in> m_owed None (get_mod c j)}"
    by (simp add: carried_def)
  with assms that show ?thesis by (auto simp: m_owed_def simp del: set_append)
qed

text \<open>
  C2: No request is lost. Let the sequences of the table address sequences that exist, pass buffers
  that hold what they say, and reply before they return, and let no allocation fail. Then in every
  reachable state, before a module has given out \<open>2\<^sup>3\<^sup>2\<close> ids, each outstanding request of a module is on
  its way as the event that starts the sequence asked, or is being worked on by a fiber that will
  reply to it before it returns, or its reply is on its way back to the module.
\<close>

theorem no_request_lost:
  assumes "reachable tbl c" and "table_wf tbl" and "honest_table (Some (directory tbl)) tbl" and "answering_table tbl"
    and "\<forall>j < length tbl. all_ok (m_env (get_mod c j)) \<and> m_next_req_id (get_mod c j) \<le> 2 ^ 32"
    and "i < length tbl" and "q \<in> set (m_pending (get_mod c i))"
  shows "(\<exists>j < length tbl. \<exists>e \<in> set (m_inbox (get_mod c j) @ m_deferred (get_mod c j)).
      e_type e = EV_START \<and> e_requester e = int i \<and> e_req_id e = p_req_id q) \<or>
    (\<exists>j < length tbl. \<exists>f \<in> set (m_fibers (get_mod c j)).
      f_reply_to f = int i \<and> f_reply_req_id f = p_req_id q \<and> \<not> f_done f \<and> rest_answers (f_fn f) (f_ctx f)) \<or>
    (\<exists>e \<in> set (m_inbox (get_mod c i) @ m_deferred (get_mod c i)). e_type e = EV_REPLY \<and> e_req_id e = p_req_id q)"
proof -
  note r = reachable_causal [OF assms(1-4)]
  have nr: "int j < nr_module c \<longleftrightarrow> j < length tbl" for j using r by simp
  have "calm c" "\<not> ids_wrapped c" using assms(5) by (auto simp: calm_def ids_wrapped_def nr not_less)
  then have "outstanding c \<subseteq> carried c 0 None []" using r by (simp add: safe_def)
  moreover have "(int i, p_req_id q) \<in> outstanding c" using assms(6,7) by (auto simp: outstanding_def ids_def nr)
  ultimately have "(int i, p_req_id q) \<in> carried c 0 None []" by blast
  then show ?thesis
  proof (rule carried_cases)
    fix j e
    assume "int j < nr_module c" "e \<in> set (m_inbox (get_mod c j) @ m_deferred (get_mod c j))" "e_type e = EV_START"
      "e_requester e = int i" "e_req_id e = p_req_id q"
    then show ?thesis unfolding nr by blast
  next
    fix e
    assume "e \<in> set (m_inbox (get_mod c i) @ m_deferred (get_mod c i))" "e_type e = EV_REPLY" "e_req_id e = p_req_id q"
    then show ?thesis by blast
  next
    fix j f
    assume "int j < nr_module c" "f \<in> set (m_fibers (get_mod c j))" "f_reply_to f = int i" "f_reply_req_id f = p_req_id q"
      "owes None f"
    then show ?thesis unfolding nr owes_def by auto
  qed
qed

text \<open>A module that asks itself.\<close>

definition ask_tbl :: "coseq_reg_t list" where
  "ask_tbl = [\<lparr>r_name = Some ''m'', r_nr_que_max = 4,
     r_seq_array = [seq_entry (Request 0 1 None 0 (\<lambda>_. Reply COSEQ_RSLT_SUCCESS None 0 Return)) ''ask'',
       seq_entry (Reply COSEQ_RSLT_SUCCESS None 0 Return) ''answer''],
     r_nr_seq_max = 2, r_recv_notify = None, r_user = 0\<rparr>]"

lemma ask_table:
  "table_wf ask_tbl" "honest_table (Some (directory ask_tbl)) ask_tbl" "answering_table ask_tbl"
  "length ask_tbl \<le> MAX_MODULE"
  by (simp_all add: ask_tbl_def table_wf_def honest_table_def honest_reg_def answering_table_def seq_entry_def known_def
      directory_def readable_def MAX_MODULE_def)

lemma ask_turn:
  assumes "valid_mod c 0" and "nr_module c = 1"
    and "get_mod c 0 = (booted 0 (ask_tbl ! 0) no_env)\<lparr>m_inbox := [event EV_START 0 r EXTERNAL COSEQ_RSLT_IGNORE]\<rparr>"
  shows "\<exists>c'. sched_iter 0 c = ok (True, c') \<and> m_pending (get_mod c' 0) = [\<lparr>p_req_id = 1, p_f = 0\<rparr>] \<and>
    m_next_req_id (get_mod c' 0) = 2 \<and> all_ok (m_env (get_mod c' 0))"
  using assms by (simp add: ask_tbl_def module_defs eval_defs Let_def word_facts all_ok_def)

lemma no_request_lost_witness:
  "\<exists>c. reachable ask_tbl c \<and> m_pending (get_mod c 0) = [\<lparr>p_req_id = 1, p_f = 0\<rparr>] \<and>
    ((\<exists>j < length ask_tbl. \<exists>e \<in> set (m_inbox (get_mod c j) @ m_deferred (get_mod c j)).
        e_type e = EV_START \<and> e_requester e = int 0 \<and> e_req_id e = 1) \<or>
      (\<exists>j < length ask_tbl. \<exists>f \<in> set (m_fibers (get_mod c j)).
        f_reply_to f = int 0 \<and> f_reply_req_id f = 1 \<and> \<not> f_done f \<and> rest_answers (f_fn f) (f_ctx f)) \<or>
      (\<exists>e \<in> set (m_inbox (get_mod c 0) @ m_deferred (get_mod c 0)). e_type e = EV_REPLY \<and> e_req_id e = 1))"
proof -
  let ?b = "boot ask_tbl" and ?c = "fst (request_async (boot ask_tbl) 0 0 None 0 no_env)"
  have b: "get_mod ?b 0 = booted 0 (ask_tbl ! 0) no_env" "nr_module ?b = 1" "length (modules ?b) = 32"
    using boot_simps [OF ask_table(4)] by (simp_all add: ask_tbl_def MAX_MODULE_def)
  have m: "get_mod ?c 0 = (booted 0 (ask_tbl ! 0) no_env)\<lparr>m_inbox :=
      [event EV_START 0 (ext_id ?b) EXTERNAL COSEQ_RSLT_IGNORE]\<rparr>" "valid_mod ?c 0" "nr_module ?c = 1"
    using b by (simp_all add: request_async_def eval_defs Let_def booted_fields event_def)
  obtain c where c: "sched_iter 0 ?c = ok (True, c)" "m_pending (get_mod c 0) = [\<lparr>p_req_id = 1, p_f = 0\<rparr>]"
    "m_next_req_id (get_mod c 0) = 2" "all_ok (m_env (get_mod c 0))"
    using ask_turn [OF m(2,3,1)] by blast
  have "reachable ask_tbl ?c"
    by (rule reachable.more [OF boot_reachable [OF ask_table(4)] sys_step.async])
      (rule prod.collapse [symmetric], simp add: readable_def)
  then have r: "reachable ask_tbl c"
    by (rule reachable.more [OF _ sys_turn [OF m(2) _ c(1)]]) (simp add: m(1) booted_fields)
  have l: "length ask_tbl = 1" by (simp add: ask_tbl_def)
  from no_request_lost [OF r ask_table(1-3), of 0 "\<lparr>p_req_id = 1, p_f = 0\<rparr>"] c(2-4) r show ?thesis
    by (intro exI [of _ c]) (simp add: l)
qed

end
