(* ===== verification/CoseqDeadlock.thy ===== *)
theory CoseqDeadlock
  imports CoseqCausal CoseqAccounting
begin

text \<open>
  Deadlock. While no allocation fails and the ids have not wrapped, the counters of a fiber are
  exact: it waits only for replies that are entered in the table. With the invariant that no
  request is lost this shows what a standstill looks like: the threads of all modules sleep
  without limit while requests are outstanding only if the requests wait for each other in a circle.
\<close>

section \<open>Exact accounts\<close>

definition entries_of :: "pending_t list \<Rightarrow> fptr \<Rightarrow> nat" where
  "entries_of ps p = length (filter (\<lambda>e. p_f e = p) ps)"

lemma entries_of_simps [simp]:
  "entries_of [] p = 0"
  "entries_of (e # ps) p = (if p_f e = p then 1 else 0) + entries_of ps p"
  by (simp_all add: entries_of_def)

lemma entries_of_none: "\<forall>e \<in> set ps. p_f e \<noteq> p \<Longrightarrow> entries_of ps p = 0"
  by (induction ps) auto

lemma entries_of_some: "entries_of ps p \<noteq> 0 \<Longrightarrow> \<exists>e \<in> set ps. p_f e = p"
  using entries_of_none [of ps p] by metis

text \<open>Taking out an entry that is there.\<close>

lemma entries_of_remove:
  "pending_find ps r = Some q \<Longrightarrow>
    entries_of ps p = (if p = q then 1 else 0) + entries_of (remove_first (\<lambda>e. p_req_id e = r) ps) p"
  by (induction ps) auto

lemma set_remove_found:
  "distinct (map p_req_id ps) \<Longrightarrow> pending_find ps r = Some q \<Longrightarrow>
    set (remove_first (\<lambda>e. p_req_id e = r) ps) = set ps - {\<lparr>p_req_id = r, p_f = q\<rparr>}"
proof (induction ps)
  case (Cons e ps)
  show ?case
  proof (cases "p_req_id e = r")
    case True
    with Cons.prems have "e = \<lparr>p_req_id = r, p_f = q\<rparr>" "e \<notin> set ps" by auto
    with True show ?thesis by simp
  next
    case False
    then have "e \<noteq> \<lparr>p_req_id = r, p_f = q\<rparr>" by auto
    with False Cons show ?thesis by auto
  qed
qed simp

lemma pending_find_entry:
  "distinct (map p_req_id ps) \<Longrightarrow> \<lparr>p_req_id = r, p_f = p\<rparr> \<in> set ps \<Longrightarrow> pending_find ps r = Some p"
proof (induction ps)
  case (Cons e ps)
  show ?case
  proof (cases "p_req_id e = r")
    case True
    have "e = \<lparr>p_req_id = r, p_f = p\<rparr>"
    proof (rule ccontr)
      assume "e \<noteq> \<lparr>p_req_id = r, p_f = p\<rparr>"
      then have "\<lparr>p_req_id = r, p_f = p\<rparr> \<in> set ps" using Cons.prems(2) by simp
      then have "r \<in> p_req_id ` set ps" by (metis imageI pending_t.select_convs(1))
      with True Cons.prems(1) show False by simp
    qed
    then show ?thesis by simp
  next
    case False
    then show ?thesis using Cons by auto
  qed
qed simp

text \<open>
  What a fiber is owed is what it counts: the replies it has still to collect and the one it
  blocks on are its entries and its queued replies.
\<close>

definition exact :: "pending_t list \<Rightarrow> fiber_t \<Rightarrow> bool" where
  "exact ps f \<longleftrightarrow>
     int (entries_of ps (f_self f)) + int (length (f_rq f)) =
       f_async_outstanding f + (if f_waiting_reply f then 1 else 0) \<and>
     (f_waiting_reply f \<longrightarrow> \<lparr>p_req_id = f_wait_req_id f, p_f = f_self f\<rparr> \<in> set ps) \<and>
     (f_waiting_any f \<longrightarrow> f_rq f = [] \<and> f_async_outstanding f \<noteq> 0)"

definition book_ok :: "module_t \<Rightarrow> bool" where
  "book_ok m \<longleftrightarrow> ids_ok m \<and> (\<forall>e \<in> set (m_pending m). p_f e < m_next_fptr m)"

definition tally :: "module_t \<Rightarrow> bool" where
  "tally m \<longleftrightarrow> book_ok m \<and> (\<forall>f \<in> set (m_fibers m). exact (m_pending m) f)"

lemma tally_private:
  assumes "m_private m' = m_private x"
  shows "book_ok m' = book_ok x" "tally m' = tally x"
  using m_private_fields [OF assms] by (simp_all add: tally_def book_ok_def ids_ok_def ids_def)

lemma book_ok_simps [simp]:
  "book_ok (put_fiber f m) = book_ok m"
  "book_ok (m\<lparr>m_current := q\<rparr>) = book_ok m"
  "book_ok (m\<lparr>m_deferred := evs\<rparr>) = book_ok m"
  "book_ok (m\<lparr>m_notify_clients := ncs\<rparr>) = book_ok m"
  by (simp_all add: book_ok_def ids_ok_def ids_def)

lemma book_ok_lock [simp]:
  "book_ok (coseq_lock m f) = book_ok m" "book_ok (coseq_unlock m f) = book_ok m"
  by (simp_all add: book_ok_def ids_ok_def ids_def coseq_lock_def coseq_unlock_def)

lemma book_ok_next: "book_ok m \<Longrightarrow> book_ok (m\<lparr>m_next_req_id := m_next_req_id m + 1\<rparr>)"
  by (auto simp: book_ok_def ids_ok_def ids_def less_Suc_eq)

lemma book_ok_drop: "book_ok m \<Longrightarrow> book_ok (drop_pending r m)"
  using set_remove_first_subset [of "\<lambda>p. p_req_id p = r" "m_pending m"]
  by (auto simp: book_ok_def ids_ok_def ids_def distinct_map_remove_first)

lemma book_ok_add:
  assumes "book_ok m" and "m_next_req_id m < 2 ^ 32" and "p < m_next_fptr m"
  shows "book_ok (pending_add (m\<lparr>m_next_req_id := m_next_req_id m + 1\<rparr>) (of_nat (m_next_req_id m)) p)"
proof -
  have "ids_grow m (pending_add (m\<lparr>m_next_req_id := m_next_req_id m + 1\<rparr>) (of_nat (m_next_req_id m)) p)
      {of_nat (m_next_req_id m)}"
    by (rule ids_grow_add [where q = p]) (simp_all add: pending_add_pending)
  then have "ids_ok (pending_add (m\<lparr>m_next_req_id := m_next_req_id m + 1\<rparr>) (of_nat (m_next_req_id m)) p)"
    using assms(1,2) by (simp add: ids_grow_def book_ok_def)
  then show ?thesis
    using assms(1,3) by (auto simp: book_ok_def pending_add_pending)
qed

lemma tally_put:
  assumes "f_self f \<in> selves m"
  shows "tally (put_fiber f m) \<longleftrightarrow> book_ok m \<and> exact (m_pending m) f \<and>
    (\<forall>g \<in> set (m_fibers m). f_self g \<noteq> f_self f \<longrightarrow> exact (m_pending m) g)"
  using assms by (auto simp: tally_def put_fiber_ball)

text \<open>Another fiber's entry comes or goes.\<close>

lemma exact_remove_other:
  assumes "exact ps g" and "distinct (map p_req_id ps)" and "pending_find ps r = Some p" and "f_self g \<noteq> p"
  shows "exact (remove_first (\<lambda>e. p_req_id e = r) ps) g"
  using assms(1,4) entries_of_remove [OF assms(3), of "f_self g"] set_remove_found [OF assms(2,3)]
  by (auto simp: exact_def)

lemma exact_add_other:
  assumes "exact ps g" and "f_self g \<noteq> p"
  shows "exact (\<lparr>p_req_id = r, p_f = p\<rparr> # ps) g"
  using assms by (simp add: exact_def)

text \<open>A step that touches one fiber and, at most, one of its entries.\<close>

lemma tally_fiber:
  assumes "tally m" and "book_ok x" and "f_self g = p" and "p \<in> selves x"
    and "exact (m_pending x) g" and "m_fibers x = m_fibers m"
    and "\<And>h. h \<in> set (m_fibers m) \<Longrightarrow> f_self h \<noteq> p \<Longrightarrow> exact (m_pending m) h \<Longrightarrow> exact (m_pending x) h"
    and "m_private m' = m_private (put_fiber g x) \<or>
      m_private m' = m_private ((put_fiber g x)\<lparr>m_current := q\<rparr>)"
  shows "tally m'"
proof -
  have g: "f_self g \<in> selves x" using assms(3,4) by simp
  have "tally (put_fiber g x)"
    unfolding tally_put [OF g] using assms(1-3,5-7) by (simp add: tally_def)
  moreover have "tally ((put_fiber g x)\<lparr>m_current := q\<rparr>) = tally (put_fiber g x)"
    by (simp add: tally_def)
  ultimately show ?thesis using assms(8) tally_private(2) by blast
qed

lemma tally_parts:
  assumes "tally m" and "get_fiber m p = Some f"
  shows "exact (m_pending m) f" "distinct (map p_req_id (m_pending m))" "book_ok m" "f_self f = p" "p \<in> selves m"
  using assms(1) get_fiber_Some [OF assms(2)] get_fiber_selves [OF assms(2)]
  by (auto simp: tally_def book_ok_def ids_ok_def)

lemma tally_quiet:
  assumes t: "tally m" and "quiet m m'" and ok: "all_ok (m_env m)"
  shows "tally m'"
  using assms(2)
proof (cases rule: quiet.cases)
  case q_same
  with t tally_private(2) show ?thesis by blast
next
  case (q_defer evs)
  show ?thesis unfolding tally_private(2) [OF q_defer] using t by (simp add: tally_def)
next
  case (q_lost r p f)
  with ok show ?thesis by blast
next
  case (q_queue r p f rr)
  note f = tally_parts [OF t q_queue(2)]
  have "exact (m_pending (drop_pending r m)) (rq_put f rr)"
    using f(1,4) q_queue(3) entries_of_remove [OF q_queue(1), of p] set_remove_found [OF f(2) q_queue(1)]
    by (auto simp: exact_def rq_put_def woken_by_def)
  from tally_fiber [OF t book_ok_drop [OF f(3)] _ _ this _ _ disjI1 [OF q_queue(5)]] show ?thesis
    using f(4,5) exact_remove_other [OF _ f(2) q_queue(1)] by (simp add: rq_put_def)
qed

text \<open>A fiber is switched in.\<close>

lemma exact_switched:
  assumes "exact ps f" and "entries_of ps (f_self f) = n + entries_of ps' (f_self f)" and "f_self f1 = f_self f"
    and "f_rq f1 = f_rq f" and "f_async_outstanding f1 = f_async_outstanding f"
    and "int n = (if f_waiting_reply f then 1 else 0) + (if is_After_wait_reply (f_ctx f1) then 1 else 0)"
  shows "exact ps' (switched f1)"
  using assms by (cases "f_ctx f1") (auto simp: exact_def switched_def)

lemma tally_wakes:
  assumes t: "tally m" and life: "life_idle m" and "wakes m p m' prog"
  shows "tally m'"
proof -
  have wf: "fiber_wf f" if "get_fiber m p = Some f" for f p
    using get_fiber_Some [OF that] life by (simp add: life_idle_def)
  from assms(3) show ?thesis
  proof (cases rule: wakes.cases)
    case (w_reply r f f1)
    note f = tally_parts [OF t w_reply(2)] and so = src_only_fields [OF w_reply(4)]
    have "parked_request f \<or> parked_any f"
      using wf [OF w_reply(2)] w_reply(3) by (auto simp: fiber_wf_def parked_defs woken_by_def split: if_splits)
    then have "exact (m_pending (drop_pending r m)) (switched f1)"
      using f(4) so entries_of_remove [OF w_reply(1), of p]
      by (intro exact_switched [OF f(1), where n = 1])
        (auto simp: parked_defs is_After_wait_reply_def is_After_request_def)
    from tally_fiber [OF t book_ok_drop [OF f(3)] _ _ this _ _ disjI2 [OF w_reply(6)]] show ?thesis
      using f(4,5) so exact_remove_other [OF _ f(2) w_reply(1)] by simp
  next
    case (w_timer f)
    note f = tally_parts [OF t w_timer(1)]
    have "parked_timer f"
      using wf [OF w_timer(1)] w_timer(2,3) by (auto simp: fiber_wf_def parked_defs split: if_splits)
    then have "exact (m_pending m) (switched f)"
      by (intro exact_switched [OF f(1), where n = 0])
        (auto simp: parked_timer_def is_After_wait_reply_def is_After_wait_timeout_def)
    from tally_fiber [OF t f(3) _ _ this _ _ disjI2 [OF w_timer(5)]] show ?thesis
      using f(4,5) by simp
  next
    case (w_req_timeout f f1)
    note f = tally_parts [OF t w_req_timeout(1)] and so = src_only_fields [OF w_req_timeout(4)]
    have look: "pending_find (m_pending m) (f_wait_req_id f) = Some p"
      by (rule pending_find_entry [OF f(2)]) (use f(1,4) w_req_timeout(3) in \<open>simp add: exact_def\<close>)
    have "parked_request f"
      using wf [OF w_req_timeout(1)] w_req_timeout(3) by (auto simp: fiber_wf_def parked_defs split: if_splits)
    then have "exact (m_pending (drop_pending (f_wait_req_id f) m)) (switched f1)"
      using f(4) so entries_of_remove [OF look, of p]
      by (intro exact_switched [OF f(1), where n = 1])
        (auto simp: parked_defs is_After_wait_reply_def is_After_request_def)
    from tally_fiber [OF t book_ok_drop [OF f(3)] _ _ this _ _ disjI2 [OF w_req_timeout(6)]] show ?thesis
      using f(4,5) so exact_remove_other [OF _ f(2) look] by simp
  next
    case (w_start f)
    have "entries_of (m_pending m) (m_next_fptr m) = 0"
      using t by (intro entries_of_none) (auto simp: tally_def book_ok_def)
    then have "exact (m_pending m) f" using w_start(2,3) by (simp add: exact_def fresh_fiber_def)
    then show ?thesis
      unfolding tally_private(2) [OF w_start(6)]
      using t by (auto simp: tally_def book_ok_def ids_ok_def ids_def)
  qed
qed

text \<open>Issuing an id for the fiber \<open>p\<close> and entering it.\<close>

lemma tally_issue:
  assumes t: "tally m" and f: "get_fiber m p = Some f" and life: "life_running m p" and "all_ok (m_env m)"
    and nx: "m_next_req_id m < 2 ^ 32" and rid: "rid = of_nat (m_next_req_id m)"
    and g: "f_self g = p" "f_rq g = f_rq f" "\<not> f_waiting_any g"
      "f_async_outstanding g + (if f_waiting_reply g then 1 else 0) = f_async_outstanding f + 1"
      "f_waiting_reply g \<Longrightarrow> f_wait_req_id g = rid"
    and m': "m_private m' = m_private (put_fiber g
      (pending_add (m\<lparr>m_next_req_id := m_next_req_id m + 1\<rparr>) rid p))"
  shows "tally m'"
proof -
  let ?x = "pending_add (m\<lparr>m_next_req_id := m_next_req_id m + 1\<rparr>) rid p"
  note fp = tally_parts [OF t f]
  have "\<not> f_waiting_reply f" using life_running_fiber(2) [OF life f] by (simp add: no_wait_def)
  moreover from assms(4) have ps: "m_pending ?x = \<lparr>p_req_id = rid, p_f = p\<rparr> # m_pending m"
    by (simp add: pending_add_pending all_ok_def)
  then have others: "exact (m_pending m) h \<Longrightarrow> f_self h \<noteq> p \<Longrightarrow> exact (m_pending ?x) h" for h
    by (metis exact_add_other)
  ultimately have "exact (m_pending ?x) g" using fp(1,4) g ps by (simp add: exact_def)
  moreover have "p < m_next_fptr m"
    using life fp(5) by (auto simp: life_running_def addr_ok_def selves_def)
  then have "book_ok ?x" unfolding rid by (rule book_ok_add [OF fp(3) nx])
  ultimately show ?thesis
    by (intro tally_fiber [OF t _ g(1) _ _ _ _ disjI1 [OF m']])
      (use fp(5) others in \<open>simp_all\<close>)
qed

lemma tally_run_fiber:
  assumes "tally m" and "get_fiber m p = Some f" and "exact (m_pending m) f \<Longrightarrow> exact (m_pending m) g"
    and "f_self g = f_self f" and "m_private m' = m_private (put_fiber g m)"
  shows "tally m'"
  by (rule tally_fiber [OF assms(1) tally_parts(3) [OF assms(1,2)] _ tally_parts(5) [OF assms(1,2)] _ refl _
        disjI1 [OF assms(5)]])
    (use assms tally_parts(1,4) [OF assms(1,2)] in simp_all)

lemma tally_continues:
  assumes t: "\<not> wrapped m \<Longrightarrow> tally m" and life: "life_running m p" and f: "get_fiber m p = Some f"
    and st: "continues m f prog m' prog'" and ok: "all_ok (m_env m)" and w: "\<not> wrapped m'"
  shows "tally m'"
  using st
proof (cases rule: continues.cases)
  case c_plain
  from c_plain(2) show ?thesis
  proof (cases rule: plain_change.cases)
    case pc_same
    with t w tally_private(2) acct_private(5) show ?thesis by blast
  next
    case pc_id
    have "\<not> wrapped m" using w acct_private(5) [OF pc_id] by (simp add: wrapped_def)
    then show ?thesis
      unfolding tally_private(2) [OF pc_id] using t book_ok_next by (simp add: tally_def)
  next
    case (pc_clients ncs)
    show ?thesis unfolding tally_private(2) [OF pc_clients]
      using t w acct_private(5) [OF pc_clients] by (simp add: tally_def)
  next
    case pc_lock
    show ?thesis unfolding tally_private(2) [OF pc_lock]
      using t w acct_private(5) [OF pc_lock] by (simp add: tally_def)
  next
    case pc_unlock
    show ?thesis unfolding tally_private(2) [OF pc_unlock]
      using t w acct_private(5) [OF pc_unlock] by (simp add: tally_def)
  qed
next
  case (c_async rid mi si msg n k)
  have nx: "m_next_req_id m < 2 ^ 32" using w acct_private(5) [OF c_async(4)] by simp
  then have t: "tally m" using t by (simp add: wrapped_def)
  have self: "f_self f = p" by (rule get_fiber_self [OF f])
  show ?thesis
    by (rule tally_issue [OF t f life ok nx c_async(3)])
      (use c_async(4) self life_running_fiber(2) [OF life f] in \<open>simp_all add: no_wait_def\<close>)
next
  case (c_wait_none kw)
  with t w tally_private(2) acct_private(5) show ?thesis by blast
next
  case (c_wait_some rr rest f1 kw)
  have t: "tally m" using t w acct_private(5) [OF c_wait_some(5)] by simp
  show ?thesis
    by (rule tally_run_fiber [OF t f _ _ c_wait_some(5)])
      (use c_wait_some(3) src_only_fields [OF c_wait_some(4)] life_running_fiber(2) [OF life f]
        in \<open>auto simp: exact_def no_wait_def\<close>)
qed

lemma tally_yields:
  assumes t: "\<not> wrapped m \<Longrightarrow> tally m" and life: "life_running m p" and f: "get_fiber m p = Some f"
    and st: "yields m f prog m'" and ok: "all_ok (m_env m)" and w: "\<not> wrapped m'"
  shows "tally m'"
proof -
  note nw = life_running_fiber(2) [OF life f]
  have self: "f_self f = p" by (rule get_fiber_self [OF f])
  from st show ?thesis
  proof (cases rule: yields.cases)
    case y_return
    have t: "tally m" using t w acct_private(5) [OF y_return(2)] by simp
    show ?thesis
      by (rule tally_run_fiber [OF t f _ _ y_return(2)]) (simp_all add: exact_def)
  next
    case (y_request rid k mi si msg n)
    have nx: "m_next_req_id m < 2 ^ 32" using w acct_private(5) [OF y_request(3)] by simp
    then have t: "tally m" using t by (simp add: wrapped_def)
    show ?thesis
      by (rule tally_issue [OF t f life ok nx y_request(2)]) (use y_request(3) self nw in \<open>simp_all add: no_wait_def\<close>)
  next
    case (y_request_timeout rid k d mi si msg n ms)
    have nx: "m_next_req_id m < 2 ^ 32" using w acct_private(5) [OF y_request_timeout(3)] by simp
    then have t: "tally m" using t by (simp add: wrapped_def)
    show ?thesis
      by (rule tally_issue [OF t f life ok nx y_request_timeout(2)])
        (use y_request_timeout(3) self nw in \<open>simp_all add: no_wait_def\<close>)
  next
    case (y_wait_reply kw)
    have t: "tally m" using t w acct_private(5) [OF y_wait_reply(4)] by simp
    show ?thesis
      by (rule tally_run_fiber [OF t f _ _ y_wait_reply(4)]) (use y_wait_reply(2,3) nw in \<open>auto simp: exact_def no_wait_def\<close>)
  next
    case (y_wait_timeout q d ms)
    have t: "tally m" using t w acct_private(5) [OF y_wait_timeout(2)] by simp
    show ?thesis
      by (rule tally_run_fiber [OF t f _ _ y_wait_timeout(2)]) (use nw in \<open>auto simp: exact_def no_wait_def\<close>)
  qed
qed

section \<open>The invariant\<close>

definition Tally :: "module_t \<Rightarrow> bool" where
  "Tally m \<longleftrightarrow> life_idle m \<and> (\<not> wrapped m \<and> all_ok (m_env m) \<longrightarrow> tally m)"

definition Tally_running :: "module_t \<Rightarrow> fptr \<Rightarrow> bool" where
  "Tally_running m p \<longleftrightarrow> life_running m p \<and> (\<not> wrapped m \<and> all_ok (m_env m) \<longrightarrow> tally m)"

lemma tally_current: "tally (m\<lparr>m_current := q\<rparr>) = tally m"
  by (simp add: tally_def)

interpretation tallies: module_invariant Tally "\<lambda>m p prog. Tally_running m p" dangling False
proof unfold_locales
  show "Tally m'" if "Tally m" "quiet m m'" "lib_ok (m_env m') = lib_ok (m_env m)" for m m'
    using that life_quiet wrapped_quiet [OF that(2)] tally_quiet [OF _ that(2)]
    unfolding Tally_def all_ok_def by metis
  show "Tally_running m' p" if "Tally m" "wakes m p m' prog" "lib_ok (m_env m') = lib_ok (m_env m)" for m p m' prog
    using that life_wakes wrapped_wakes [OF that(2)] tally_wakes [OF _ _ that(2)]
    unfolding Tally_def Tally_running_def all_ok_def by metis
  show "Tally_running m' p" if "Tally_running m p" "get_fiber m p = Some f" "continues m f prog m' prog'"
    "lib_ok (m_env m') = lib_ok (m_env m)" for m p f prog m' prog'
    using that(1,4) life_continues [OF _ that(2,3)] tally_continues [OF _ _ that(2,3)]
    unfolding Tally_running_def all_ok_def by metis
  show "Tally (m'\<lparr>m_current := None\<rparr>)" if "Tally_running m p" "get_fiber m p = Some f" "yields m f prog m'"
    "lib_ok (m_env m') = lib_ok (m_env m)" for m p f prog m'
  proof -
    have "life_idle (m'\<lparr>m_current := None\<rparr>)"
      using life_yields [OF _ that(2,3)] that(1) by (simp add: Tally_running_def)
    moreover have "tally m'" if "\<not> wrapped m'" "all_ok (m_env m')"
      by (rule tally_yields [OF _ _ \<open>get_fiber m p = Some f\<close> \<open>yields m f prog m'\<close>])
        (use that \<open>Tally_running m p\<close> \<open>lib_ok (m_env m') = lib_ok (m_env m)\<close> in
          \<open>auto simp: Tally_running_def all_ok_def\<close>)
    ultimately show ?thesis by (simp add: Tally_def tally_current)
  qed
  show "get_fiber m p \<noteq> None" if "Tally_running m p" for m p
    using that life.running_live by (simp add: Tally_running_def)
  show "dangling m" if "Tally m" "pending_find (m_pending m) r = Some p" "get_fiber m p = None" for m r p
    using that(2,3) by (rule pending_find_dangling)
  show "f_ctx f \<noteq> Finished" if "Tally m" "get_fiber m p = Some f"
    "f_waiting_timer f \<or> f_waiting_reply f \<or> f_waiting_any f" for m p f
    using that life.waiting_entry by (auto simp: Tally_def)
  show "unat (m_nr_seq m) \<le> length (m_seqs m)" if "Tally m" for m
    using that life.in_table by (simp add: Tally_def)
  show "m_next_fptr m \<notin> f_self ` set (m_fibers m)" if "Tally m" for m
    using that life.fresh_addr by (simp add: Tally_def)
  show "Tally (reap_done m)" if "Tally m" for m
    using that life_reap [of m]
    by (auto simp: Tally_def tally_def book_ok_def ids_ok_def ids_def wrapped_def reap_done_def)
  show "life_idle m" if "Tally m" for m
    using that by (simp add: Tally_def)
qed simp_all

section \<open>Every reachable state\<close>

lemma reachable_tally:
  assumes "reachable tbl c" and "table_wf tbl" and "valid_mod c i"
  shows "Tally (get_mod c i)"
proof -
  have "Tally zero_module"
    using life_zero by (simp add: Tally_def tally_def book_ok_def ids_ok_def ids_def zero_module_def)
  moreover have "Tally (booted i (tbl ! i) en)" if "i < length tbl" for i en
    using life_booted [OF assms(2) that] by (simp add: Tally_def tally_def book_ok_def ids_ok_def ids_def booted_fields)
  ultimately show ?thesis
    using tallies.reachable_inv [OF assms(1)] assms(3) by (simp add: tallies.sys_inv_def)
qed

lemma turn_alive:
  assumes "sched_iter i c = ok (b, c')" and "valid_mod c' i" and "valid_mod c i" and "\<forall>f \<in> set (m_fibers (get_mod c i)). \<not> f_done f"
    and "f \<in> set (m_fibers (get_mod c' i))"
  shows "\<not> f_done f"
proof (cases b)
  case True
  with turn_reaps assms show ?thesis by simp
next
  case False
  then have "c' = set_mod i (sched_splice (get_mod c i)) c"
    using assms(1) by (auto simp: sched_iter_def sched_turn_def Let_def split_def obind_eq_ok split: if_splits)
  then show ?thesis using assms(3-5) by (simp add: sched_splice_def split: if_splits)
qed

lemma reachable_alive:
  assumes "reachable tbl c" and "table_wf tbl"
  shows "\<forall>i. valid_mod c i \<longrightarrow> (\<forall>f \<in> set (m_fibers (get_mod c i)). \<not> f_done f)"
  using assms(1)
proof induction
  case (start nr envs en c en')
  note ok = coseq_setup_ok [OF start fresh_ctx_simps(1)]
  show ?case using ok(2,4) start(2) by (simp add: booted_fields zero_module_def)
next
  case (more c c')
  note nr = reachable_life(1) [OF more(1) assms(2)]
  have grown: ?case if g: "all_grow c c'"
  proof -
    have "m_fibers (get_mod c' i) = m_fibers (get_mod c i)" for i using all_grow_keeps(8) [OF g] .
    moreover have "length (modules c') = length (modules c)" using g by (simp add: all_grow_def)
    ultimately show ?thesis using more.IH by simp
  qed
  from more(2) show ?case
  proof (cases rule: sys_step.cases)
    case (turn i evs late b c1)
    have st: "step_frame i c c'"
      unfolding turn(1) by (rule life.turn_spec(1) [OF reachable_life(2) [OF more(1) assms(2) turn(2)] nr turn(2,5)])
    have len: "length (modules c') = length (modules c)" by (rule step_frame_length [OF st])
    show ?thesis
    proof (intro allI impI)
      fix j
      assume v: "valid_mod c' j"
      show "\<forall>f \<in> set (m_fibers (get_mod c' j)). \<not> f_done f"
      proof (cases "j = i")
        case True
        have "length (modules c1) = length (modules c)" using len turn(1) by (simp add: set_inbox_def)
        then show ?thesis
          using turn_alive [OF turn(5), of _] more.IH turn(2) True unfolding turn(1) by (simp add: set_inbox_def)
      next
        case False
        then obtain evs where "get_mod c' j = (get_mod c j)\<lparr>m_inbox := m_inbox (get_mod c j) @ evs\<rparr>"
          using st unfolding step_frame_def others_grow_def inbox_grows_def by blast
        then show ?thesis using more.IH v len by simp
      qed
    qed
  next
    case (sync_begin mi si msg n en rid en')
    from grown [OF request_sync_begin_grows [OF nr sync_begin(1)]] show ?thesis .
  next
    case (sync_end t rid mi si en t' en')
    from grown [OF request_sync_end_grows [OF sync_end(2)]] show ?thesis .
  next
    case (async mi si msg n en en')
    from grown [OF request_async_grows [OF nr async(1)]] show ?thesis .
  qed
qed

section \<open>Who waits for whom\<close>

text \<open>The thread of every module sleeps without limit at the top of its loop.\<close>

definition standstill :: "coseq_ctx_private \<Rightarrow> bool" where
  "standstill c \<longleftrightarrow> (\<forall>j. int j < nr_module c \<longrightarrow> sched_wait (sched_splice (get_mod c j)) = Cond_wait)"

text \<open>The fiber can only go on when the reply to this request comes, or that of another it waits for.\<close>

definition blocked_on :: "module_t \<Rightarrow> fiber_t \<Rightarrow> u32 \<Rightarrow> bool" where
  "blocked_on m f s \<longleftrightarrow> \<lparr>p_req_id = s, p_f = f_self f\<rparr> \<in> set (m_pending m) \<and>
     (f_waiting_any f \<or> f_waiting_reply f \<and> f_wait_req_id f = s)"

definition holder_on :: "module_t \<Rightarrow> u32 \<Rightarrow> bool" where
  "holder_on m s \<longleftrightarrow> (\<exists>h \<in> set (m_fibers m). m_locked_by m = Some (f_self h) \<and> blocked_on m h s)"

text \<open>
  A request waits for another one: the fiber that is to reply to it is blocked on the other or,
  its timer held up by the module lock, waits for the holder of the lock, who is; or the event
  that starts the sequence asked, or the reply, is set aside until the holder of the lock, who is
  blocked on the other, gives it back.
\<close>

definition waits :: "coseq_ctx_private \<Rightarrow> ((nat \<times> u32) \<times> (nat \<times> u32)) set" where
  "waits c = {((i, r), (j, s)). int j < nr_module c \<and>
     ((\<exists>f \<in> set (m_fibers (get_mod c j)). f_reply_to f = int i \<and> f_reply_req_id f = r \<and>
         (blocked_on (get_mod c j) f s \<or> f_waiting_timer f \<and> holder_on (get_mod c j) s)) \<or>
      (\<exists>e \<in> set (m_deferred (get_mod c j)). e_type e = EV_START \<and> e_requester e = int i \<and> e_req_id e = r) \<and>
         holder_on (get_mod c j) s \<or>
      i = j \<and> (\<exists>e \<in> set (m_deferred (get_mod c j)). e_type e = EV_REPLY \<and> e_req_id e = r) \<and>
         holder_on (get_mod c j) s)}"

definition requests :: "coseq_ctx_private \<Rightarrow> (nat \<times> u32) set" where
  "requests c = {(j, s). int j < nr_module c \<and> s \<in> ids (get_mod c j)}"

lemma blocked_ids: "blocked_on m f s \<Longrightarrow> s \<in> ids m"
  by (force simp: blocked_on_def ids_def)

lemma holder_ids: "holder_on m s \<Longrightarrow> s \<in> ids m"
  using blocked_ids by (auto simp: holder_on_def)

lemma waits_requests: "(x, y) \<in> waits c \<Longrightarrow> y \<in> requests c"
  by (auto simp: waits_def requests_def blocked_ids holder_ids)

lemma finite_requests: "finite (requests c)"
proof (rule finite_subset)
  show "requests c \<subseteq> {..< nat (nr_module c)} \<times> UNIV" by (auto simp: requests_def)
qed simp

text \<open>A fiber that waits for a reply has an entry for it.\<close>

lemma exact_blocked:
  assumes "exact (m_pending m) f" and "f_waiting_reply f \<or> f_waiting_any f"
  obtains s where "blocked_on m f s"
proof (cases "f_waiting_reply f")
  case True
  with assms(1) that show ?thesis by (auto simp: exact_def blocked_on_def)
next
  case False
  with assms have "entries_of (m_pending m) (f_self f) \<noteq> 0" and any: "f_waiting_any f" by (auto simp: exact_def)
  then obtain e where "e \<in> set (m_pending m)" "p_f e = f_self f" using entries_of_some by blast
  moreover have "e = \<lparr>p_req_id = p_req_id e, p_f = p_f e\<rparr>" by simp
  ultimately have "blocked_on m f (p_req_id e)" using any unfolding blocked_on_def by metis
  then show ?thesis by (rule that)
qed

text \<open>A module asleep.\<close>

definition asleep :: "module_t \<Rightarrow> bool" where
  "asleep m \<longleftrightarrow> sched_wait (sched_splice m) = Cond_wait"

lemma asleep_parts:
  assumes "asleep m"
  shows "m_inbox m = []" "m_deferred m = [] \<or> m_locked_by m \<noteq> None"
    "f \<in> set (m_fibers m) \<Longrightarrow> f_waiting_timer f \<Longrightarrow> m_locked_by m \<noteq> None \<and> m_locked_by m \<noteq> Some (f_self f)"
proof -
  have w: "case sched_wait (sched_splice m) of No_wait \<Rightarrow> True | Cond_wait \<Rightarrow> m_inbox (sched_splice m) = [] \<and>
      (\<forall>f \<in> set (m_fibers (sched_splice m)). \<not> timer_eligible (sched_splice m) f) | Timed_wait t \<Rightarrow> True"
    by (auto simp: sched_wait_def nearest_deadline_def nearest_from_None split: wait_kind.split option.split if_splits)
  then have i: "m_inbox (sched_splice m) = []"
    and t: "\<forall>f \<in> set (m_fibers (sched_splice m)). \<not> timer_eligible (sched_splice m) f"
    using assms by (simp_all add: asleep_def)
  from i show "m_inbox m = []" "m_deferred m = [] \<or> m_locked_by m \<noteq> None"
    by (auto simp: sched_splice_def split: if_splits)
  show "m_locked_by m \<noteq> None \<and> m_locked_by m \<noteq> Some (f_self f)" if "f \<in> set (m_fibers m)" "f_waiting_timer f"
    using t that by (auto simp: sched_splice_def timer_eligible_def split: if_splits)
qed

lemma asleep_holder:
  assumes "asleep m" and "life_idle m" and "\<forall>f \<in> set (m_fibers m). \<not> f_done f"
    and "\<forall>f \<in> set (m_fibers m). exact (m_pending m) f" and "m_locked_by m \<noteq> None"
  obtains s where "holder_on m s"
proof -
  obtain h where h: "h \<in> set (m_fibers m)" "m_locked_by m = Some (f_self h)"
    using assms(2,5) by (auto simp: life_idle_def lock_ok_def selves_def)
  have "\<not> f_waiting_timer h" using asleep_parts(3) [OF assms(1) h(1)] h(2) by blast
  moreover have "fiber_wf h" "\<not> f_done h" using assms(2,3) h(1) by (simp_all add: life_idle_def)
  ultimately have "f_waiting_reply h \<or> f_waiting_any h" by (auto simp: fiber_wf_def parked_defs)
  then obtain s where "blocked_on m h s" using exact_blocked assms(4) h(1) by blast
  with h show ?thesis by (intro that) (auto simp: holder_on_def)
qed

text \<open>At a standstill every outstanding request waits for an outstanding request.\<close>

definition settled_in :: "coseq_ctx_private \<Rightarrow> bool" where
  "settled_in c \<longleftrightarrow> (\<forall>j. int j < nr_module c \<longrightarrow> asleep (get_mod c j) \<and> life_idle (get_mod c j) \<and>
     (\<forall>f \<in> set (m_fibers (get_mod c j)). \<not> f_done f \<and> exact (m_pending (get_mod c j)) f))"

lemma next_wait:
  assumes "settled_in c" and "(i, r) \<in> requests c" and "(int i, r) \<in> carried c k None []"
  obtains y where "((i, r), y) \<in> waits c"
proof -
  have i: "int i < nr_module c" using assms(2) by (simp add: requests_def)
  have idle: "asleep (get_mod c j)" "life_idle (get_mod c j)" "\<forall>f \<in> set (m_fibers (get_mod c j)). \<not> f_done f"
    "\<forall>f \<in> set (m_fibers (get_mod c j)). exact (m_pending (get_mod c j)) f" if "int j < nr_module c" for j
    using assms(1) that by (simp_all add: settled_in_def)
  have held: "e \<in> set (m_deferred (get_mod c j)) \<and> (\<exists>s. holder_on (get_mod c j) s)"
    if j: "int j < nr_module c" and e: "e \<in> set (m_inbox (get_mod c j) @ m_deferred (get_mod c j))" for j e
  proof -
    have d: "e \<in> set (m_deferred (get_mod c j))" "m_locked_by (get_mod c j) \<noteq> None"
      using asleep_parts(1,2) [OF idle(1) [OF j]] e by auto
    show ?thesis by (rule asleep_holder [OF idle [OF j] d(2)]) (use d(1) in blast)
  qed
  from assms(3) show ?thesis
  proof (rule carried_cases)
    fix j e
    assume j: "int j < nr_module c" and e: "e \<in> set (m_inbox (get_mod c j) @ m_deferred (get_mod c j))"
      and ev: "e_type e = EV_START" "e_requester e = int i" "e_req_id e = r"
    obtain s where "e \<in> set (m_deferred (get_mod c j))" "holder_on (get_mod c j) s" using held [OF j e] by blast
    with j ev show ?thesis by (intro that [of "(j, s)"]) (auto simp: waits_def)
  next
    fix e
    assume e: "e \<in> set (m_inbox (get_mod c i) @ m_deferred (get_mod c i))" and ev: "e_type e = EV_REPLY" "e_req_id e = r"
    obtain s where "e \<in> set (m_deferred (get_mod c i))" "holder_on (get_mod c i) s" using held [OF i e] by blast
    with i ev show ?thesis by (intro that [of "(i, s)"]) (auto simp: waits_def)
  next
    fix j f
    assume j: "int j < nr_module c" and f: "f \<in> set (m_fibers (get_mod c j))"
      and to: "f_reply_to f = int i" "f_reply_req_id f = r"
    note id = idle [OF j]
    have "\<exists>s. blocked_on (get_mod c j) f s \<or> f_waiting_timer f \<and> holder_on (get_mod c j) s"
    proof (cases "f_waiting_reply f \<or> f_waiting_any f")
      case True
      show ?thesis by (rule exact_blocked [OF _ True, of "get_mod c j"]) (use id(4) f in blast)+
    next
      case False
      have "fiber_wf f" "\<not> f_done f" using id(2,3) f by (simp_all add: life_idle_def)
      with False have t: "f_waiting_timer f" by (auto simp: fiber_wf_def parked_defs)
      then have "m_locked_by (get_mod c j) \<noteq> None" using asleep_parts(3) [OF id(1) f] by blast
      from asleep_holder [OF id this] t show ?thesis by blast
    qed
    then obtain s where "blocked_on (get_mod c j) f s \<or> f_waiting_timer f \<and> holder_on (get_mod c j) s" ..
    with j f to show ?thesis by (intro that [of "(j, s)"]) (auto simp: waits_def)
  qed
qed

text \<open>Following the waits from a request leads into a circle.\<close>

lemma endless_circle:
  assumes "finite S" and "x \<in> S" and "\<And>y. y \<in> S \<Longrightarrow> \<exists>z \<in> S. (y, z) \<in> R"
  obtains y where "y \<in> S" "(x, y) \<in> R\<^sup>*" "(y, y) \<in> R\<^sup>+"
proof -
  let ?S = "{y \<in> S. (x, y) \<in> R\<^sup>*}"
  let ?R = "R \<inter> ?S \<times> ?S"
  have "\<not> acyclic ?R"
  proof
    assume "acyclic ?R"
    moreover have "finite ?R" by (rule finite_subset [of _ "?S \<times> ?S"]) (use assms(1) in auto)
    ultimately have "wf (?R\<inverse>)" by (intro finite_acyclic_wf_converse)
    moreover have "x \<in> ?S" using assms(2) by simp
    ultimately have "\<exists>y \<in> ?S. \<forall>z. (z, y) \<in> ?R\<inverse> \<longrightarrow> z \<notin> ?S"
      unfolding wf_eq_minimal by (elim allE impE) assumption+
    then obtain y where y: "y \<in> ?S" "\<forall>z. (z, y) \<in> ?R\<inverse> \<longrightarrow> z \<notin> ?S" by blast
    then obtain z where "z \<in> S" "(y, z) \<in> R" using assms(3) by blast
    then have "z \<in> ?S" "(z, y) \<in> ?R\<inverse>" using y(1) by (auto intro: rtrancl_into_rtrancl)
    with y(2) show False by blast
  qed
  then obtain y where y: "(y, y) \<in> ?R\<^sup>+" by (auto simp: acyclic_def)
  then have "(y, y) \<in> R\<^sup>+" using trancl_mono [OF y] by blast
  moreover have "y \<in> ?S" using y by (induction) auto
  ultimately show ?thesis using that by blast
qed

lemma reachable_settled:
  assumes "reachable tbl c" and "table_wf tbl" and "honest_table (Some (directory tbl)) tbl" and "answering_table tbl"
    and "\<forall>j < length tbl. all_ok (m_env (get_mod c j)) \<and> m_next_req_id (get_mod c j) \<le> 2 ^ 32"
    and "standstill c"
  shows "settled_in c" "requests c = {(i, r). (int i, r) \<in> outstanding c}" "outstanding c \<subseteq> carried c 0 None []"
    "nr_module c = int (length tbl)"
proof -
  note r = reachable_causal [OF assms(1-4)]
  show nr: "nr_module c = int (length tbl)" using r by simp
  have "calm c" "\<not> ids_wrapped c" using assms(5) by (auto simp: calm_def ids_wrapped_def nr not_less)
  then show "outstanding c \<subseteq> carried c 0 None []" using r by (simp add: safe_def)
  show "requests c = {(i, r). (int i, r) \<in> outstanding c}" by (auto simp: requests_def outstanding_def)
  have "nr_ok c" "length (modules c) = MAX_MODULE"
    using reachable_bufs [OF assms(1,3)] by (simp_all add: bufs_def)
  then have v: "valid_mod c j" if "int j < nr_module c" for j using that by (simp add: nr_ok_def)
  show "settled_in c"
    unfolding settled_in_def
  proof (intro allI impI)
    fix j
    assume j: "int j < nr_module c"
    have "Tally (get_mod c j)" by (rule reachable_tally [OF assms(1,2) v [OF j]])
    moreover have "all_ok (m_env (get_mod c j))" "\<not> wrapped (get_mod c j)"
      using assms(5) j nr by (auto simp: wrapped_def not_less)
    ultimately show "asleep (get_mod c j) \<and> life_idle (get_mod c j) \<and>
        (\<forall>f \<in> set (m_fibers (get_mod c j)). \<not> f_done f \<and> exact (m_pending (get_mod c j)) f)"
      using assms(6) j reachable_alive [OF assms(1,2)] v [OF j]
      by (simp add: Tally_def tally_def standstill_def asleep_def)
  qed
qed

lemma standstill_circle:
  assumes "reachable tbl c" and "table_wf tbl" and "honest_table (Some (directory tbl)) tbl" and "answering_table tbl"
    and "\<forall>j < length tbl. all_ok (m_env (get_mod c j)) \<and> m_next_req_id (get_mod c j) \<le> 2 ^ 32"
    and "standstill c" and "i < length tbl" and "q \<in> set (m_pending (get_mod c i))"
  obtains y where "y \<in> requests c" "((i, p_req_id q), y) \<in> (waits c)\<^sup>*" "(y, y) \<in> (waits c)\<^sup>+"
proof -
  note st = reachable_settled [OF assms(1-6)]
  have "(i, p_req_id q) \<in> requests c" using assms(7,8) st(4) by (simp add: requests_def ids_def)
  moreover have "\<exists>z \<in> requests c. (y, z) \<in> waits c" if "y \<in> requests c" for y
  proof -
    obtain i r where y: "y = (i, r)" by (cases y)
    have "(int i, r) \<in> carried c 0 None []" using that st(2,3) y by auto
    from next_wait [OF st(1) that [unfolded y] this] obtain z where "(y, z) \<in> waits c" unfolding y by blast
    then show ?thesis using waits_requests by blast
  qed
  ultimately show ?thesis
    using endless_circle [OF finite_requests, of "(i, p_req_id q)" c "waits c"] that by metis
qed

text \<open>
  C4: Deadlock is circular waiting. Let the sequences of the table address sequences that exist, pass
  buffers that hold what they say, and reply before they return, and let no allocation fail. If in a
  reachable state, before a module has given out \<open>2\<^sup>3\<^sup>2\<close> ids, the threads of all modules sleep without
  limit while a request is outstanding, then following what it waits for leads to a circle of outstanding
  requests each of which can only be answered after the next: no other standstill is possible.
\<close>

theorem standstill_is_circular:
  assumes "reachable tbl c" and "table_wf tbl" and "honest_table (Some (directory tbl)) tbl" and "answering_table tbl"
    and "\<forall>j < length tbl. all_ok (m_env (get_mod c j)) \<and> m_next_req_id (get_mod c j) \<le> 2 ^ 32"
    and "standstill c" and "i < length tbl" and "q \<in> set (m_pending (get_mod c i))"
  shows "\<exists>j s. j < length tbl \<and> s \<in> p_req_id ` set (m_pending (get_mod c j)) \<and>
    ((i, p_req_id q), (j, s)) \<in> (waits c)\<^sup>* \<and> ((j, s), (j, s)) \<in> (waits c)\<^sup>+"
proof -
  obtain y where y: "y \<in> requests c" "((i, p_req_id q), y) \<in> (waits c)\<^sup>*" "(y, y) \<in> (waits c)\<^sup>+"
    by (rule standstill_circle [OF assms])
  have "nr_module c = int (length tbl)" using reachable_causal [OF assms(1-4)] by simp
  with y show ?thesis by (cases y) (auto simp: requests_def ids_def)
qed

end
