(* ===== verification/CoseqChain.thy ===== *)
theory CoseqChain
  imports CoseqScenario CoseqBuffers
begin

text \<open>
  The chain of the sample through all three modules, evaluated turn by turn: \<open>A_CHAIN\<close> locks module A
  and requests \<open>B_CHAIN\<close>, which requests \<open>C_WORK\<close>, which waits for a timer of 100 ms; the replies travel
  back, the lock is released, and the external caller gets its answer.
\<close>

section \<open>The surroundings\<close>

text \<open>Module C has a clock; the clocks of the others are not looked at.\<close>

definition ticking :: "(nat \<Rightarrow> timespec) \<Rightarrow> env" where
  "ticking clk = no_env\<lparr>clock := \<lambda>n. Some (clk n)\<rparr>"

definition chain_envs :: "(nat \<Rightarrow> timespec) \<Rightarrow> nat \<Rightarrow> env" where
  "chain_envs clk i = (if i = 2 then ticking clk else no_env)"

text \<open>A sequence of turns, each of the module named, in which no thread ends.\<close>

fun turns :: "nat list \<Rightarrow> coseq_ctx_private \<Rightarrow> coseq_ctx_private option" where
  "turns [] c = Some c"
| "turns (i # is) c = (case sched_iter i c of Some (Inr (True, c')) \<Rightarrow> turns is c' | _ \<Rightarrow> None)"

lemma turns_ok: "sched_iter i c = ok (True, c') \<Longrightarrow> turns (i # is) c = turns is c'"
  by (simp add: ok_def)

section \<open>The modules between the turns\<close>

definition parked :: "u8 \<Rightarrow> string \<Rightarrow> int \<Rightarrow> u32 \<Rightarrow> seq_prog \<Rightarrow> ucontext_t \<Rightarrow> fiber_t" where
  "parked s nm q r fn k = \<lparr>f_self = 0, f_ctx = k, f_fn = fn, f_seq_idx = s, f_seq_name = Some nm, f_reply_to = q,
     f_reply_req_id = r, f_src = \<lparr>s_thread_idx = word_of_int q, s_seq_idx = s, s_req_id = r,
       s_result = COSEQ_RSLT_IGNORE, s_client_id = 0, s_msg = []\<rparr>,
     f_src_buf = [], f_src_cap = 0, f_waiting_reply = False, f_wait_req_id = 0, f_waiting_timer = False,
     f_deadline = Timespec 0 0, f_waiting_any = False, f_async_outstanding = 0, f_rq = [], f_done = False\<rparr>"

definition mod_a :: "ev_t list \<Rightarrow> module_t" where
  "mod_a evs = (booted 0 (sample_tbl ! 0) no_env)\<lparr>m_inbox := evs\<rparr>"

definition mod_b :: "ev_t list \<Rightarrow> module_t" where
  "mod_b evs = (booted 1 (sample_tbl ! 1) no_env)\<lparr>m_inbox := evs\<rparr>"

definition mod_c :: "(nat \<Rightarrow> timespec) \<Rightarrow> ev_t list \<Rightarrow> module_t" where
  "mod_c clk evs = (booted 2 (sample_tbl ! 2) (ticking clk))\<lparr>m_inbox := evs\<rparr>"

text \<open>Each module while its fiber waits.\<close>

definition wait_a :: "u32 \<Rightarrow> ev_t list \<Rightarrow> module_t" where
  "wait_a rid evs = (booted 0 (sample_tbl ! 0) (env_at 5 1))\<lparr>m_inbox := evs,
     m_fibers := [(parked A_CHAIN ''chain'' EXTERNAL rid a_chain
       (After_request (\<lambda>r. Unlock (put_text (chain_got (s_result r)) (Reply COSEQ_RSLT_SUCCESS None 0 Return)))))\<lparr>f_waiting_reply := True, f_wait_req_id := 1\<rparr>],
     m_pending := [\<lparr>p_req_id = 1, p_f = 0\<rparr>], m_next_req_id := 2, m_locked_by := Some 0, m_next_fptr := 1\<rparr>"

definition wait_b :: "ev_t list \<Rightarrow> module_t" where
  "wait_b evs = (booted 1 (sample_tbl ! 1) (env_at 5 1))\<lparr>m_inbox := evs,
     m_fibers := [(parked B_CHAIN ''chain'' 0 1 b_chain
       (After_request (\<lambda>r. put_text (b_chain_got (s_result r)) (Reply COSEQ_RSLT_SUCCESS None 0 Return))))\<lparr>f_waiting_reply := True, f_wait_req_id := 1\<rparr>],
     m_pending := [\<lparr>p_req_id = 1, p_f = 0\<rparr>], m_next_req_id := 2, m_next_fptr := 1\<rparr>"

definition wait_c :: "(nat \<Rightarrow> timespec) \<Rightarrow> module_t" where
  "wait_c clk = (booted 2 (sample_tbl ! 2) ((ticking clk)\<lparr>lib_calls := 3, clock_reads := 2\<rparr>))\<lparr>
     m_fibers := [(parked C_WORK ''work'' 1 1 c_work
       (After_wait_timeout (Reply COSEQ_RSLT_SUCCESS None 0 Return)))\<lparr>f_waiting_timer := True,
         f_deadline := ts_add_ms (clk 1) 100\<rparr>],
     m_next_fptr := 1\<rparr>"

text \<open>Each module after its fiber has returned.\<close>

definition idle_a :: module_t where
  "idle_a = (booted 0 (sample_tbl ! 0) (env_at 5 2))\<lparr>m_next_req_id := 2, m_next_fptr := 1\<rparr>"

definition idle_b :: module_t where
  "idle_b = (booted 1 (sample_tbl ! 1) (env_at 6 2))\<lparr>m_next_req_id := 2, m_next_fptr := 1\<rparr>"

definition idle_c :: "(nat \<Rightarrow> timespec) \<Rightarrow> module_t" where
  "idle_c clk = (booted 2 (sample_tbl ! 2) ((ticking clk)\<lparr>lib_calls := 4, clock_reads := 3\<rparr>))\<lparr>m_next_fptr := 1\<rparr>"

text \<open>The instance with these three modules, and a caller that waits for \<open>rid\<close>.\<close>

definition trio :: "coseq_ctx_private \<Rightarrow> u32 \<Rightarrow> module_t \<Rightarrow> module_t \<Rightarrow> module_t \<Rightarrow> bool" where
  "trio c rid a b d \<longleftrightarrow> nr_module c = 3 \<and> length (modules c) = 32 \<and> ext_wait_rid c = rid \<and>
     get_mod c 0 = a \<and> get_mod c 1 = b \<and> get_mod c 2 = d"

lemma trio_elim:
  assumes "trio c rid a b d"
  shows "nr_module c = 3" "length (modules c) = 32" "ext_wait_rid c = rid"
    "get_mod c 0 = a" "get_mod c (Suc 0) = b" "get_mod c 2 = d"
  using assms by (simp_all add: trio_def)

lemmas chain_defs = sample_tables module_defs sample_ids parked_def ticking_def mod_a_def mod_b_def mod_c_def
  wait_a_def wait_b_def wait_c_def

section \<open>The turns\<close>

lemma turn_a:
  assumes "trio c rid (mod_a [event EV_START A_CHAIN rid EXTERNAL COSEQ_RSLT_IGNORE]) (mod_b []) d"
  shows "\<exists>c'. sched_iter 0 c = ok (True, c') \<and>
    trio c' rid (wait_a rid []) (mod_b [event EV_START B_CHAIN 1 0 COSEQ_RSLT_IGNORE]) d"
  by (simp add: trio_def trio_elim [OF assms] chain_defs a_chain_def eval_defs Let_def word_facts)

lemma turn_b:
  assumes "trio c rid a (mod_b [event EV_START B_CHAIN 1 0 COSEQ_RSLT_IGNORE]) (mod_c clk [])"
  shows "\<exists>c'. sched_iter 1 c = ok (True, c') \<and>
    trio c' rid a (wait_b []) (mod_c clk [event EV_START C_WORK 1 1 COSEQ_RSLT_IGNORE])"
  by (simp add: trio_def trio_elim [OF assms] chain_defs b_chain_def eval_defs Let_def word_facts)

lemma turn_c:
  assumes "trio c rid a b (mod_c clk [event EV_START C_WORK 1 1 COSEQ_RSLT_IGNORE])"
  shows "\<exists>c'. sched_iter 2 c = ok (True, c') \<and> trio c' rid a b (wait_c clk)"
  by (simp add: trio_def trio_elim [OF assms] chain_defs c_work_def eval_defs Let_def word_facts)

lemma turn_c_fires:
  assumes "trio c rid a (wait_b []) (wait_c clk)" and "\<not> ts_lt (clk 2) (ts_add_ms (clk 1) 100)"
  shows "\<exists>c'. sched_iter 2 c = ok (True, c') \<and>
    trio c' rid a (wait_b [event EV_REPLY 0 1 2 COSEQ_RSLT_SUCCESS]) (idle_c clk)"
  using assms(2)
  by (simp add: trio_def trio_elim [OF assms(1)] chain_defs idle_c_def c_work_def eval_defs Let_def word_facts)

lemma turn_b_answers:
  assumes "trio c rid (wait_a rid []) (wait_b [event EV_REPLY 0 1 2 COSEQ_RSLT_SUCCESS]) d"
  shows "\<exists>c'. sched_iter 1 c = ok (True, c') \<and>
    trio c' rid (wait_a rid [event EV_REPLY 0 1 1 COSEQ_RSLT_SUCCESS]) idle_b d"
  by (simp add: trio_def trio_elim [OF assms] chain_defs idle_b_def b_chain_def eval_defs Let_def word_facts)

lemma turn_a_answers:
  assumes "trio c rid (wait_a rid [event EV_REPLY 0 1 1 COSEQ_RSLT_SUCCESS]) b d"
  shows "\<exists>c'. sched_iter 0 c = ok (True, c') \<and> trio c' rid idle_a b d \<and>
    ext_ready c' \<and> ext_result c' = COSEQ_RSLT_SUCCESS \<and> ext_msg c' = None \<and> ext_size c' = 0"
  by (simp add: trio_def trio_elim [OF assms] chain_defs idle_a_def a_chain_def eval_defs Let_def word_facts)

section \<open>The whole chain\<close>

lemma chain_begins:
  assumes "coseq_setup fresh_ctx sample_tbl 3 (chain_envs clk) en = (True, c0, en0)"
    and "request_sync_begin c0 MOD_A A_CHAIN None 0 en1 = (rid, c1, en2)" and "all_ok en1"
  shows "trio c1 rid (mod_a [event EV_START A_CHAIN rid EXTERNAL COSEQ_RSLT_IGNORE]) (mod_b []) (mod_c clk [])"
proof -
  have l: "length sample_tbl = unat (3 :: u8)" by (simp add: sample_length)
  note ok = coseq_setup_ok [OF assms(1) l fresh_ctx_simps(1)]
  have m: "get_mod c0 0 = mod_a []" "get_mod c0 (Suc 0) = mod_b []" "get_mod c0 2 = mod_c clk []"
    by (simp_all add: ok(4) chain_envs_def mod_a_def mod_b_def mod_c_def booted_fields module_defs)
  have n: "nr_module c0 = 3" "length (modules c0) = 32" by (simp_all add: ok(1,2) MAX_MODULE_def)
  show ?thesis
    using assms(2,3) n m
    by (auto simp: request_sync_begin_def eval_defs Let_def all_ok_def trio_def event_def mod_a_def sample_ids)
qed

text \<open>
  C22: The chain of the sample comes back through all three modules. After setup, a thread that calls
  \<open>request_sync\<close> for \<open>A_CHAIN\<close> is answered after six turns: module A locks itself and asks B, B asks C, C
  sets a timer, and once 100 ms have passed on its clock C answers B, B answers A, and A unlocks
  itself and answers the caller, who gets \<open>SUCCESS\<close> for its own request. No fiber, event, outstanding
  request or lock is left behind.
\<close>

theorem sample_chain_answers:
  assumes "coseq_setup fresh_ctx sample_tbl 3 (chain_envs clk) en = (True, c0, en0)"
    and "request_sync_begin c0 MOD_A A_CHAIN None 0 en1 = (rid, c1, en2)" and "all_ok en1"
    and "\<not> ts_lt (clk 2) (ts_add_ms (clk 1) 100)"
  shows "\<exists>c2. turns [0, 1, 2, 2, 1, 0] c1 = Some c2 \<and> ext_ready c2 \<and>
    (let s = tls_s (fst (request_sync_end c2 t rid MOD_A A_CHAIN en3))
     in s_result s = COSEQ_RSLT_SUCCESS \<and> s_req_id s = rid \<and> s_msg s = []) \<and>
    (\<forall>i < 3. m_fibers (get_mod c2 i) = [] \<and> m_inbox (get_mod c2 i) = [] \<and> m_deferred (get_mod c2 i) = [] \<and>
       m_pending (get_mod c2 i) = [] \<and> m_locked_by (get_mod c2 i) = None)"
proof -
  obtain ca where a: "sched_iter 0 c1 = ok (True, ca)"
    and ta: "trio ca rid (wait_a rid []) (mod_b [event EV_START B_CHAIN 1 0 COSEQ_RSLT_IGNORE]) (mod_c clk [])"
    using turn_a [OF chain_begins [OF assms(1-3)]] by blast
  obtain cb where b: "sched_iter 1 ca = ok (True, cb)"
    and tb: "trio cb rid (wait_a rid []) (wait_b []) (mod_c clk [event EV_START C_WORK 1 1 COSEQ_RSLT_IGNORE])"
    using turn_b [OF ta] by blast
  obtain cc where c: "sched_iter 2 cb = ok (True, cc)" and tc: "trio cc rid (wait_a rid []) (wait_b []) (wait_c clk)"
    using turn_c [OF tb] by blast
  obtain cd where d: "sched_iter 2 cc = ok (True, cd)"
    and td: "trio cd rid (wait_a rid []) (wait_b [event EV_REPLY 0 1 2 COSEQ_RSLT_SUCCESS]) (idle_c clk)"
    using turn_c_fires [OF tc assms(4)] by blast
  obtain ce where e: "sched_iter 1 cd = ok (True, ce)"
    and te: "trio ce rid (wait_a rid [event EV_REPLY 0 1 1 COSEQ_RSLT_SUCCESS]) idle_b (idle_c clk)"
    using turn_b_answers [OF td] by blast
  obtain cf where f: "sched_iter 0 ce = ok (True, cf)" and tf: "trio cf rid idle_a idle_b (idle_c clk)"
    and ext: "ext_ready cf" "ext_result cf = COSEQ_RSLT_SUCCESS" "ext_msg cf = None" "ext_size cf = 0"
    using turn_a_answers [OF te] by blast
  have "turns [0, 1, 2, 2, 1, 0] c1 = Some cf"
    unfolding turns_ok [OF a] turns_ok [OF b] turns_ok [OF c] turns_ok [OF d] turns_ok [OF e] turns_ok [OF f] by simp
  moreover have "i = 0 \<or> i = 1 \<or> i = 2" if "i < 3" for i :: nat
    using that by arith
  then have "m_fibers (get_mod cf i) = [] \<and> m_inbox (get_mod cf i) = [] \<and> m_deferred (get_mod cf i) = [] \<and>
      m_pending (get_mod cf i) = [] \<and> m_locked_by (get_mod cf i) = None" if "i < 3" for i
    using that trio_elim [OF tf] by (force simp: idle_a_def idle_b_def idle_c_def module_defs)
  ultimately show ?thesis
    using ext by (auto simp: request_sync_end_def Let_def split_def)
qed

lemma chain_setup:
  obtains c0 en0 where "coseq_setup fresh_ctx sample_tbl 3 (chain_envs clk) no_env = (True, c0, en0)"
proof -
  have "fst (coseq_setup fresh_ctx sample_tbl 3 (chain_envs clk) no_env)"
    using coseq_setup_succeeds [OF all_ok_no_env] sample_length by (simp add: MAX_MODULE_def)
  then show ?thesis using that by (metis prod.collapse)
qed

lemma sample_chain_answers_witness:
  "let clk = \<lambda>n. Timespec (int n) 0; c0 = fst (snd (coseq_setup fresh_ctx sample_tbl 3 (chain_envs clk) no_env));
       (rid, c1, en1) = request_sync_begin c0 MOD_A A_CHAIN None 0 no_env
   in \<exists>c2. turns [0, 1, 2, 2, 1, 0] c1 = Some c2 \<and> ext_ready c2"
proof -
  let ?clk = "\<lambda>n. Timespec (int n) 0"
  obtain c0 en0 where s: "coseq_setup fresh_ctx sample_tbl 3 (chain_envs ?clk) no_env = (True, c0, en0)"
    by (rule chain_setup)
  obtain rid c1 en1 where b: "request_sync_begin c0 MOD_A A_CHAIN None 0 no_env = (rid, c1, en1)"
    by (metis prod.exhaust)
  have "\<not> ts_lt (?clk 2) (ts_add_ms (?clk 1) 100)"
    by (simp add: ts_add_ms_def ts_lt_def Let_def del: ts_lt_less)
  then have "\<exists>c2. turns [0, 1, 2, 2, 1, 0] c1 = Some c2 \<and> ext_ready c2"
    using sample_chain_answers [OF s b all_ok_no_env] by blast
  then show ?thesis unfolding Let_def s fst_conv snd_conv b case_prod_conv .
qed

section \<open>Requests on their way\<close>

lemma sample_started:
  obtains c where "reachable sample_tbl c" and "valid_mod c 1"
    and "m_inbox (get_mod c 1) = [event EV_START B_CHAIN 1 0 COSEQ_RSLT_IGNORE]"
proof -
  obtain c0 en0 where s: "coseq_setup fresh_ctx sample_tbl 3 (chain_envs (\<lambda>n. Timespec 0 0)) no_env = (True, c0, en0)"
    by (rule chain_setup)
  obtain rid c1 en1 where b: "request_sync_begin c0 MOD_A A_CHAIN None 0 no_env = (rid, c1, en1)"
    by (metis prod.exhaust)
  have t0: "trio c1 rid (mod_a [event EV_START A_CHAIN rid EXTERNAL COSEQ_RSLT_IGNORE]) (mod_b []) (mod_c (\<lambda>n. Timespec 0 0) [])"
    by (rule chain_begins [OF s b all_ok_no_env])
  obtain c2 where c2: "sched_iter 0 c1 = ok (True, c2)"
    and t2: "trio c2 rid (wait_a rid []) (mod_b [event EV_START B_CHAIN 1 0 COSEQ_RSLT_IGNORE]) (mod_c (\<lambda>n. Timespec 0 0) [])"
    using turn_a [OF t0] by blast
  have "reachable sample_tbl c0" by (rule reachable.start [OF s]) (simp add: sample_length)
  then have "reachable sample_tbl c1"
    by (rule reachable.more [OF _ sys_step.sync_begin [OF b]]) (simp add: readable_def)
  moreover have "valid_mod c1 0" "m_th_started (get_mod c1 0)"
    using trio_elim [OF t0] by (simp_all add: mod_a_def module_defs)
  ultimately have "reachable sample_tbl c2" by (rule reachable.more [OF _ sys_turn [OF _ _ c2]])
  then show ?thesis by (rule that) (use trio_elim [OF t2] in \<open>simp_all add: mod_b_def module_defs\<close>)
qed

text \<open>
  C15: Requests reach their sequence. If the sequences of the table address sequences that exist, then
  in every reachable state, whatever threads outside the modules ask for, each start event that a
  sequence has sent is in a module of the table and names one of its sequences: the scheduler
  that takes it does not discard it, which would leave a requester waiting.
\<close>

theorem requests_reach_sequences:
  assumes "reachable tbl c" and "table_wf tbl" and "honest_table (Some (directory tbl)) tbl" and "valid_mod c i"
    and "e \<in> set (m_inbox (get_mod c i) @ m_deferred (get_mod c i))"
    and "e_type e = EV_START" and "e_requester e \<noteq> EXTERNAL"
  shows "i < length tbl \<and> e_seq_idx e < m_nr_seq (get_mod c i) \<and>
    unat (e_seq_idx e) < length (m_seqs (get_mod c i))"
proof -
  have "bufs (\<lambda>_. Some (directory tbl)) c" by (rule reachable_bufs [OF assms(1,3)]) simp
  then have "ev_good (\<lambda>_. Some (directory tbl)) i e" "listed (\<lambda>_. Some (directory tbl)) i (m_nr_seq (get_mod c i))"
    using assms(4,5) by (auto simp: bufs_def mod_bufs_def)
  then have "i < length tbl" "e_seq_idx e < m_nr_seq (get_mod c i)"
    using assms(6,7) by (auto simp: ev_good_def asked_def listed_def known_def directory_def split: if_splits)
  moreover have "unat (m_nr_seq (get_mod c i)) \<le> length (m_seqs (get_mod c i))"
    using reachable_life(2) [OF assms(1,2,4)] by (simp add: life_idle_def table_ok_def)
  ultimately show ?thesis by (simp add: word_less_nat_alt)
qed

lemma requests_reach_sequences_witness:
  "\<exists>c e. reachable sample_tbl c \<and> e_type e = EV_START \<and> e_requester e = 0 \<and>
     m_inbox (get_mod c 1) = [e] \<and> e_seq_idx e < m_nr_seq (get_mod c 1)"
proof -
  let ?e = "event EV_START B_CHAIN 1 0 COSEQ_RSLT_IGNORE"
  obtain c where c: "reachable sample_tbl c" "valid_mod c 1" "m_inbox (get_mod c 1) = [?e]"
    by (rule sample_started)
  have e: "e_type ?e = EV_START" "e_requester ?e = 0" by (simp_all add: event_def)
  have "e_seq_idx ?e < m_nr_seq (get_mod c 1)"
    using requests_reach_sequences [OF c(1) sample_table_wf sample_honest c(2), of ?e] c(3) e
    by (simp add: EXTERNAL_def)
  then show ?thesis using c(1,3) e by blast
qed

end
