(* ===== verification/CoseqLayers.thy ===== *)
theory CoseqLayers
  imports CoseqDeadlock CoseqChain
begin

text \<open>
  Standstills, met and ruled out: a sequence that asks its own module while it holds the lock; modules in
  layers, each of which only asks modules below it, where a circle of waiting requests can only be
  closed by a reply that the lock keeps from the fiber that waits for it; and a run that ends so.
\<close>

section \<open>Asking under the lock\<close>

definition lock_tbl :: "coseq_reg_t list" where
  "lock_tbl = [\<lparr>r_name = Some ''m'', r_nr_que_max = 4,
     r_seq_array = [seq_entry (Lock (Request 0 1 None 0 (\<lambda>_. Unlock (Reply COSEQ_RSLT_SUCCESS None 0 Return)))) ''ask'',
       seq_entry (Reply COSEQ_RSLT_SUCCESS None 0 Return) ''answer''],
     r_nr_seq_max = 2, r_recv_notify = None, r_user = 0\<rparr>]"

lemma lock_table:
  "table_wf lock_tbl" "honest_table (Some (directory lock_tbl)) lock_tbl" "answering_table lock_tbl"
  "length lock_tbl \<le> MAX_MODULE" "length lock_tbl = 1"
  by (simp_all add: lock_tbl_def table_wf_def honest_table_def honest_reg_def answering_table_def seq_entry_def known_def
      directory_def readable_def MAX_MODULE_def)

definition lock_module :: "u32 \<Rightarrow> env \<Rightarrow> ev_t list \<Rightarrow> ev_t list \<Rightarrow> module_t" where
  "lock_module r en evs ds = (booted 0 (lock_tbl ! 0) en)\<lparr>m_inbox := evs, m_deferred := ds,
     m_fibers := [(parked 0 ''ask'' EXTERNAL r (sq_fn (r_seq_array (lock_tbl ! 0) ! 0))
       (After_request (\<lambda>_. Unlock (Reply COSEQ_RSLT_SUCCESS None 0 Return))))\<lparr>f_waiting_reply := True, f_wait_req_id := 1\<rparr>],
     m_pending := [\<lparr>p_req_id = 1, p_f = 0\<rparr>], m_next_req_id := 2, m_locked_by := Some 0, m_next_fptr := 1\<rparr>"

lemma lock_turn:
  assumes "valid_mod c 0" and "nr_module c = 1"
    and "get_mod c 0 = (booted 0 (lock_tbl ! 0) no_env)\<lparr>m_inbox := [event EV_START 0 r EXTERNAL COSEQ_RSLT_IGNORE]\<rparr>"
  shows "sched_iter 0 c = ok (True, set_mod 0 (lock_module r (env_at 5 1) [event EV_START 1 1 0 COSEQ_RSLT_IGNORE] []) c)"
  using assms by (simp add: lock_module_def parked_def lock_tbl_def module_defs eval_defs Let_def word_facts eval_nat_numeral)

lemma lock_turn_defers:
  assumes "valid_mod c 0" and "nr_module c = 1"
    and "get_mod c 0 = lock_module r (env_at 5 1) [event EV_START 1 1 0 COSEQ_RSLT_IGNORE] []"
  shows "sched_iter 0 c = ok (True, set_mod 0 (lock_module r (env_at 5 2) [] [event EV_START 1 1 0 COSEQ_RSLT_IGNORE]) c)"
  using assms by (simp add: lock_module_def parked_def lock_tbl_def module_defs eval_defs Let_def word_facts eval_nat_numeral)

section \<open>A reply kept from its fiber\<close>

definition late_first :: seq_prog where
  "late_first = Request_async 1 0 None 0 (\<lambda>_. Request_async 2 0 None 0 (\<lambda>_. Wait_reply (\<lambda>_.
     Lock (Wait_reply (\<lambda>_. Unlock (Reply COSEQ_RSLT_SUCCESS None 0 Return))))))"

definition late_second :: seq_prog where
  "late_second = Lock (Request 1 0 None 0 (\<lambda>_. Unlock (Reply COSEQ_RSLT_SUCCESS None 0 Return)))"

definition late_answer :: "string \<Rightarrow> coseq_reg_t" where
  "late_answer nm = \<lparr>r_name = Some nm, r_nr_que_max = 4, r_seq_array = [seq_entry (Reply COSEQ_RSLT_SUCCESS None 0 Return) ''answer''],
     r_nr_seq_max = 1, r_recv_notify = None, r_user = 0\<rparr>"

definition late_tbl :: "coseq_reg_t list" where
  "late_tbl = [\<lparr>r_name = Some ''a'', r_nr_que_max = 4,
     r_seq_array = [seq_entry late_first ''first'', seq_entry late_second ''second''],
     r_nr_seq_max = 2, r_recv_notify = None, r_user = 0\<rparr>, late_answer ''b'', late_answer ''c'']"

definition three :: "coseq_ctx_private \<Rightarrow> module_t \<Rightarrow> module_t \<Rightarrow> module_t \<Rightarrow> bool" where
  "three c a b d \<longleftrightarrow> nr_module c = 3 \<and> length (modules c) = 32 \<and>
     get_mod c 0 = a \<and> get_mod c 1 = b \<and> get_mod c 2 = d"

lemma three_elim:
  assumes "three c a b d"
  shows "nr_module c = 3" "length (modules c) = 32" "get_mod c 0 = a" "get_mod c (Suc 0) = b" "get_mod c 2 = d"
  using assms by (simp_all add: three_def)

text \<open>Module A while both fibers wait, and when the first has got one reply and the lock.\<close>

definition late_fiber_1 :: "u32 \<Rightarrow> fiber_t" where
  "late_fiber_1 r = (parked 0 ''first'' EXTERNAL r late_first (After_wait_reply (\<lambda>_.
     Lock (Wait_reply (\<lambda>_. Unlock (Reply COSEQ_RSLT_SUCCESS None 0 Return))))))\<lparr>f_waiting_any := True, f_async_outstanding := 2\<rparr>"

definition late_fiber_2 :: "u32 \<Rightarrow> fiber_t" where
  "late_fiber_2 q = (parked 1 ''second'' EXTERNAL q late_second (After_request (\<lambda>_. Unlock (Reply COSEQ_RSLT_SUCCESS None 0 Return))))\<lparr>
     f_self := 1, f_waiting_reply := True, f_wait_req_id := 3\<rparr>"

definition late_waiting :: "u32 \<Rightarrow> u32 \<Rightarrow> ev_t list \<Rightarrow> module_t" where
  "late_waiting r q evs = (booted 0 (late_tbl ! 0) (env_at 12 1))\<lparr>m_inbox := evs, m_fibers := [late_fiber_2 q, late_fiber_1 r],
     m_pending := [\<lparr>p_req_id = 3, p_f = 1\<rparr>, \<lparr>p_req_id = 2, p_f = 0\<rparr>, \<lparr>p_req_id = 1, p_f = 0\<rparr>],
     m_next_req_id := 4, m_locked_by := Some 1, m_next_fptr := 2\<rparr>"

definition late_stuck :: "u32 \<Rightarrow> module_t" where
  "late_stuck r = (booted 0 (late_tbl ! 0) (env_at 12 2))\<lparr>
     m_fibers := [(parked 0 ''first'' EXTERNAL r late_first (After_wait_reply (\<lambda>_. Unlock (Reply COSEQ_RSLT_SUCCESS None 0 Return))))\<lparr>
       f_src := \<lparr>s_thread_idx = 2, s_seq_idx = 0, s_req_id = 2, s_result = COSEQ_RSLT_SUCCESS, s_client_id = 0, s_msg = []\<rparr>,
       f_waiting_any := True, f_async_outstanding := 1\<rparr>],
     m_pending := [\<lparr>p_req_id = 1, p_f = 0\<rparr>], m_next_req_id := 4, m_locked_by := Some 0, m_next_fptr := 2,
     m_deferred := [event EV_REPLY 0 1 1 COSEQ_RSLT_SUCCESS]\<rparr>"

definition late_idle :: "nat \<Rightarrow> env \<Rightarrow> nat \<Rightarrow> ev_t list \<Rightarrow> module_t" where
  "late_idle i en n evs = (booted i (late_tbl ! i) en)\<lparr>m_inbox := evs, m_next_fptr := n\<rparr>"

lemmas late_defs = late_tbl_def late_first_def late_second_def late_answer_def module_defs parked_def late_idle_def
  late_waiting_def late_stuck_def late_fiber_1_def late_fiber_2_def

lemma late_turn_0:
  assumes "three c (late_idle 0 no_env 0 [event EV_START 0 r EXTERNAL COSEQ_RSLT_IGNORE,
      event EV_START 1 q EXTERNAL COSEQ_RSLT_IGNORE]) (late_idle 1 no_env 0 []) (late_idle 2 no_env 0 [])"
  shows "\<exists>c'. sched_iter 0 c = ok (True, c') \<and> three c' (late_waiting r q [])
    (late_idle 1 no_env 0 [event EV_START 0 1 0 COSEQ_RSLT_IGNORE, event EV_START 0 3 0 COSEQ_RSLT_IGNORE])
    (late_idle 2 no_env 0 [event EV_START 0 2 0 COSEQ_RSLT_IGNORE])"
  by (simp add: three_def three_elim [OF assms] late_defs eval_defs Let_def word_facts)

lemma late_turn_1:
  assumes "three c (late_waiting r q []) (late_idle 1 no_env 0 [event EV_START 0 1 0 COSEQ_RSLT_IGNORE,
      event EV_START 0 3 0 COSEQ_RSLT_IGNORE]) d"
  shows "\<exists>c'. sched_iter 1 c = ok (True, c') \<and>
    three c' (late_waiting r q [event EV_REPLY 0 1 1 COSEQ_RSLT_SUCCESS, event EV_REPLY 0 3 1 COSEQ_RSLT_SUCCESS])
      (late_idle 1 (env_at 8 1) 2 []) d"
  by (simp add: three_def three_elim [OF assms] late_defs eval_defs Let_def word_facts)

lemma late_turn_2:
  assumes "three c (late_waiting r q evs) b (late_idle 2 no_env 0 [event EV_START 0 2 0 COSEQ_RSLT_IGNORE])"
  shows "\<exists>c'. sched_iter 2 c = ok (True, c') \<and>
    three c' (late_waiting r q (evs @ [event EV_REPLY 0 2 2 COSEQ_RSLT_SUCCESS])) b (late_idle 2 (env_at 4 1) 1 [])"
  by (simp add: three_def three_elim [OF assms] late_defs eval_defs Let_def word_facts)

lemma late_turn_3:
  assumes "three c (late_waiting r q [event EV_REPLY 0 1 1 COSEQ_RSLT_SUCCESS, event EV_REPLY 0 3 1 COSEQ_RSLT_SUCCESS,
      event EV_REPLY 0 2 2 COSEQ_RSLT_SUCCESS]) b d"
  shows "\<exists>c'. sched_iter 0 c = ok (True, c') \<and> three c' (late_stuck r) b d"
  by (cases "q = ext_wait_rid c") (simp_all add: three_def three_elim [OF assms] late_defs eval_defs Let_def word_facts)

lemma late_table:
  "table_wf late_tbl" "honest_table (Some (directory late_tbl)) late_tbl" "answering_table late_tbl"
  "length late_tbl \<le> MAX_MODULE" "length late_tbl = 3"
  by (simp_all add: late_tbl_def late_first_def late_second_def late_answer_def table_wf_def honest_table_def honest_reg_def
      answering_table_def seq_entry_def known_def directory_def readable_def MAX_MODULE_def)

lemma late_begins:
  obtains c r q where "reachable late_tbl c" and "three c (late_idle 0 no_env 0 [event EV_START 0 r EXTERNAL COSEQ_RSLT_IGNORE,
      event EV_START 1 q EXTERNAL COSEQ_RSLT_IGNORE]) (late_idle 1 no_env 0 []) (late_idle 2 no_env 0 [])"
proof -
  let ?b = "boot late_tbl"
  define c1 where "c1 = fst (request_async ?b 0 0 None 0 no_env)"
  define c2 where "c2 = fst (request_async c1 0 1 None 0 no_env)"
  have b: "three ?b (late_idle 0 no_env 0 []) (late_idle 1 no_env 0 []) (late_idle 2 no_env 0 [])"
    using boot_simps [OF late_table(4)] late_table(5) by (simp add: three_def late_idle_def MAX_MODULE_def booted_fields)
  have t1: "three c1 (late_idle 0 no_env 0 [event EV_START 0 (ext_id ?b) EXTERNAL COSEQ_RSLT_IGNORE])
      (late_idle 1 no_env 0 []) (late_idle 2 no_env 0 [])"
    by (simp add: c1_def three_def three_elim [OF b] request_async_def eval_defs Let_def late_idle_def module_defs)
  have t2: "three c2 (late_idle 0 no_env 0 [event EV_START 0 (ext_id ?b) EXTERNAL COSEQ_RSLT_IGNORE,
      event EV_START 1 (ext_id c1) EXTERNAL COSEQ_RSLT_IGNORE]) (late_idle 1 no_env 0 []) (late_idle 2 no_env 0 [])"
    by (simp add: c2_def three_def three_elim [OF t1] request_async_def eval_defs Let_def late_idle_def module_defs)
  have r: "readable None 0" by (simp add: readable_def)
  have "reachable late_tbl c1"
    unfolding c1_def by (rule reachable.more [OF boot_reachable [OF late_table(4)] sys_step.async [OF prod.collapse [symmetric] r]])
  then have "reachable late_tbl c2"
    unfolding c2_def by (rule reachable.more [OF _ sys_step.async [OF prod.collapse [symmetric] r]])
  with t2 show ?thesis using that by blast
qed

lemma reachable_turn:
  assumes "reachable tbl c" and "sched_iter i c = ok (b, c')" and "valid_mod c i" and "m_th_started (get_mod c i)"
  shows "reachable tbl c'"
  by (rule reachable.more [OF assms(1) sys_turn [OF assms(3,4,2)]])

lemma late_ends:
  obtains c r where "reachable late_tbl c" and "three c (late_stuck r) (late_idle 1 (env_at 8 1) 2 []) (late_idle 2 (env_at 4 1) 1 [])"
proof -
  obtain c0 r q where r0: "reachable late_tbl c0" and t0: "three c0 (late_idle 0 no_env 0 [event EV_START 0 r EXTERNAL COSEQ_RSLT_IGNORE,
      event EV_START 1 q EXTERNAL COSEQ_RSLT_IGNORE]) (late_idle 1 no_env 0 []) (late_idle 2 no_env 0 [])"
    by (rule late_begins)
  note up = late_idle_def late_waiting_def booted_fields
  obtain c1 where s1: "sched_iter 0 c0 = ok (True, c1)" and t1: "three c1 (late_waiting r q [])
    (late_idle 1 no_env 0 [event EV_START 0 1 0 COSEQ_RSLT_IGNORE, event EV_START 0 3 0 COSEQ_RSLT_IGNORE])
    (late_idle 2 no_env 0 [event EV_START 0 2 0 COSEQ_RSLT_IGNORE])" using late_turn_0 [OF t0] by blast
  have r1: "reachable late_tbl c1" by (rule reachable_turn [OF r0 s1]) (simp_all add: three_elim [OF t0] up)
  obtain c2 where s2: "sched_iter 1 c1 = ok (True, c2)" and t2:
    "three c2 (late_waiting r q [event EV_REPLY 0 1 1 COSEQ_RSLT_SUCCESS, event EV_REPLY 0 3 1 COSEQ_RSLT_SUCCESS])
      (late_idle 1 (env_at 8 1) 2 []) (late_idle 2 no_env 0 [event EV_START 0 2 0 COSEQ_RSLT_IGNORE])"
    using late_turn_1 [OF t1] by blast
  have r2: "reachable late_tbl c2" by (rule reachable_turn [OF r1 s2]) (simp_all add: three_elim [OF t1] up)
  obtain c3 where s3: "sched_iter 2 c2 = ok (True, c3)" and t3:
    "three c3 (late_waiting r q ([event EV_REPLY 0 1 1 COSEQ_RSLT_SUCCESS, event EV_REPLY 0 3 1 COSEQ_RSLT_SUCCESS] @
        [event EV_REPLY 0 2 2 COSEQ_RSLT_SUCCESS])) (late_idle 1 (env_at 8 1) 2 []) (late_idle 2 (env_at 4 1) 1 [])"
    using late_turn_2 [OF t2] by blast
  have r3: "reachable late_tbl c3" by (rule reachable_turn [OF r2 s3]) (simp_all add: three_elim [OF t2] up)
  obtain c4 where s4: "sched_iter 0 c3 = ok (True, c4)"
    and t4: "three c4 (late_stuck r) (late_idle 1 (env_at 8 1) 2 []) (late_idle 2 (env_at 4 1) 1 [])"
    using late_turn_3 [OF t3 [unfolded append.simps]] by blast
  have "reachable late_tbl c4" by (rule reachable_turn [OF r3 s4]) (simp_all add: three_elim [OF t3] up)
  with t4 show ?thesis using that by blast
qed

lemma three_modules: "three c a b d \<Longrightarrow> int j < nr_module c \<longleftrightarrow> j = 0 \<or> j = 1 \<or> j = 2"
  by (auto simp: three_def)

lemma late_standstill:
  assumes "three c (late_stuck r) (late_idle 1 (env_at 8 1) 2 []) (late_idle 2 (env_at 4 1) 1 [])"
  shows "standstill c"
  unfolding standstill_def three_modules [OF assms]
  using three_elim [OF assms]
  by (auto simp: late_stuck_def late_idle_def booted_fields sched_splice_def sched_wait_def nearest_deadline_def
      timer_eligible_def parked_def)

text \<open>
  C6: A reply can be kept from the fiber that waits for it. Three modules that answer every request can come
  to a standstill: while one fiber of module A holds the lock a reply to another is set aside; the
  holder unlocks and, in the same batch, a second reply wakes the other fiber, which takes the lock
  and waits for the first reply. That reply is among the events set aside until the lock is
  free, so all threads sleep without limit, module A is locked and the request is never answered.
\<close>

theorem deferred_reply_deadlocks:
  "\<exists>c f. reachable late_tbl c \<and> standstill c \<and> m_fibers (get_mod c 0) = [f] \<and> f_waiting_any f \<and>
    m_locked_by (get_mod c 0) = Some (f_self f) \<and> m_pending (get_mod c 0) = [\<lparr>p_req_id = 1, p_f = f_self f\<rparr>] \<and>
    m_deferred (get_mod c 0) = [event EV_REPLY 0 1 1 COSEQ_RSLT_SUCCESS]"
proof -
  obtain c r where c: "reachable late_tbl c"
    and t: "three c (late_stuck r) (late_idle 1 (env_at 8 1) 2 []) (late_idle 2 (env_at 4 1) 1 [])"
    by (rule late_ends)
  have "\<exists>f. m_fibers (get_mod c 0) = [f] \<and> f_waiting_any f \<and>
    m_locked_by (get_mod c 0) = Some (f_self f) \<and> m_pending (get_mod c 0) = [\<lparr>p_req_id = 1, p_f = f_self f\<rparr>] \<and>
    m_deferred (get_mod c 0) = [event EV_REPLY 0 1 1 COSEQ_RSLT_SUCCESS]"
    by (simp add: three_elim [OF t] late_stuck_def parked_def)
  with c late_standstill [OF t] show ?thesis by blast
qed

section \<open>Layers\<close>

text \<open>A module sees the sequences of the modules in the layers below its own.\<close>

definition below :: "(nat \<Rightarrow> nat) \<Rightarrow> coseq_reg_t list \<Rightarrow> views" where
  "below L tbl j = Some (\<lambda>d. if 0 \<le> d \<and> L (nat d) < L j then directory tbl d else None)"

lemma below_views: "views_of tbl (below L tbl)"
  by (auto simp: views_of_def below_def split: if_splits)

lemma below_asked: "asked (below L tbl) j (int i) s \<Longrightarrow> L j < L i"
  by (auto simp: asked_def below_def known_def EXTERNAL_def split: if_splits)

lemma honest_mono:
  assumes "\<And>d s. known A d s \<Longrightarrow> known B d s" and "honest A p"
  shows "honest B p"
  using assms(2)
proof (coinduction arbitrary: p)
  case honest
  then show ?case by (cases p) (simp_all add: assms(1))
qed

lemma below_honest:
  assumes "honest_modules (below L tbl) tbl"
  shows "honest_table (Some (directory tbl)) tbl"
proof -
  have k: "known (below L tbl i) d s \<Longrightarrow> known (Some (directory tbl)) d s" for i d s
    by (auto simp: below_def known_def split: if_splits)
  have "honest_reg (Some (directory tbl)) r" if "honest_reg (below L tbl i) r" for i r
    using that honest_mono [where A = "below L tbl i", OF k] by (simp add: honest_reg_def)
  then show ?thesis using assms by (auto simp: honest_table_modules honest_modules_def)
qed

text \<open>The waits that stay in a module: a reply set aside behind the lock.\<close>

definition kept_back :: "coseq_ctx_private \<Rightarrow> ((nat \<times> u32) \<times> (nat \<times> u32)) set" where
  "kept_back c = {((i, r), (j, s)). i = j \<and> int j < nr_module c \<and> holder_on (get_mod c j) s \<and>
     (\<exists>e \<in> set (m_deferred (get_mod c j)). e_type e = EV_REPLY \<and> e_req_id e = r)}"

lemma waits_descend:
  assumes "bufs (below L tbl) c" and "((i, r), (j, s)) \<in> waits c"
  shows "L j < L i \<or> ((i, r), (j, s)) \<in> kept_back c"
proof -
  have j: "int j < nr_module c" using assms(2) by (simp add: waits_def)
  then have "mod_bufs (below L tbl) j (get_mod c j)" using assms(1) by (auto simp: bufs_def nr_ok_def)
  then have ev: "e \<in> set (m_deferred (get_mod c j)) \<Longrightarrow> ev_good (below L tbl) j e"
    and f: "f \<in> set (m_fibers (get_mod c j)) \<Longrightarrow> fiber_bufs (below L tbl) j f" for e f
    by (simp_all add: mod_bufs_def)
  consider f where "f \<in> set (m_fibers (get_mod c j))" "f_reply_to f = int i"
    | e where "e \<in> set (m_deferred (get_mod c j))" "e_type e = EV_START" "e_requester e = int i"
    | "((i, r), (j, s)) \<in> kept_back c"
    using assms(2) j by (auto simp: waits_def kept_back_def)
  then show ?thesis
  proof cases
    case (1 f)
    then show ?thesis using f [OF 1(1)] below_asked by (auto simp: fiber_bufs_def)
  next
    case (2 e)
    then show ?thesis using ev [OF 2(1)] below_asked by (auto simp: ev_good_def)
  qed simp
qed

lemma waits_descend_trancl:
  assumes "bufs (below L tbl) c" and "(x, y) \<in> (waits c)\<^sup>+"
  shows "L (fst y) < L (fst x) \<or> (x, y) \<in> (kept_back c)\<^sup>+"
  using assms(2)
proof induction
  case (base y)
  then show ?case using waits_descend [OF assms(1), of "fst x" "snd x" "fst y" "snd y"] by auto
next
  case (step y z)
  have yz: "L (fst z) < L (fst y) \<or> (y, z) \<in> kept_back c"
    using waits_descend [OF assms(1), of "fst y" "snd y" "fst z" "snd z"] step(2) by simp
  have stay: "fst v = fst u" if "(u, v) \<in> (kept_back c)\<^sup>+" for u v
    using that by induction (auto simp: kept_back_def)
  from yz show ?case
  proof
    assume "L (fst z) < L (fst y)"
    with step.IH stay [of x y] show ?thesis by fastforce
  next
    assume k: "(y, z) \<in> kept_back c"
    with step.IH stay [OF r_into_trancl [OF k]] show ?thesis by (fastforce intro: trancl_into_trancl)
  qed
qed

text \<open>
  C5: Layers rule out deadlock, up to one case. Let each module ask only modules in layers below its own,
  let the sequences pass buffers that hold what they say and reply before they return, and let no allocation fail.
  If in a reachable state, before a module has given out \<open>2\<^sup>3\<^sup>2\<close> ids, all threads sleep without limit while a
  request is outstanding, then in some module the lock is held by a fiber that waits for a reply
  which has arrived and is set aside until the lock is free. Without that no deadlock is possible.
\<close>

theorem layers_do_not_deadlock:
  assumes "reachable tbl c" and "table_wf tbl" and "honest_modules (below L tbl) tbl" and "answering_table tbl"
    and "\<forall>j < length tbl. all_ok (m_env (get_mod c j)) \<and> m_next_req_id (get_mod c j) \<le> 2 ^ 32"
    and "standstill c" and "i < length tbl" and "q \<in> set (m_pending (get_mod c i))"
  shows "\<exists>j < length tbl. \<exists>e \<in> set (m_deferred (get_mod c j)). \<exists>h \<in> set (m_fibers (get_mod c j)).
    e_type e = EV_REPLY \<and> m_locked_by (get_mod c j) = Some (f_self h) \<and>
    \<lparr>p_req_id = e_req_id e, p_f = f_self h\<rparr> \<in> set (m_pending (get_mod c j)) \<and>
    (f_waiting_any h \<or> f_waiting_reply h \<and> f_wait_req_id h = e_req_id e)"
proof -
  have bufs: "bufs (below L tbl) c" by (rule reachable_views [OF assms(1,3) below_views])
  obtain x where circle: "(x, x) \<in> (waits c)\<^sup>+"
    using standstill_circle [OF assms(1,2) below_honest [OF assms(3)] assms(4-8)] by blast
  then have "(x, x) \<in> (kept_back c)\<^sup>+" using waits_descend_trancl [OF bufs circle] by simp
  then obtain y z where "(x, y) \<in> kept_back c" "(z, x) \<in> kept_back c"
    by (metis tranclD tranclD2)
  then obtain e where e: "int (fst x) < nr_module c" "e \<in> set (m_deferred (get_mod c (fst x)))" "e_type e = EV_REPLY"
    "holder_on (get_mod c (fst x)) (e_req_id e)" by (auto simp: kept_back_def)
  moreover have "nr_module c = int (length tbl)"
    using reachable_causal [OF assms(1,2) below_honest [OF assms(3)] assms(4)] by simp
  ultimately show ?thesis by (auto simp: holder_on_def blocked_on_def)
qed

lemma late_layers: "honest_modules (below (\<lambda>j. if j = 0 then 1 else 0) late_tbl) late_tbl"
proof -
  have k: "known (below (\<lambda>j. if j = 0 then 1 else 0) late_tbl 0) 1 0" "known (below (\<lambda>j. if j = 0 then 1 else 0) late_tbl 0) 2 0"
    by (simp_all add: known_def below_def directory_def late_tbl_def late_answer_def)
  have l: "i < length late_tbl \<longleftrightarrow> i = 0 \<or> i = 1 \<or> i = 2" for i by (auto simp: late_table(5))
  show ?thesis
    unfolding honest_modules_def l
    using k by (auto simp: honest_reg_def late_tbl_def late_answer_def late_first_def late_second_def seq_entry_def readable_def)
qed

lemma layers_do_not_deadlock_witness:
  "\<exists>c e h. reachable late_tbl c \<and> m_deferred (get_mod c 0) = [e] \<and> m_fibers (get_mod c 0) = [h] \<and>
    e_type e = EV_REPLY \<and> m_locked_by (get_mod c 0) = Some (f_self h)"
proof -
  obtain c r where c: "reachable late_tbl c"
    and t: "three c (late_stuck r) (late_idle 1 (env_at 8 1) 2 []) (late_idle 2 (env_at 4 1) 1 [])"
    by (rule late_ends)
  note el = three_elim [OF t]
  have l: "i < length late_tbl \<longleftrightarrow> i = 0 \<or> i = 1 \<or> i = 2" for i by (auto simp: late_table(5))
  have ok: "\<forall>j < length late_tbl. all_ok (m_env (get_mod c j)) \<and> m_next_req_id (get_mod c j) \<le> 2 ^ 32"
    unfolding l using el by (auto simp: late_stuck_def late_idle_def booted_fields all_ok_def env_at_def no_env_def)
  have p: "m_pending (get_mod c 0) = [\<lparr>p_req_id = 1, p_f = 0\<rparr>]" by (simp add: el late_stuck_def)
  from layers_do_not_deadlock [OF c late_table(1) late_layers late_table(3) ok late_standstill [OF t], of 0 "\<lparr>p_req_id = 1, p_f = 0\<rparr>"] p
  obtain j e h where j: "j = 0 \<or> j = 1 \<or> j = 2" "e \<in> set (m_deferred (get_mod c j))" "h \<in> set (m_fibers (get_mod c j))"
    "e_type e = EV_REPLY" "m_locked_by (get_mod c j) = Some (f_self h)"
    unfolding l by auto
  then have "j = 0" using el by (auto simp: late_idle_def booted_fields)
  with c j show ?thesis by (intro exI [of _ c] exI [of _ e] exI [of _ h]) (auto simp: el late_stuck_def)
qed

text \<open>A circle through the lock: the request waits for the lock that its own requester holds.\<close>

lemma standstill_is_circular_witness:
  "\<exists>c. reachable lock_tbl c \<and> m_pending (get_mod c 0) = [\<lparr>p_req_id = 1, p_f = 0\<rparr>] \<and> ((0, 1), (0, 1)) \<in> (waits c)\<^sup>+"
proof -
  let ?b = "boot lock_tbl"
  define r where "r = ext_id ?b"
  define c0 where "c0 = fst (request_async ?b 0 0 None 0 no_env)"
  have b: "get_mod ?b 0 = booted 0 (lock_tbl ! 0) no_env" "nr_module ?b = 1" "length (modules ?b) = 32"
    using boot_simps [OF lock_table(4)] by (simp_all add: lock_table(5) MAX_MODULE_def)
  have m0: "get_mod c0 0 = (booted 0 (lock_tbl ! 0) no_env)\<lparr>m_inbox := [event EV_START 0 r EXTERNAL COSEQ_RSLT_IGNORE]\<rparr>"
    "nr_module c0 = 1" "length (modules c0) = 32"
    using b by (simp_all add: c0_def r_def request_async_def eval_defs Let_def booted_fields event_def)
  have r0: "reachable lock_tbl c0"
    unfolding c0_def
    by (rule reachable.more [OF boot_reachable [OF lock_table(4)] sys_step.async [OF prod.collapse [symmetric]]]) (simp add: readable_def)
  let ?ev = "event EV_START 1 1 0 COSEQ_RSLT_IGNORE"
  define c1 where "c1 = set_mod 0 (lock_module r (env_at 5 1) [?ev] []) c0"
  define c2 where "c2 = set_mod 0 (lock_module r (env_at 5 2) [] [?ev]) c1"
  have v: "valid_mod c0 0" "valid_mod c1 0" "nr_module c1 = 1" "get_mod c1 0 = lock_module r (env_at 5 1) [?ev] []"
    using m0 by (simp_all add: c1_def)
  have "sched_iter 0 c0 = ok (True, c1)" unfolding c1_def by (rule lock_turn [OF v(1) m0(2,1)])
  then have r1: "reachable lock_tbl c1" by (rule reachable_turn [OF r0 _ v(1)]) (simp add: m0 booted_fields)
  have "sched_iter 0 c1 = ok (True, c2)" unfolding c2_def by (rule lock_turn_defers [OF v(2-4)])
  then have r2: "reachable lock_tbl c2"
    by (rule reachable_turn [OF r1 _ v(2)]) (simp add: v(4) lock_module_def booted_fields)
  have m2: "get_mod c2 0 = lock_module r (env_at 5 2) [] [?ev]" "nr_module c2 = 1"
    using v by (simp_all add: c2_def)
  have still: "standstill c2"
    unfolding standstill_def
    using m2 by (auto simp: lock_module_def booted_fields sched_splice_def sched_wait_def nearest_deadline_def
        timer_eligible_def parked_def)
  have ok: "\<forall>j < length lock_tbl. all_ok (m_env (get_mod c2 j)) \<and> m_next_req_id (get_mod c2 j) \<le> 2 ^ 32"
    using m2 by (auto simp: lock_table(5) lock_module_def booted_fields all_ok_def env_at_def no_env_def)
  have p: "m_pending (get_mod c2 0) = [\<lparr>p_req_id = 1, p_f = 0\<rparr>]" by (simp add: m2 lock_module_def)
  from standstill_is_circular [OF r2 lock_table(1-3) ok still, of 0 "\<lparr>p_req_id = 1, p_f = 0\<rparr>"] p
  have "((0, 1), (0, 1)) \<in> (waits c2)\<^sup>+" by (auto simp: lock_table(5))
  with r2 p show ?thesis by blast
qed

end
