(* ===== verification/CoseqIntrude.thy ===== *)
theory CoseqIntrude
  imports CoseqLayers
begin

text \<open>
  The module lock and notifications: a notification is handled while a sequence of the module holds the
  lock, and a handler that uses the lock itself takes it away from the holder.
\<close>

section \<open>Two modules\<close>

text \<open>
  Module A has a sequence that subscribes and then works under the lock, another one, and a handler
  that locks as well; the sequences note what they do. Module B registers its clients, answers and notifies.
\<close>

definition jot :: "int \<Rightarrow> seq_prog \<Rightarrow> seq_prog" where
  "jot n p = Access (\<lambda>u. u(''log'' := u ''log'' @ [n])) (\<lambda>_. p)"

definition section_rest :: seq_prog where
  "section_rest = jot 2 (Unlock (Reply COSEQ_RSLT_SUCCESS None 0 Return))"

definition locked_section :: seq_prog where
  "locked_section = Lock (jot 1 (Request 1 1 None 0 (\<lambda>_. section_rest)))"

definition holder_seq :: seq_prog where
  "holder_seq = Request 1 0 None 0 (\<lambda>_. locked_section)"

definition intrude_tbl :: "coseq_reg_t list" where
  "intrude_tbl = [\<lparr>r_name = Some ''a'', r_nr_que_max = 4,
     r_seq_array = [seq_entry holder_seq ''holder'', seq_entry (jot 3 (Reply COSEQ_RSLT_SUCCESS None 0 Return)) ''other''],
     r_nr_seq_max = 2, r_recv_notify = Some (Lock (Unlock Return)), r_user = 0\<rparr>,
    \<lparr>r_name = Some ''b'', r_nr_que_max = 4,
     r_seq_array = [seq_entry (Reg_notify 0 (\<lambda>_. Reply COSEQ_RSLT_SUCCESS None 0 Return)) ''register'',
       seq_entry (Reply COSEQ_RSLT_SUCCESS None 0 Return) ''answer'',
       seq_entry (Notify 0 None 0 (\<lambda>_. Reply COSEQ_RSLT_SUCCESS None 0 Return)) ''tick''],
     r_nr_seq_max = 3, r_recv_notify = None, r_user = 0\<rparr>]"

lemma intrude_length: "length intrude_tbl = 2" "length intrude_tbl \<le> MAX_MODULE"
  by (simp_all add: intrude_tbl_def MAX_MODULE_def)

section \<open>The run\<close>

definition pair :: "coseq_ctx_private \<Rightarrow> int list \<Rightarrow> u32 \<Rightarrow> u8 \<Rightarrow> (env \<Rightarrow> module_t) \<Rightarrow> (env \<Rightarrow> module_t) \<Rightarrow> bool" where
  "pair c lg n nid a b \<longleftrightarrow> nr_module c = 2 \<and> length (modules c) = 32 \<and> user_mem c ''log'' = lg \<and> ext_id c = n \<and>
     ext_wait_rid c = - 1 \<and> next_client_id c = nid \<and>
     (\<exists>x y. get_mod c 0 = a (env_at x y)) \<and> (\<exists>x y. get_mod c (Suc 0) = b (env_at x y))"

lemma pairE:
  assumes "pair c lg n nid a b"
  obtains x y x' y' where "nr_module c = 2" "length (modules c) = 32" "user_mem c ''log'' = lg" "ext_id c = n"
    "ext_wait_rid c = - 1" "next_client_id c = nid" "get_mod c 0 = a (env_at x y)" "get_mod c (Suc 0) = b (env_at x' y')"
  using assms by (auto simp: pair_def)

lemma env_at_eq: "no_env\<lparr>lib_calls := x, clock_reads := y\<rparr> = env_at x y"
  "\<exists>x' y'. no_env\<lparr>lib_calls := x, clock_reads := y\<rparr> = no_env\<lparr>lib_calls := x', clock_reads := y'\<rparr>"
  by (auto simp: env_at_def)

definition holder_fiber :: "ucontext_t \<Rightarrow> u32 \<Rightarrow> fiber_t" where
  "holder_fiber k r = (parked 0 ''holder'' EXTERNAL 1 holder_seq k)\<lparr>f_waiting_reply := True, f_wait_req_id := r\<rparr>"

definition intrude_a :: "ev_t list \<Rightarrow> env \<Rightarrow> module_t" where
  "intrude_a evs en = (booted 0 (intrude_tbl ! 0) en)\<lparr>m_inbox := evs\<rparr>"

definition asking_a :: "ev_t list \<Rightarrow> env \<Rightarrow> module_t" where
  "asking_a evs en = (booted 0 (intrude_tbl ! 0) en)\<lparr>m_inbox := evs, m_pending := [\<lparr>p_req_id = 1, p_f = 0\<rparr>],
     m_fibers := [holder_fiber (After_request (\<lambda>_. locked_section)) 1], m_next_req_id := 2, m_next_fptr := 1\<rparr>"

definition intrude_b :: "nat \<Rightarrow> notify_client_t list \<Rightarrow> ev_t list \<Rightarrow> env \<Rightarrow> module_t" where
  "intrude_b p ncs evs en = (booted 1 (intrude_tbl ! 1) en)\<lparr>m_inbox := evs, m_notify_clients := ncs, m_next_fptr := p\<rparr>"

definition listener_a :: notify_client_t where
  "listener_a = \<lparr>nc_category = 0, nc_listener_module = 0, nc_client_id = 0\<rparr>"

definition tick_ev :: ev_t where
  "tick_ev = \<lparr>e_type = EV_NOTIFY, e_seq_idx = 0, e_req_id = 0, e_requester = 1, e_result = COSEQ_RSLT_SUCCESS,
     e_category = 0, e_client_id = 0, e_msg = None, e_msg_size = 0\<rparr>"

lemmas intrude_defs = intrude_tbl_def holder_seq_def locked_section_def section_rest_def jot_def module_defs parked_def
  holder_fiber_def intrude_a_def asking_a_def intrude_b_def listener_a_def tick_ev_def
  coseq_reg_notify_def coseq_notify_def notify_one_def

abbreviation start_from_outside :: "u8 \<Rightarrow> u32 \<Rightarrow> ev_t" where
  "start_from_outside s r \<equiv> event EV_START s r EXTERNAL COSEQ_RSLT_IGNORE"

lemma intrude_turn_0:
  assumes "pair c [] n nid (intrude_a [start_from_outside 0 1]) (intrude_b 0 [] [])"
  shows "\<exists>c'. sched_iter 0 c = ok (True, c') \<and>
    pair c' [] n nid (asking_a []) (intrude_b 0 [] [event EV_START 0 1 0 COSEQ_RSLT_IGNORE])"
  by (rule pairE [OF assms]) (simp add: pair_def intrude_defs eval_defs Let_def word_facts env_at_eq(2))

lemma intrude_turn_1:
  assumes "pair c [] n 0 (asking_a []) (intrude_b 0 [] [event EV_START 0 1 0 COSEQ_RSLT_IGNORE])"
  shows "\<exists>c'. sched_iter 1 c = ok (True, c') \<and>
    pair c' [] n 1 (asking_a [event EV_REPLY 0 1 1 COSEQ_RSLT_SUCCESS]) (intrude_b 1 [listener_a] [])"
  by (rule pairE [OF assms]) (simp add: pair_def intrude_defs eval_defs Let_def word_facts env_at_eq(2))

lemma intrude_turn_2:
  assumes "pair c [] n 1 (asking_a evs) (intrude_b 1 [listener_a] [start_from_outside 2 2])"
  shows "\<exists>c'. sched_iter 1 c = ok (True, c') \<and> pair c' [] n 1 (asking_a (evs @ [tick_ev])) (intrude_b 2 [listener_a] [])"
  by (rule pairE [OF assms]) (simp add: pair_def intrude_defs eval_defs Let_def word_facts env_at_eq(2))

text \<open>In one batch the holder takes the lock and waits, the handler runs, and the other sequence runs.\<close>

lemma intrude_turn_3:
  assumes "pair c [] n 1 (asking_a [event EV_REPLY 0 1 1 COSEQ_RSLT_SUCCESS, tick_ev, start_from_outside 1 3]) b"
  shows "\<exists>c' f. sched_iter 0 c = ok (True, c') \<and> user_mem c' ''log'' = [1, 3] \<and> m_fibers (get_mod c' 0) = [f] \<and>
    f_waiting_reply f \<and> f_ctx f = After_request (\<lambda>_. section_rest) \<and> m_locked_by (get_mod c' 0) = None"
  by (rule pairE [OF assms]) (simp add: pair_def intrude_defs eval_defs Let_def word_facts env_at_eq(2))

text \<open>The calls from outside in between.\<close>

lemma intrude_calls:
  "pair c lg n nid (intrude_a evs) b \<Longrightarrow>
    pair (fst (request_async c 0 s None 0 no_env)) lg (n + 1) nid (intrude_a (evs @ [start_from_outside s n])) b"
  "pair c lg n nid (asking_a evs) b \<Longrightarrow>
    pair (fst (request_async c 0 s None 0 no_env)) lg (n + 1) nid (asking_a (evs @ [start_from_outside s n])) b"
  "pair c lg n nid a (intrude_b p ncs evs) \<Longrightarrow>
    pair (fst (request_async c 1 s None 0 no_env)) lg (n + 1) nid a (intrude_b p ncs (evs @ [start_from_outside s n]))"
  by (erule pairE, simp add: pair_def request_async_def intrude_defs eval_defs Let_def, blast)+

lemma reachable_async:
  assumes "reachable tbl c"
  shows "reachable tbl (fst (request_async c mi s None 0 no_env))"
  by (rule reachable.more [OF assms sys_step.async [OF prod.collapse [symmetric]]]) (simp add: readable_def)

lemma pair_turn:
  assumes "reachable tbl c" and "sched_iter i c = ok (b, c')" and "pair c lg n nid F G" and "i = 0 \<or> i = 1"
    and "\<And>en. m_th_started (F en)" "\<And>en. m_th_started (G en)"
  shows "reachable tbl c'"
  using assms(4-6) by (rule_tac pairE [OF assms(3)], rule_tac reachable_turn [OF assms(1,2)]) auto

lemma intrude_begins: "pair (boot intrude_tbl) [] 1 0 (intrude_a []) (intrude_b 0 [] [])"
proof -
  have e: "no_env = env_at 0 0" by (simp add: env_at_def no_env_def)
  have two: "create_threads 2 i nr c en = create_threads (Suc (Suc 0)) i nr c en" for i nr c en
    by (simp add: numeral_2_eq_2)
  have f: "user_mem (boot intrude_tbl) = (\<lambda>_. [])" "ext_id (boot intrude_tbl) = 1"
    "ext_wait_rid (boot intrude_tbl) = - 1" "next_client_id (boot intrude_tbl) = 0"
    by (simp_all add: boot_def coseq_setup_def intrude_tbl_def init_modules_Cons no_env_def lib_call_def fresh_ctx_def
        zero_ctx_def Let_def MAX_MODULE_def two)
  have m: "booted 0 (intrude_tbl ! 0) no_env = intrude_a [] (env_at 0 0)"
    "booted (Suc 0) (intrude_tbl ! Suc 0) no_env = intrude_b 0 [] [] (env_at 0 0)"
    by (simp_all add: e [symmetric] intrude_a_def intrude_b_def booted_def inited_def load_module_def zero_module_def)
  show ?thesis
    using boot_simps [OF intrude_length(2)] f
    by (simp add: pair_def intrude_length MAX_MODULE_def m) blast
qed

lemma intrude_fields:
  "m_th_started (intrude_a evs en)" "m_th_started (asking_a evs en)" "m_th_started (intrude_b p ncs evs en)"
  by (simp_all add: intrude_a_def asking_a_def intrude_b_def booted_def)

text \<open>
  C12: The lock of a module can be taken away from its holder. Notifications are handled while the
  module is locked, and \<open>coseq_lock\<close> does not look whether another fiber holds the lock: a handler that
  locks and unlocks leaves the module unlocked. In this run a sequence has entered its locked section
  (1) and waits inside it for a reply, the handler has run, and another sequence of the module has
  run as well (3), which the lock should have put off; the holder is still inside its section.
\<close>

theorem notification_breaks_lock:
  "\<exists>c f. reachable intrude_tbl c \<and> user_mem c ''log'' = [1, 3] \<and> m_fibers (get_mod c 0) = [f] \<and>
    f_waiting_reply f \<and> f_ctx f = After_request (\<lambda>_. section_rest) \<and> m_locked_by (get_mod c 0) = None"
proof -
  let ?call = "\<lambda>c mi s. fst (request_async c mi s None 0 no_env)"
  have r1: "reachable intrude_tbl (?call (boot intrude_tbl) 0 0)"
    by (rule reachable_async [OF boot_reachable [OF intrude_length(2)]])
  have p1: "pair (?call (boot intrude_tbl) 0 0) [] 2 0 (intrude_a [start_from_outside 0 1]) (intrude_b 0 [] [])"
    using intrude_calls(1) [OF intrude_begins, where s = 0] by simp
  obtain c2 where s2: "sched_iter 0 (?call (boot intrude_tbl) 0 0) = ok (True, c2)"
    and p2: "pair c2 [] 2 0 (asking_a []) (intrude_b 0 [] [event EV_START 0 1 0 COSEQ_RSLT_IGNORE])"
    using intrude_turn_0 [OF p1] by blast
  have r2: "reachable intrude_tbl c2" by (rule pair_turn [OF r1 s2 p1]) (simp_all add: intrude_fields)
  obtain c3 where s3: "sched_iter 1 c2 = ok (True, c3)"
    and p3: "pair c3 [] 2 1 (asking_a [event EV_REPLY 0 1 1 COSEQ_RSLT_SUCCESS]) (intrude_b 1 [listener_a] [])"
    using intrude_turn_1 [OF p2] by blast
  have r3: "reachable intrude_tbl (?call c3 1 2)"
    by (rule reachable_async, rule pair_turn [OF r2 s3 p2]) (simp_all add: intrude_fields)
  have p4: "pair (?call c3 1 2) [] 3 1 (asking_a [event EV_REPLY 0 1 1 COSEQ_RSLT_SUCCESS])
      (intrude_b 1 [listener_a] [start_from_outside 2 2])"
    using intrude_calls(3) [OF p3, where s = 2] by simp
  obtain c5 where s5: "sched_iter 1 (?call c3 1 2) = ok (True, c5)"
    and p5: "pair c5 [] 3 1 (asking_a ([event EV_REPLY 0 1 1 COSEQ_RSLT_SUCCESS] @ [tick_ev])) (intrude_b 2 [listener_a] [])"
    using intrude_turn_2 [OF p4] by blast
  have r5: "reachable intrude_tbl (?call c5 0 1)"
    by (rule reachable_async, rule pair_turn [OF r3 s5 p4]) (simp_all add: intrude_fields)
  have p6: "pair (?call c5 0 1) [] 4 1 (asking_a [event EV_REPLY 0 1 1 COSEQ_RSLT_SUCCESS, tick_ev, start_from_outside 1 3])
      (intrude_b 2 [listener_a] [])"
    using intrude_calls(2) [OF p5, where s = 1] by simp
  obtain c7 f where s7: "sched_iter 0 (?call c5 0 1) = ok (True, c7)" and c7: "user_mem c7 ''log'' = [1, 3]"
    "m_fibers (get_mod c7 0) = [f]" "f_waiting_reply f" "f_ctx f = After_request (\<lambda>_. section_rest)"
    "m_locked_by (get_mod c7 0) = None"
    using intrude_turn_3 [OF p6] by blast
  have "reachable intrude_tbl c7" by (rule pair_turn [OF r5 s7 p6]) (simp_all add: intrude_fields)
  with c7 show ?thesis by blast
qed

end
