(* ===== verification/CoseqLists.thy ===== *)
theory CoseqLists
  imports CoseqSched
begin

text \<open>
  The lists of the C code as it keeps them: nodes linked through their \<open>next\<close> fields, a head and, for
  the queues, a tail. The pointer code that appends, splices and unlinks refines the list
  operations of the model, and its loops end.
\<close>

section \<open>Linked nodes\<close>

type_synonym node = nat

text \<open>\<open>linked nx p xs\<close>: following the \<open>next\<close> fields from \<open>p\<close> visits \<open>xs\<close> and ends with a null pointer.\<close>

fun linked :: "(node \<Rightarrow> node option) \<Rightarrow> node option \<Rightarrow> node list \<Rightarrow> bool" where
  "linked nx p [] = (p = None)"
| "linked nx p (x # xs) = (p = Some x \<and> linked nx (nx x) xs)"

lemma linked_outside [simp]: "x \<notin> set xs \<Longrightarrow> linked (nx(x := q)) p xs = linked nx p xs"
  by (induction xs arbitrary: p) auto

lemma linked_append:
  "linked nx p (xs @ [x]) \<Longrightarrow> x \<notin> set xs \<Longrightarrow> linked nx (Some y) ys \<Longrightarrow> x \<notin> set ys \<Longrightarrow>
    linked (nx(x := Some y)) p (xs @ x # ys)"
  by (induction xs arbitrary: p) auto

lemma linked_end: "linked nx p (xs @ [x]) \<Longrightarrow> nx x = None"
  by (induction xs arbitrary: p) auto

section \<open>Queues\<close>

record queue_ptr =
  q_head :: "node option"
  q_tail :: "node option"

definition queue_rep :: "(node \<Rightarrow> node option) \<Rightarrow> queue_ptr \<Rightarrow> node list \<Rightarrow> bool" where
  "queue_rep nx q xs \<longleftrightarrow> linked nx (q_head q) xs \<and> distinct xs \<and>
     q_tail q = (if xs = [] then None else Some (last xs))"

text \<open>The code of \<open>post\<close> between its lock and its signal, which \<open>defer_ev\<close> shares.\<close>

definition enqueue_ptr ::
    "node \<Rightarrow> (node \<Rightarrow> node option) \<times> queue_ptr \<Rightarrow> (node \<Rightarrow> node option) \<times> queue_ptr" where
  "enqueue_ptr e s =
     (let (nx, q) = s;
          nx1 = nx(e := None);
          (nx2, q1) = (case q_tail q of
              Some t \<Rightarrow> (nx1(t := Some e), q)
            | None \<Rightarrow> (nx1, q\<lparr>q_head := Some e\<rparr>))
      in (nx2, q1\<lparr>q_tail := Some e\<rparr>))"

text \<open>The splice at the top of \<open>sched_loop\<close>; \<open>dq\<close> is the queue of deferred events.\<close>

definition splice_ptr ::
    "(node \<Rightarrow> node option) \<Rightarrow> queue_ptr \<Rightarrow> queue_ptr \<Rightarrow> (node \<Rightarrow> node option) \<times> queue_ptr \<times> queue_ptr"
where
  "splice_ptr nx dq iq =
     (let nx1 = (case q_tail dq of Some t \<Rightarrow> nx(t := q_head iq) | None \<Rightarrow> nx);
          iq1 = iq\<lparr>q_head := q_head dq\<rparr>;
          iq2 = (if q_tail iq1 = None then iq1\<lparr>q_tail := q_tail dq\<rparr> else iq1)
      in (nx1, \<lparr>q_head = None, q_tail = None\<rparr>, iq2))"

lemma enqueue_rep:
  assumes "queue_rep nx q xs" and "e \<notin> set xs" and "enqueue_ptr e (nx, q) = (nx', q')"
  shows "queue_rep nx' q' (xs @ [e])"
proof (cases xs rule: rev_cases)
  case Nil
  with assms show ?thesis by (auto simp: queue_rep_def enqueue_ptr_def)
next
  case (snoc ys y)
  have y: "y \<noteq> e" "y \<notin> set ys" "e \<notin> set ys" using assms(1,2) snoc by (auto simp: queue_rep_def)
  have "linked (nx(e := None)) (q_head q) (ys @ [y])"
    using assms(1) snoc y by (simp add: queue_rep_def)
  then have "linked ((nx(e := None))(y := Some e)) (q_head q) (ys @ y # [e])"
    by (rule linked_append) (use y in auto)
  with assms snoc y show ?thesis by (auto simp: queue_rep_def enqueue_ptr_def)
qed

lemma splice_rep:
  assumes "queue_rep nx dq ys" and "queue_rep nx iq xs" and "ys \<noteq> []" and "set xs \<inter> set ys = {}"
    and "splice_ptr nx dq iq = (nx', dq', iq')"
  shows "queue_rep nx' iq' (ys @ xs)" and "queue_rep nx' dq' []"
proof -
  obtain zs z where ys: "ys = zs @ [z]" using assms(3) rev_exhaust by blast
  have z: "z \<notin> set zs" "z \<notin> set xs" using assms(1,4) ys by (auto simp: queue_rep_def)
  have tail: "q_tail dq = Some z" using assms(1) ys by (simp add: queue_rep_def)
  have "linked (nx(z := q_head iq)) (q_head dq) (zs @ z # xs)"
  proof (cases xs)
    case Nil
    then have "q_head iq = None" using assms(2) by (simp add: queue_rep_def)
    moreover have "nx z = None" using assms(1) ys linked_end by (auto simp: queue_rep_def)
    ultimately have "nx(z := q_head iq) = nx" by auto
    then show ?thesis using assms(1) ys Nil by (simp add: queue_rep_def)
  next
    case (Cons x xs')
    then have h: "q_head iq = Some x" "linked nx (Some x) xs" using assms(2) by (auto simp: queue_rep_def)
    show ?thesis unfolding h(1)
      by (rule linked_append) (use assms(1) ys h(2) z in \<open>auto simp: queue_rep_def\<close>)
  qed
  then show "queue_rep nx' iq' (ys @ xs)"
    using assms ys tail by (auto simp: queue_rep_def splice_ptr_def Let_def)
  show "queue_rep nx' dq' []" using assms(5) by (auto simp: queue_rep_def splice_ptr_def Let_def)
qed

text \<open>
  C33: The queues are implemented right. Appending a new node with the head and tail pointers, as \<open>post\<close> and
  \<open>defer_ev\<close> do, turns a representation of an inbox into one of the inbox with the event at its end,
  whether it was empty or not.
\<close>

theorem enqueue_refines_inbox_put:
  assumes "queue_rep nx q xs" and "map ev xs = m_inbox m" and "e \<notin> set xs"
    and "enqueue_ptr e (nx, q) = (nx', q')"
  shows "\<exists>xs'. queue_rep nx' q' xs' \<and> map ev xs' = m_inbox (inbox_put m (ev e)) \<and>
    (\<forall>x. x \<notin> set xs' \<longrightarrow> nx' x = nx x)"
proof -
  have "nx' x = nx x" if "x \<notin> set (xs @ [e])" for x
    using that assms(1,4) by (cases xs rule: rev_cases) (auto simp: enqueue_ptr_def queue_rep_def)
  then show ?thesis
    using enqueue_rep [OF assms(1,3,4)] assms(2)
    by (intro exI [of _ "xs @ [e]"]) (simp add: inbox_put_def)
qed

lemma enqueue_refines_inbox_put_witness:
  "\<exists>nx' q'. enqueue_ptr 8 ((\<lambda>_. None), \<lparr>q_head = Some 5, q_tail = Some 5\<rparr>) = (nx', q') \<and> queue_rep nx' q' [5, 8]"
proof -
  let ?nx = "\<lambda>_ :: node. None :: node option" and ?q = "\<lparr>q_head = Some 5, q_tail = Some 5\<rparr>"
  obtain nx' q' where st: "enqueue_ptr 8 (?nx, ?q) = (nx', q')" by fastforce
  have rep: "queue_rep ?nx ?q [5]" by (simp add: queue_rep_def)
  have "\<exists>xs'. queue_rep nx' q' xs' \<and> map (\<lambda>n. start_ev (of_nat n)) xs' =
      m_inbox (inbox_put (zero_module\<lparr>m_inbox := [start_ev 5]\<rparr>) (start_ev (of_nat 8))) \<and> (\<forall>x. x \<notin> set xs' \<longrightarrow> nx' x = None)"
    by (rule enqueue_refines_inbox_put [OF rep _ _ st]) simp_all
  then show ?thesis using st by (auto simp: enqueue_ptr_def queue_rep_def)
qed

text \<open>
  C34: The splice is implemented right. With a free lock and deferred events, the pointer code at the top of
  the scheduler's loop leaves an empty queue of deferred events and an inbox that holds them
  before what had arrived, exactly as the model's splice, also when the inbox was empty.
\<close>

theorem splice_refines_sched_splice:
  assumes "queue_rep nx dq ys" and "queue_rep nx iq xs" and "set xs \<inter> set ys = {}"
    and "map ev ys = m_deferred m" and "map ev xs = m_inbox m"
    and "m_locked_by m = None" and "m_deferred m \<noteq> []"
    and "splice_ptr nx dq iq = (nx', dq', iq')"
  shows "\<exists>is ds. queue_rep nx' iq' is \<and> map ev is = m_inbox (sched_splice m) \<and>
    queue_rep nx' dq' ds \<and> map ev ds = m_deferred (sched_splice m)"
proof -
  have "ys \<noteq> []" using assms(4,7) by auto
  from splice_rep [OF assms(1,2) this assms(3,8)] show ?thesis
    using assms(4-7) by (intro exI [of _ "ys @ xs"] exI [of _ "[]"]) (simp add: sched_splice_def)
qed

lemma splice_refines_sched_splice_witness:
  "\<exists>nx' dq' iq'. splice_ptr (\<lambda>_. None) \<lparr>q_head = Some 5, q_tail = Some 5\<rparr> \<lparr>q_head = None, q_tail = None\<rparr>
    = (nx', dq', iq') \<and> queue_rep nx' iq' [5] \<and> queue_rep nx' dq' []"
proof -
  let ?nx = "\<lambda>_ :: node. None :: node option"
  let ?d = "\<lparr>q_head = Some 5, q_tail = Some 5\<rparr>" and ?i = "\<lparr>q_head = None, q_tail = None\<rparr> :: queue_ptr"
  obtain nx' dq' iq' where st: "splice_ptr ?nx ?d ?i = (nx', dq', iq')" by (metis prod.exhaust)
  have rep: "queue_rep ?nx ?d [5]" "queue_rep ?nx ?i []" by (simp_all add: queue_rep_def)
  from splice_refines_sched_splice [OF rep _ _ _ _ _ st, of "\<lambda>n. start_ev 5"
      "zero_module\<lparr>m_deferred := [start_ev 5]\<rparr>"] st
  show ?thesis by (auto simp: splice_ptr_def queue_rep_def)
qed

section \<open>Walking with a pointer to a pointer\<close>

text \<open>
  \<open>pending_take\<close>, \<open>coseq_unreg_notify\<close> and \<open>reap_done\<close> (in CoseqHeap) walk a list with the address \<open>pp\<close> of the pointer
  that leads to the current node: the head's or that of the node before.
\<close>

datatype link = At_head | After_node node

record list_ptr =
  l_head :: "node option"
  l_next :: "node \<Rightarrow> node option"

definition deref :: "list_ptr \<Rightarrow> link \<Rightarrow> node option" where
  "deref l pp = (case pp of At_head \<Rightarrow> l_head l | After_node x \<Rightarrow> l_next l x)"

definition store :: "list_ptr \<Rightarrow> link \<Rightarrow> node option \<Rightarrow> list_ptr" where
  "store l pp q = (case pp of At_head \<Rightarrow> l\<lparr>l_head := q\<rparr>
     | After_node x \<Rightarrow> l\<lparr>l_next := (l_next l)(x := q)\<rparr>)"

text \<open>Unlinking the first node that satisfies \<open>hit\<close>: the loop may run for ever on a cyclic list.\<close>

partial_function (option) unlink_loop ::
    "(node \<Rightarrow> bool) \<Rightarrow> link \<Rightarrow> list_ptr \<Rightarrow> (node option \<times> list_ptr) option" where
  "unlink_loop hit pp l =
     (case deref l pp of
        None \<Rightarrow> Some (None, l)
      | Some x \<Rightarrow>
          if hit x then Some (Some x, store l pp (l_next l x))
          else unlink_loop hit (After_node x) l)"

text \<open>
  The list splits at \<open>pp\<close>: the nodes before it are linked, and \<open>pp\<close> leads to the rest.
\<close>

definition split_at :: "list_ptr \<Rightarrow> link \<Rightarrow> node list \<Rightarrow> node list \<Rightarrow> bool" where
  "split_at l pp xs ys \<longleftrightarrow> linked (l_next l) (l_head l) (xs @ ys) \<and> distinct (xs @ ys) \<and>
     pp = (if xs = [] then At_head else After_node (last xs))"

lemma linked_at: "linked nx p (xs @ ys) \<Longrightarrow> linked nx (if xs = [] then p else nx (last xs)) ys"
  by (induction xs arbitrary: p) (auto split: if_splits)

lemma split_deref:
  assumes "split_at l pp xs ys"
  shows "deref l pp = (case ys of [] \<Rightarrow> None | y # _ \<Rightarrow> Some y)"
    and "ys = y # zs \<Longrightarrow> linked (l_next l) (l_next l y) zs"
  using linked_at [of "l_next l" "l_head l" xs ys] assms
  by (auto simp: split_at_def deref_def split: list.splits if_splits)

lemma split_next: "split_at l pp xs (y # ys) \<Longrightarrow> split_at l (After_node y) (xs @ [y]) ys"
  by (simp add: split_at_def)

lemma split_store:
  assumes "split_at l pp xs (y # ys)"
  shows "split_at (store l pp (l_next l y)) pp xs ys"
proof (cases xs rule: rev_cases)
  case Nil
  with assms split_deref(2) [OF assms refl] show ?thesis
    by (simp add: split_at_def store_def)
next
  case (snoc ws w)
  have w: "w \<notin> set ws" "w \<notin> set ys" using assms snoc by (auto simp: split_at_def)
  have ys: "linked (l_next l) (l_next l y) ys" by (rule split_deref(2) [OF assms refl])
  have ws: "linked nx p (us @ w # vs) \<Longrightarrow> w \<notin> set us \<Longrightarrow> w \<notin> set zs \<Longrightarrow> linked nx q zs \<Longrightarrow>
      linked (nx(w := q)) p (us @ w # zs)" for nx p q us vs zs
    by (induction us arbitrary: p) auto
  have "linked ((l_next l)(w := l_next l y)) (l_head l) (ws @ w # ys)"
    by (rule ws [where vs = "y # ys"]) (use assms snoc w ys in \<open>auto simp: split_at_def\<close>)
  with assms snoc show ?thesis by (simp add: split_at_def store_def)
qed

lemma unlink_loop_result:
  assumes "split_at l pp xs ys"
  shows "\<exists>l'. unlink_loop hit pp l = Some (find hit ys, l') \<and>
    linked (l_next l') (l_head l') (xs @ remove_first hit ys)"
  using assms
proof (induction ys arbitrary: pp xs)
  case Nil
  then show ?case
    by (subst unlink_loop.simps) (use split_deref(1) [OF Nil] in \<open>auto simp: split_at_def\<close>)
next
  case (Cons y ys)
  note d = split_deref(1) [OF Cons.prems]
  show ?case
  proof (cases "hit y")
    case True
    have "linked (l_next (store l pp (l_next l y))) (l_head (store l pp (l_next l y))) (xs @ ys)"
      using split_store [OF Cons.prems] unfolding split_at_def by blast
    with True show ?thesis
      by (subst unlink_loop.simps) (use d in simp)
  next
    case False
    from Cons.IH [OF split_next [OF Cons.prems]] False show ?thesis
      by (subst unlink_loop.simps) (use d in simp)
  qed
qed

text \<open>
  C35: Taking an entry is implemented right. On an acyclic list that represents the table, the loop of
  \<open>pending_take\<close> ends, finds the first entry with the id or reports that there is none, and leaves
  a list that represents the table without that entry.
\<close>

theorem unlink_refines_pending_take:
  assumes "linked (l_next l) (l_head l) xs" and "distinct xs" and "map entry xs = m_pending m"
  shows "\<exists>hit l' xs'. unlink_loop (\<lambda>x. p_req_id (entry x) = r) At_head l = Some (hit, l') \<and>
    map_option (\<lambda>x. p_f (entry x)) hit = fst (pending_take m r) \<and>
    linked (l_next l') (l_head l') xs' \<and> map entry xs' = m_pending (snd (pending_take m r))"
proof -
  let ?hit = "\<lambda>x. p_req_id (entry x) = r"
  have "split_at l At_head [] xs" using assms by (simp add: split_at_def)
  from unlink_loop_result [OF this] obtain l' where
    "unlink_loop ?hit At_head l = Some (find ?hit xs, l')"
    "linked (l_next l') (l_head l') (remove_first ?hit xs)" by auto
  moreover have "map_option (\<lambda>x. p_f (entry x)) (find ?hit xs) = pending_find (map entry xs) r"
    "map entry (remove_first ?hit xs) = remove_first (\<lambda>p. p_req_id p = r) (map entry xs)"
    by (induction xs) auto
  ultimately show ?thesis using assms(3) by (auto simp: pending_take_def)
qed

lemma unlink_refines_pending_take_witness:
  "\<exists>hit l'. unlink_loop (\<lambda>x. p_req_id \<lparr>p_req_id = of_nat x, p_f = x\<rparr> = 6) At_head
     \<lparr>l_head = Some 5, l_next = (\<lambda>x. if x = 5 then Some 6 else None)\<rparr> = Some (hit, l') \<and> hit = Some 6"
proof -
  let ?l = "\<lparr>l_head = Some 5, l_next = (\<lambda>x. if x = 5 then Some 6 else None)\<rparr>"
  let ?e = "\<lambda>x :: node. \<lparr>p_req_id = of_nat x, p_f = x\<rparr>"
  have "linked (l_next ?l) (l_head ?l) [5, 6]" by simp
  from unlink_refines_pending_take [OF this, of ?e "zero_module\<lparr>m_pending := [?e 5, ?e 6]\<rparr>" 6]
  obtain hit l' where "unlink_loop (\<lambda>x. p_req_id (?e x) = 6) At_head ?l = Some (hit, l')"
    "map_option (\<lambda>x. p_f (?e x)) hit = Some 6"
    by (auto simp: pending_take_def)
  then show ?thesis by (cases hit) auto
qed

end
