(* ===== verification/CoseqHeap.thy ===== *)
theory CoseqHeap
  imports CoseqLists CoseqInstance
begin

text \<open>
  The blocks of memory the loops over linked nodes free: those of \<open>reap_done\<close> and those at the end of
  \<open>stop_modules\<close>. A block that is used or freed after it has been freed has no result, and neither has a loop that
  does not end; the loops are shown to have one, to free what they are to free, once, and nothing else.
\<close>

section \<open>Blocks\<close>

text \<open>The addresses of the blocks that are allocated.\<close>

type_synonym blocks = "node set"

definition somes :: "'a option list \<Rightarrow> 'a list" where
  "somes ps = concat (map (\<lambda>p. case p of None \<Rightarrow> [] | Some x \<Rightarrow> [x]) ps)"

lemma somes_simps [simp]: "somes [] = []" "somes (None # ps) = somes ps" "somes (Some x # ps) = x # somes ps"
  by (simp_all add: somes_def)

text \<open>\<open>free\<close>, one pointer after the other; a null pointer is left alone.\<close>

fun free_blocks :: "node option list \<Rightarrow> blocks \<Rightarrow> blocks option" where
  "free_blocks [] h = Some h"
| "free_blocks (None # ps) h = free_blocks ps h"
| "free_blocks (Some x # ps) h = (if x \<in> h then free_blocks ps (h - {x}) else None)"

lemma freed_twice [simp]: "(h :: blocks) - A - B = h - (A \<union> B)"
  by auto

lemma free_blocks_ok: "distinct (somes ps) \<Longrightarrow> set (somes ps) \<subseteq> h \<Longrightarrow> free_blocks ps h = Some (h - set (somes ps))"
proof (induction ps h rule: free_blocks.induct)
  case (3 x ps h)
  then have "free_blocks ps (h - {x}) = Some (h - {x} - set (somes ps))" by auto
  with 3 show ?case by (auto intro!: arg_cong [of _ _ Some])
qed simp_all

text \<open>
  The pointers in the structures at each address: \<open>next\<close> of all of them, \<open>msg\<close> of a queued reply or an event, and
  of a fiber its stack, the buffer of its source and the head of its queue of replies.
\<close>

record struct_ptrs =
  sp_next :: "node \<Rightarrow> node option"
  sp_msg :: "node \<Rightarrow> node option"
  sp_stack :: "node \<Rightarrow> node option"
  sp_src_buf :: "node \<Rightarrow> node option"
  sp_rq_head :: "node \<Rightarrow> node option"

text \<open>What is freed with a fiber, in the order of the code, and with a reply or an event.\<close>

definition fiber_parts :: "struct_ptrs \<Rightarrow> node \<Rightarrow> node option list" where
  "fiber_parts sp f = [sp_stack sp f, sp_src_buf sp f, Some f]"

definition msg_parts :: "struct_ptrs \<Rightarrow> node \<Rightarrow> node option list" where
  "msg_parts sp x = [sp_msg sp x, Some x]"

definition lone_part :: "node \<Rightarrow> node option list" where
  "lone_part x = [Some x]"

definition blocks_of :: "(node \<Rightarrow> node option list) \<Rightarrow> node list \<Rightarrow> node list" where
  "blocks_of parts xs = concat (map (\<lambda>x. somes (parts x)) xs)"

lemma blocks_of_simps [simp]: "blocks_of parts [] = []" "blocks_of parts (x # xs) = somes (parts x) @ blocks_of parts xs"
  by (simp_all add: blocks_of_def)

lemma in_somes [simp]: "x \<in> set (somes ps) \<longleftrightarrow> Some x \<in> set ps"
  by (auto simp: somes_def split: option.splits)

lemma own_block: "Some x \<in> set (fiber_parts sp x)" "Some x \<in> set (msg_parts sp x)" "Some x \<in> set (lone_part x)"
  by (simp_all add: fiber_parts_def msg_parts_def lone_part_def)

lemma in_blocks: "b \<in> set (blocks_of parts xs) \<longleftrightarrow> (\<exists>x \<in> set xs. Some b \<in> set (parts x))"
  by (auto simp: blocks_of_def)

lemma distinct_owners:
  assumes "\<And>x. Some x \<in> set (parts x)"
  shows "distinct (blocks_of parts xs) \<Longrightarrow> distinct xs"
proof (induction xs)
  case (Cons x xs)
  have "x \<notin> set xs"
  proof
    assume "x \<in> set xs"
    then have "x \<in> set (blocks_of parts xs)" using assms [of x] by (auto simp: blocks_of_def)
    with Cons.prems assms [of x] show False by auto
  qed
  with Cons show ?case by simp
qed simp

section \<open>The loop of \<open>reap_done\<close>\<close>

text \<open>
  \<open>lock\<close> is \<open>locked_by\<close> of the module, and \<open>fiber\<close> what the structures hold. After a fiber that is freed the loop
  goes on with the same \<open>pp\<close>.
\<close>

partial_function (option) reap_loop :: "(node \<Rightarrow> fiber_t) \<Rightarrow> struct_ptrs \<Rightarrow> link \<Rightarrow> list_ptr \<Rightarrow> node option \<Rightarrow> blocks
    \<Rightarrow> (list_ptr \<times> node option \<times> blocks) option" where
  "reap_loop fiber sp pp l lock h =
     (case deref l pp of
        None \<Rightarrow> Some (l, lock, h)
      | Some f \<Rightarrow>
          if f \<notin> h then None
          else if f_done (fiber f) then
            (case free_blocks (fiber_parts sp f) h of
               None \<Rightarrow> None
             | Some h1 \<Rightarrow> reap_loop fiber sp pp (store l pp (l_next l f)) (if lock = Some f then None else lock) h1)
          else reap_loop fiber sp (After_node f) l lock h)"

definition released_lock :: "(node \<Rightarrow> bool) \<Rightarrow> node list \<Rightarrow> node option \<Rightarrow> node option" where
  "released_lock gone ys lock = (if \<exists>y \<in> set ys. gone y \<and> lock = Some y then None else lock)"

lemma released_lock_simps: "released_lock gone [] lock = lock"
  "released_lock gone (y # ys) lock = released_lock gone ys (if gone y \<and> lock = Some y then None else lock)"
  by (auto simp: released_lock_def)

lemma reap_loop_result:
  assumes "split_at l pp xs ys" and "distinct (blocks_of (fiber_parts sp) ys)" and "set (blocks_of (fiber_parts sp) ys) \<subseteq> h"
  shows "\<exists>l'. reap_loop fiber sp pp l lock h =
      Some (l', released_lock (\<lambda>x. f_done (fiber x)) ys lock, (h - set (blocks_of (fiber_parts sp) (filter (\<lambda>x. f_done (fiber x)) ys)))) \<and>
    linked (l_next l') (l_head l') (xs @ filter (\<lambda>x. \<not> f_done (fiber x)) ys)"
  using assms
proof (induction ys arbitrary: l pp xs lock h)
  case Nil
  then show ?case
    by (subst reap_loop.simps) (use split_deref(1) [OF Nil(1)] in \<open>auto simp: split_at_def released_lock_simps\<close>)
next
  case (Cons y ys)
  note d = split_deref(1) [OF Cons.prems(1)]
  have y: "y \<in> h" using Cons.prems(3) own_block by auto
  show ?case
  proof (cases "f_done (fiber y)")
    case True
    have f: "free_blocks (fiber_parts sp y) h = Some (h - set (somes (fiber_parts sp y)))"
      by (rule free_blocks_ok) (use Cons.prems(2,3) in auto)
    have "distinct (blocks_of (fiber_parts sp) ys)"
      "set (blocks_of (fiber_parts sp) ys) \<subseteq> h - set (somes (fiber_parts sp y))"
      using Cons.prems(2,3) by (auto simp del: in_somes)
    from Cons.IH [OF split_store [OF Cons.prems(1)] this, of "if lock = Some y then None else lock"] True y f show ?thesis
      by (subst reap_loop.simps) (simp add: d released_lock_simps split del: if_split)
  next
    case False
    have "distinct (blocks_of (fiber_parts sp) ys)" "set (blocks_of (fiber_parts sp) ys) \<subseteq> h"
      using Cons.prems(2,3) by auto
    from Cons.IH [OF split_next [OF Cons.prems(1)] this, of lock] False y show ?thesis
      by (subst reap_loop.simps) (simp add: d released_lock_simps split del: if_split)
  qed
qed

text \<open>
  C36: Reaping is implemented right. On an acyclic list of the fibers of a module whose blocks are all allocated the loop
  of \<open>reap_done\<close> ends without using or freeing a block that has been freed. What it leaves represents the fibers that
  have not finished, in their order; the lock is released if a finished fiber held it, as in the model. Exactly the stack,
  the source buffer and the structure of each finished fiber have been freed. So the replies still queued
  with a finished fiber, to which nothing points any more, stay allocated.
\<close>

theorem reap_loop_refines_reap_done:
  assumes "linked (l_next l) (l_head l) xs" and "map fiber xs = m_fibers m" and "\<forall>x \<in> set xs. f_self (fiber x) = x"
    and "distinct (blocks_of (fiber_parts sp) xs @ concat (map (\<lambda>x. blocks_of (msg_parts sp) (rq x)) xs))"
    and "set (blocks_of (fiber_parts sp) xs @ concat (map (\<lambda>x. blocks_of (msg_parts sp) (rq x)) xs)) \<subseteq> h"
  shows "\<exists>l' h' xs'. reap_loop fiber sp At_head l (m_locked_by m) h = Some (l', m_locked_by (reap_done m), h') \<and>
    linked (l_next l') (l_head l') xs' \<and> map fiber xs' = m_fibers (reap_done m) \<and>
    (\<forall>b. b \<in> h' \<longleftrightarrow> b \<in> h \<and> (\<forall>x \<in> set xs. f_done (fiber x) \<longrightarrow> b \<noteq> x \<and> sp_stack sp x \<noteq> Some b \<and> sp_src_buf sp x \<noteq> Some b)) \<and>
    (\<forall>x \<in> set xs. \<forall>r \<in> set (rq x). r \<in> h' \<and> (\<forall>b. sp_msg sp r = Some b \<longrightarrow> b \<in> h'))"
proof -
  let ?gone = "\<lambda>x. f_done (fiber x)"
  let ?h' = "h - set (blocks_of (fiber_parts sp) (filter ?gone xs))"
  have "split_at l At_head [] xs"
    using assms(1,4) distinct_owners [of "fiber_parts sp" xs] own_block(1) by (simp add: split_at_def)
  from reap_loop_result [OF this, of sp h fiber "m_locked_by m"] assms(4,5) obtain l' where
    "reap_loop fiber sp At_head l (m_locked_by m) h = Some (l', released_lock ?gone xs (m_locked_by m), ?h')"
    "linked (l_next l') (l_head l') (filter (\<lambda>x. \<not> ?gone x) xs)" by auto
  moreover have "map fiber (filter (\<lambda>x. \<not> ?gone x) xs) = m_fibers (reap_done m)"
    by (simp add: reap_done_def assms(2) [symmetric] filter_map comp_def)
  moreover have "released_lock ?gone xs (m_locked_by m) = m_locked_by (reap_done m)"
    using assms(3) by (auto simp: released_lock_def reap_done_def assms(2) [symmetric] list_ex_iff)
  moreover have "b \<in> ?h' \<longleftrightarrow> b \<in> h \<and> (\<forall>x \<in> set xs. ?gone x \<longrightarrow> b \<noteq> x \<and> sp_stack sp x \<noteq> Some b \<and> sp_src_buf sp x \<noteq> Some b)" for b
    by (auto simp: in_blocks fiber_parts_def)
  moreover have "r \<in> ?h' \<and> (\<forall>b. sp_msg sp r = Some b \<longrightarrow> b \<in> ?h')" if "x \<in> set xs" "r \<in> set (rq x)" for x r
  proof -
    have "set (somes (msg_parts sp r)) \<subseteq> set (concat (map (\<lambda>x. blocks_of (msg_parts sp) (rq x)) xs))"
      using that by (fastforce simp: blocks_of_def)
    moreover have "set (blocks_of (fiber_parts sp) (filter ?gone xs)) \<subseteq> set (blocks_of (fiber_parts sp) xs)"
      by (auto simp: in_blocks)
    moreover have "set (blocks_of (fiber_parts sp) xs) \<inter> set (concat (map (\<lambda>x. blocks_of (msg_parts sp) (rq x)) xs)) = {}"
      "set (concat (map (\<lambda>x. blocks_of (msg_parts sp) (rq x)) xs)) \<subseteq> h"
      using assms(4,5) unfolding distinct_append by auto
    ultimately have "set (somes (msg_parts sp r)) \<subseteq> ?h'" by blast
    then show ?thesis using own_block(2) [of r sp] by (auto simp: msg_parts_def)
  qed
  ultimately show ?thesis
    by (intro exI [of _ l'] exI [of _ ?h'] exI [of _ "filter (\<lambda>x. \<not> ?gone x) xs"] conjI allI ballI) (assumption | metis)+
qed

text \<open>Fiber 5 has finished with a reply, at 9, still queued and holds the lock; fiber 6 goes on.\<close>

lemma reap_loop_refines_reap_done_witness:
  "\<exists>l' h'. reap_loop (\<lambda>x. blank_fiber\<lparr>f_self := x, f_done := (x = 5)\<rparr>)
       \<lparr>sp_next = \<lambda>_. None, sp_msg = \<lambda>_. None, sp_stack = \<lambda>x. Some (x + 10), sp_src_buf = \<lambda>_. None, sp_rq_head = \<lambda>x. if x = 5 then Some 9 else None\<rparr>
       At_head \<lparr>l_head = Some 5, l_next = (\<lambda>x. if x = 5 then Some 6 else None)\<rparr> (Some 5) {5, 6, 9, 15, 16} = Some (l', None, h') \<and>
     h' = {6, 9, 16}"
proof -
  let ?l = "\<lparr>l_head = Some 5, l_next = (\<lambda>x. if x = 5 then Some 6 else None)\<rparr>"
  let ?f = "\<lambda>x :: node. blank_fiber\<lparr>f_self := x, f_done := (x = 5)\<rparr>"
  let ?sp = "\<lparr>sp_next = \<lambda>_. None, sp_msg = \<lambda>_. None, sp_stack = \<lambda>x. Some (x + 10), sp_src_buf = \<lambda>_. None,
    sp_rq_head = \<lambda>x. if x = 5 then Some 9 else None\<rparr>"
  let ?m = "zero_module\<lparr>m_fibers := [?f 5, ?f 6], m_locked_by := Some 5\<rparr>"
  let ?rq = "\<lambda>x :: node. if x = 5 then [9] else []"
  have "linked (l_next ?l) (l_head ?l) [5, 6]" by simp
  from reap_loop_refines_reap_done [OF this, of ?f ?m ?sp ?rq "{5, 6, 9, 15, 16}"]
  show ?thesis by (auto simp: fiber_parts_def msg_parts_def reap_done_def)
qed

section \<open>The end of \<open>stop_modules\<close>\<close>

text \<open>
  The loops that read \<open>next\<close>, free what belongs to a node and go on: over the queued replies of a fiber, the
  pending requests, the registered clients and the two queues of events.
\<close>

partial_function (option) free_loop :: "(node \<Rightarrow> node option list) \<Rightarrow> struct_ptrs \<Rightarrow> node option \<Rightarrow> blocks \<Rightarrow> blocks option" where
  "free_loop parts sp p h =
     (case p of
        None \<Rightarrow> Some h
      | Some x \<Rightarrow>
          if x \<notin> h then None
          else (case free_blocks (parts x) h of
             None \<Rightarrow> None
           | Some h1 \<Rightarrow> free_loop parts sp (sp_next sp x) h1))"

text \<open>The loop over the fibers, with the loop over the replies in it.\<close>

partial_function (option) free_fibers :: "struct_ptrs \<Rightarrow> node option \<Rightarrow> blocks \<Rightarrow> blocks option" where
  "free_fibers sp p h =
     (case p of
        None \<Rightarrow> Some h
      | Some f \<Rightarrow>
          if f \<notin> h then None
          else (case free_loop (msg_parts sp) sp (sp_rq_head sp f) h of
             None \<Rightarrow> None
           | Some h1 \<Rightarrow> (case free_blocks (fiber_parts sp f) h1 of
               None \<Rightarrow> None
             | Some h2 \<Rightarrow> free_fibers sp (sp_next sp f) h2)))"

text \<open>The heads of the lists of a module, and the body of the last loop, up to the mutex.\<close>

record module_heads =
  mh_fibers :: "node option"
  mh_pending :: "node option"
  mh_clients :: "node option"
  mh_inbox :: "node option"
  mh_deferred :: "node option"

definition free_lists :: "struct_ptrs \<Rightarrow> module_heads \<Rightarrow> blocks \<Rightarrow> blocks option" where
  "free_lists sp mh h =
     (case free_fibers sp (mh_fibers mh) h of None \<Rightarrow> None | Some h1 \<Rightarrow>
     (case free_loop lone_part sp (mh_pending mh) h1 of None \<Rightarrow> None | Some h2 \<Rightarrow>
     (case free_loop lone_part sp (mh_clients mh) h2 of None \<Rightarrow> None | Some h3 \<Rightarrow>
     (case free_loop (msg_parts sp) sp (mh_inbox mh) h3 of None \<Rightarrow> None | Some h4 \<Rightarrow>
      free_loop (msg_parts sp) sp (mh_deferred mh) h4))))"

lemma free_loop_result:
  assumes "linked (sp_next sp) p xs" and "\<And>x. Some x \<in> set (parts x)"
    and "distinct (blocks_of parts xs)" and "set (blocks_of parts xs) \<subseteq> h"
  shows "free_loop parts sp p h = Some (h - set (blocks_of parts xs))"
  using assms(1,3,4)
proof (induction xs arbitrary: p h)
  case Nil
  then show ?case by (subst free_loop.simps) simp
next
  case (Cons x xs)
  have "free_blocks (parts x) h = Some (h - set (somes (parts x)))"
    by (rule free_blocks_ok) (use Cons.prems(2,3) in auto)
  moreover have "free_loop parts sp (sp_next sp x) (h - set (somes (parts x))) =
      Some ((h - set (somes (parts x))) - set (blocks_of parts xs))"
    by (rule Cons.IH) (use Cons.prems in auto)
  moreover have "x \<in> h" using Cons.prems(3) assms(2) [of x] by auto
  ultimately show ?case using Cons.prems(1) by (subst free_loop.simps) simp
qed

text \<open>A fiber with its queue, whose nodes are \<open>rq x\<close>.\<close>

definition fiber_blocks :: "struct_ptrs \<Rightarrow> (node \<Rightarrow> node list) \<Rightarrow> node list \<Rightarrow> node list" where
  "fiber_blocks sp rq xs = concat (map (\<lambda>x. blocks_of (msg_parts sp) (rq x) @ somes (fiber_parts sp x)) xs)"

lemma fiber_blocks_simps [simp]: "fiber_blocks sp rq [] = []"
  "fiber_blocks sp rq (x # xs) = blocks_of (msg_parts sp) (rq x) @ somes (fiber_parts sp x) @ fiber_blocks sp rq xs"
  by (simp_all add: fiber_blocks_def)

lemma free_fibers_result:
  assumes "linked (sp_next sp) p xs" and "\<forall>x \<in> set xs. linked (sp_next sp) (sp_rq_head sp x) (rq x)"
    and "distinct (fiber_blocks sp rq xs)" and "set (fiber_blocks sp rq xs) \<subseteq> h"
  shows "free_fibers sp p h = Some (h - set (fiber_blocks sp rq xs))"
  using assms
proof (induction xs arbitrary: p h)
  case Nil
  then show ?case by (subst free_fibers.simps) simp
next
  case (Cons x xs)
  let ?h1 = "h - set (blocks_of (msg_parts sp) (rq x))"
  have "free_loop (msg_parts sp) sp (sp_rq_head sp x) h = Some ?h1"
    by (rule free_loop_result) (use Cons.prems own_block(2) in auto)
  moreover have "free_blocks (fiber_parts sp x) ?h1 = Some (?h1 - set (somes (fiber_parts sp x)))"
    by (rule free_blocks_ok) (use Cons.prems(3,4) in auto)
  moreover have "free_fibers sp (sp_next sp x) (?h1 - set (somes (fiber_parts sp x))) =
      Some ((?h1 - set (somes (fiber_parts sp x))) - set (fiber_blocks sp rq xs))"
    by (rule Cons.IH) (use Cons.prems in auto)
  moreover have "x \<in> h" using Cons.prems(4) own_block(1) [of x sp] by auto
  ultimately show ?case using Cons.prems(1) by (subst free_fibers.simps) (simp add: Un_assoc)
qed

text \<open>The nodes of the lists of a module, and all its blocks.\<close>

record module_nodes =
  mn_fibers :: "node list"
  mn_rq :: "node \<Rightarrow> node list"
  mn_pending :: "node list"
  mn_clients :: "node list"
  mn_inbox :: "node list"
  mn_deferred :: "node list"

definition module_blocks :: "struct_ptrs \<Rightarrow> module_nodes \<Rightarrow> node list" where
  "module_blocks sp mn = fiber_blocks sp (mn_rq mn) (mn_fibers mn) @ blocks_of lone_part (mn_pending mn) @
     blocks_of lone_part (mn_clients mn) @ blocks_of (msg_parts sp) (mn_inbox mn) @ blocks_of (msg_parts sp) (mn_deferred mn)"

definition heads_rep :: "struct_ptrs \<Rightarrow> module_heads \<Rightarrow> module_nodes \<Rightarrow> bool" where
  "heads_rep sp mh mn \<longleftrightarrow> linked (sp_next sp) (mh_fibers mh) (mn_fibers mn) \<and>
     (\<forall>x \<in> set (mn_fibers mn). linked (sp_next sp) (sp_rq_head sp x) (mn_rq mn x)) \<and>
     linked (sp_next sp) (mh_pending mh) (mn_pending mn) \<and> linked (sp_next sp) (mh_clients mh) (mn_clients mn) \<and>
     linked (sp_next sp) (mh_inbox mh) (mn_inbox mn) \<and> linked (sp_next sp) (mh_deferred mh) (mn_deferred mn)"

text \<open>
  The loops of \<open>stop_modules\<close> end and free every block of a module once, those in a fiber and those of its
  queued replies included: that is what \<open>free_module\<close> stands for, which leaves all lists empty.
\<close>

lemma free_lists_frees_module:
  assumes "heads_rep sp mh mn" and "distinct (module_blocks sp mn)" and "set (module_blocks sp mn) \<subseteq> h"
  shows "free_lists sp mh h = Some (h - set (module_blocks sp mn))"
proof -
  let ?f = "fiber_blocks sp (mn_rq mn) (mn_fibers mn)" and ?p = "blocks_of lone_part (mn_pending mn)"
    and ?c = "blocks_of lone_part (mn_clients mn)" and ?i = "blocks_of (msg_parts sp) (mn_inbox mn)"
  note d = assms(2,3) [unfolded module_blocks_def]
  have "free_fibers sp (mh_fibers mh) h = Some (h - set ?f)"
    by (rule free_fibers_result) (use assms(1) d in \<open>auto simp: heads_rep_def\<close>)
  moreover have "free_loop lone_part sp (mh_pending mh) (h - set ?f) = Some ((h - set ?f) - set ?p)"
    by (rule free_loop_result) (use assms(1) d own_block(3) in \<open>auto simp: heads_rep_def\<close>)
  moreover have "free_loop lone_part sp (mh_clients mh) (h - set (?f @ ?p)) = Some ((h - set (?f @ ?p)) - set ?c)"
    by (rule free_loop_result) (use assms(1) d own_block(3) in \<open>auto simp: heads_rep_def\<close>)
  moreover have "free_loop (msg_parts sp) sp (mh_inbox mh) (h - set ((?f @ ?p) @ ?c)) = Some ((h - set ((?f @ ?p) @ ?c)) - set ?i)"
    by (rule free_loop_result) (use assms(1) d own_block(2) in \<open>auto simp: heads_rep_def\<close>)
  moreover have "free_loop (msg_parts sp) sp (mh_deferred mh) (h - set (((?f @ ?p) @ ?c) @ ?i)) =
      Some ((h - set (((?f @ ?p) @ ?c) @ ?i)) - set (blocks_of (msg_parts sp) (mn_deferred mn)))"
    by (rule free_loop_result) (use assms(1) d own_block(2) in \<open>auto simp: heads_rep_def\<close>)
  ultimately show ?thesis by (simp add: free_lists_def module_blocks_def Un_assoc)
qed

end
