(* ===== verification/CoseqCounter.thy ===== *)
theory CoseqCounter
  imports CoseqSystem
begin

text \<open>
  The counter of outstanding requests of a fiber is a C \<open>int\<close>, and an \<open>int\<close> without bounds in the model. It never
  exceeds the number of requests its module has made, so the two agree as long as a module has made fewer than
  \<open>2 ^ 31\<close> of them.
\<close>

definition counted :: "module_t \<Rightarrow> bool" where
  "counted m \<longleftrightarrow> (\<forall>f \<in> set (m_fibers m). f_async_outstanding f \<le> int (m_next_req_id m))"

lemma switched_less: "f_async_outstanding (switched f) \<le> f_async_outstanding f"
  by (simp add: switched_def split: ucontext_t.split)

text \<open>A step that replaces one fiber and adds no more to its counter than it adds to the number of requests.\<close>

lemma counted_put:
  assumes "counted m" and "get_fiber m p = Some f" and "m_private m' = m_private (put_fiber g x)"
    and "m_fibers x = m_fibers m" and "m_next_req_id m \<le> m_next_req_id x"
    and "f_async_outstanding g - int (m_next_req_id x) \<le> f_async_outstanding f - int (m_next_req_id m)"
  shows "counted m'"
proof -
  have "f_async_outstanding f \<le> int (m_next_req_id m)" using assms(1) get_fiber_Some [OF assms(2)] by (simp add: counted_def)
  then have "f_async_outstanding g \<le> int (m_next_req_id x)" using assms(6) by simp
  moreover have "f_async_outstanding h \<le> int (m_next_req_id x)" if "h \<in> set (m_fibers x)" for h
    using assms(1,4,5) that by (fastforce simp: counted_def)
  ultimately show ?thesis
    using m_private_fields [OF assms(3)] by (auto simp: counted_def put_fiber_def split: if_splits)
qed

lemma counted_same:
  assumes "counted m" and "m_private m' = m_private x" and "m_fibers x = m_fibers m" and "m_next_req_id m \<le> m_next_req_id x"
  shows "counted m'"
  using assms(1,3,4) m_private_fields [OF assms(2)] by (fastforce simp: counted_def)

lemma counted_quiet: "counted m \<Longrightarrow> quiet m m' \<Longrightarrow> counted m'"
  by (erule quietE) (erule counted_same counted_put; assumption?; simp add: rq_put_def)+

lemma counted_enter:
  assumes "counted m" and "get_fiber m p = Some f" and "m_private m' = m_private ((put_fiber (switched g) x)\<lparr>m_current := q\<rparr>)"
    and "m_fibers x = m_fibers m" and "m_next_req_id x = m_next_req_id m" and "f_async_outstanding g = f_async_outstanding f"
  shows "counted m'"
  by (rule counted_put [OF assms(1,2), of m' "switched g" "x\<lparr>m_current := q\<rparr>"])
    (use assms(3-6) switched_less [of g] in \<open>simp_all add: put_fiber_current\<close>)

lemma counted_wakes:
  assumes "counted m" and "wakes m p m' prog"
  shows "counted m'"
  using assms(2)
proof (cases rule: wakes.cases)
  case (w_reply r f f1)
  show ?thesis by (rule counted_enter [OF assms(1) w_reply(2,6)]) (use src_only_fields [OF w_reply(4)] in simp_all)
next
  case (w_timer f)
  show ?thesis by (rule counted_enter [OF assms(1) w_timer(1,5)]) simp_all
next
  case (w_req_timeout f f1)
  show ?thesis by (rule counted_enter [OF assms(1) w_req_timeout(1,6)]) (use src_only_fields [OF w_req_timeout(4)] in simp_all)
next
  case (w_start f)
  then show ?thesis
    using assms(1) m_private_fields [OF w_start(6)] by (auto simp: counted_def fresh_fiber_def)
qed

lemma counted_continues:
  assumes "counted m" and "get_fiber m p = Some f" and "continues m f prog m' prog'"
  shows "counted m'"
  using assms(3)
proof (cases rule: continues.cases)
  case c_plain
  from c_plain(2) show ?thesis by (rule plain_changeE) (rule counted_same [OF assms(1)], assumption, simp, simp)+
next
  case (c_async rid mi si msg n k)
  show ?thesis by (rule counted_put [OF assms(1,2) c_async(4)]) (simp_all add: pending_add_keeps)
next
  case c_wait_none
  show ?thesis by (rule counted_same [OF assms(1) c_wait_none(5)]) simp_all
next
  case (c_wait_some rr rest f1)
  show ?thesis by (rule counted_put [OF assms(1,2) c_wait_some(5)]) (use src_only_fields [OF c_wait_some(4)] in simp_all)
qed

lemma counted_yields:
  assumes "counted m" and "get_fiber m p = Some f" and "yields m f prog m'"
  shows "counted m'"
  using assms(3)
  by (rule yieldsE) (rule counted_put [OF assms(1,2)], assumption, (simp add: pending_add_keeps; fail)+)+

interpretation counter: module_invariant "\<lambda>m. life_idle m \<and> counted m" "\<lambda>m p prog. life_running m p \<and> counted m" dangling False
proof unfold_locales
  show "life_idle m' \<and> counted m'" if "life_idle m \<and> counted m" "quiet m m'" for m m'
    using that life_quiet counted_quiet by blast
  show "life_running m' p \<and> counted m'" if "life_idle m \<and> counted m" "wakes m p m' prog" for m p m' prog
    using that life_wakes counted_wakes by blast
  show "life_running m' p \<and> counted m'" if "life_running m p \<and> counted m" "get_fiber m p = Some f"
    "continues m f prog m' prog'" for m p f prog m' prog'
    using that life_continues counted_continues by blast
  show "life_idle (m'\<lparr>m_current := None\<rparr>) \<and> counted (m'\<lparr>m_current := None\<rparr>)"
    if "life_running m p \<and> counted m" "get_fiber m p = Some f" "yields m f prog m'" for m p f prog m'
    using life_yields [of m p f prog m'] counted_yields [of m p f prog m'] that by (simp add: counted_def)
  show "get_fiber m p \<noteq> None" if "life_running m p \<and> counted m" for m p
    using that life.running_live by blast
  show "f_ctx f \<noteq> Finished" if "life_idle m \<and> counted m" "get_fiber m p = Some f"
    "f_waiting_timer f \<or> f_waiting_reply f \<or> f_waiting_any f" for m p f
    using that life.waiting_entry by blast
  show "unat (m_nr_seq m) \<le> length (m_seqs m)" if "life_idle m \<and> counted m" for m
    using that life.in_table by blast
  show "m_next_fptr m \<notin> f_self ` set (m_fibers m)" if "life_idle m \<and> counted m" for m
    using that life.fresh_addr by blast
  show "life_idle (reap_done m) \<and> counted (reap_done m)" if "life_idle m \<and> counted m" for m
    using that life_reap by (auto simp: counted_def reap_done_def)
qed (use pending_find_dangling in blast)+

lemma counted_start: "counted zero_module" "counted (booted i r en)"
  by (simp_all add: counted_def zero_module_def booted_fields)

text \<open>In every reachable state, then, the C counter and that of the model agree after fewer than \<open>2 ^ 31\<close> requests.\<close>

lemma reachable_counted:
  assumes "reachable tbl c" and "table_wf tbl" and "valid_mod c i" and "f \<in> set (m_fibers (get_mod c i))"
  shows "f_async_outstanding f \<le> int (m_next_req_id (get_mod c i))"
proof -
  have "life_idle (get_mod c i) \<and> counted (get_mod c i)"
    using counter.reachable_inv [OF assms(1)] life_zero life_booted [OF assms(2)] counted_start assms(3)
    unfolding counter.sys_inv_def by blast
  then show ?thesis using assms(4) by (simp add: counted_def)
qed

lemma counter_in_range:
  assumes "reachable tbl c" and "table_wf tbl" and "valid_mod c i" and "f \<in> set (m_fibers (get_mod c i))"
    and "m_next_req_id (get_mod c i) < 2 ^ 31"
  shows "f_async_outstanding f < 2 ^ 31"
  using reachable_counted [OF assms(1-4)] assms(5) by simp

end
