(* ===== verification/CoseqWrapper.thy ===== *)
theory CoseqWrapper
  imports CoseqInv CoseqInstance
begin

text \<open>
  The C++ binding in \<open>src/coseqpp\<close>: the classes \<open>source\<close> and \<open>iface\<close> (\<open>coseqpp_if.h\<close>), \<open>module_base\<close>
  (\<open>coseqpp_base.h\<close>) and \<open>manager\<close> (\<open>coseqpp.cpp\<close>). The manager registers one C function for all
  sequences; it finds the object of the module through \<open>coseq_self_user\<close> and calls the member the
  running sequence stands for. Objects live at addresses, and \<open>objs\<close> maps an address to its object.
\<close>

section \<open>Results and sources\<close>

datatype pp_result =
    Result_ignore
  | Result_success
  | Result_error
  | Result_request_timeout
  | Result_sequence_timeout

text \<open>The casts between the two enumerations, which share their values.\<close>

fun pp_of_c :: "coseq_result_t \<Rightarrow> pp_result" where
  "pp_of_c COSEQ_RSLT_IGNORE = Result_ignore"
| "pp_of_c COSEQ_RSLT_SUCCESS = Result_success"
| "pp_of_c COSEQ_RSLT_ERROR = Result_error"
| "pp_of_c COSEQ_RSLT_REQ_TIMEOUT = Result_request_timeout"
| "pp_of_c COSEQ_RSLT_SEQ_TIMEOUT = Result_sequence_timeout"

fun c_of_pp :: "pp_result \<Rightarrow> coseq_result_t" where
  "c_of_pp Result_ignore = COSEQ_RSLT_IGNORE"
| "c_of_pp Result_success = COSEQ_RSLT_SUCCESS"
| "c_of_pp Result_error = COSEQ_RSLT_ERROR"
| "c_of_pp Result_request_timeout = COSEQ_RSLT_REQ_TIMEOUT"
| "c_of_pp Result_sequence_timeout = COSEQ_RSLT_SEQ_TIMEOUT"

lemma pp_casts [simp]: "pp_of_c (c_of_pp r) = r" "c_of_pp (pp_of_c s) = s"
  by (cases r; simp) (cases s; simp)

text \<open>
  The member \<open>src_\<close> of class \<open>source\<close> of an \<open>iface\<close>, as a sequence reads it: the pointer \<open>src_\<close>, null or to what it
  points to, and the bytes of \<open>message_\<close>, whose number is \<open>length_\<close>. Every source an \<open>iface\<close> returns is a
  reference to this one object, and each call that overwrites what it points to sets it again, so between
  two calls it shows what the last one has left. (\<open>gather_all\<close> does not set it; a reference that is read after
  \<open>gather_all\<close> is not modelled.)
\<close>

record pp_source =
  src_ptr :: "coseq_src_t option"
  src_message :: "u8 list"

definition source_set :: "coseq_src_t option \<Rightarrow> pp_source \<Rightarrow> pp_source" where
  "source_set p s =
     (case p of
        None \<Rightarrow> s\<lparr>src_ptr := None\<rparr>
      | Some c \<Rightarrow> s\<lparr>src_ptr := Some c, src_message := s_msg c\<rparr>)"

definition new_source :: "coseq_src_t option \<Rightarrow> pp_source" where
  "new_source p = source_set p \<lparr>src_ptr = None, src_message = []\<rparr>"

text \<open>The getters; they dereference \<open>src_\<close>, and \<open>None\<close> stands for a null pointer dereferenced.\<close>

definition get_result :: "pp_source \<Rightarrow> pp_result option" where
  "get_result s = map_option (\<lambda>c. pp_of_c (s_result c)) (src_ptr s)"

definition get_client_id :: "pp_source \<Rightarrow> u8 option" where
  "get_client_id s = map_option s_client_id (src_ptr s)"

definition get_thread_idx :: "pp_source \<Rightarrow> u8 option" where
  "get_thread_idx s = map_option s_thread_idx (src_ptr s)"

definition get_sequence_idx :: "pp_source \<Rightarrow> u8 option" where
  "get_sequence_idx s = map_option s_seq_idx (src_ptr s)"

definition get_request_id :: "pp_source \<Rightarrow> u32 option" where
  "get_request_id s = map_option s_req_id (src_ptr s)"

section \<open>Sources of a thread outside the modules\<close>

text \<open>
  The manager returns an object of class \<open>source\<close> by value, which its caller may keep: the pointer \<open>src_\<close>, null
  or to the structure \<open>s\<close> of the calling thread, and \<open>message_\<close>, the address of the buffer and the number of
  bytes that \<open>s\<close> held when the object was made. The constructor, applied to the null pointer or to the
  address of \<open>s\<close> in a thread whose variables are \<open>t\<close>.
\<close>

record source_obj =
  so_src :: bool
  so_data :: nat
  so_length :: nat

definition source_of :: "sync_tls option \<Rightarrow> source_obj" where
  "source_of p =
     (case p of
        None \<Rightarrow> \<lparr>so_src = False, so_data = 0, so_length = 0\<rparr>
      | Some t \<Rightarrow> \<lparr>so_src = True, so_data = tls_block t, so_length = length (s_msg (tls_s t))\<rparr>)"

text \<open>
  What the getters return when the variables of the thread are \<open>t\<close>; \<open>None\<close> stands for a null pointer
  dereferenced. The bytes at \<open>data()\<close> are those the buffer holds now; \<open>None\<close> when their block has been freed.
\<close>

definition obj_result :: "sync_tls \<Rightarrow> source_obj \<Rightarrow> pp_result option" where
  "obj_result t o1 = (if so_src o1 then Some (pp_of_c (s_result (tls_s t))) else None)"

definition obj_client_id :: "sync_tls \<Rightarrow> source_obj \<Rightarrow> u8 option" where
  "obj_client_id t o1 = (if so_src o1 then Some (s_client_id (tls_s t)) else None)"

definition obj_thread_idx :: "sync_tls \<Rightarrow> source_obj \<Rightarrow> u8 option" where
  "obj_thread_idx t o1 = (if so_src o1 then Some (s_thread_idx (tls_s t)) else None)"

definition obj_sequence_idx :: "sync_tls \<Rightarrow> source_obj \<Rightarrow> u8 option" where
  "obj_sequence_idx t o1 = (if so_src o1 then Some (s_seq_idx (tls_s t)) else None)"

definition obj_request_id :: "sync_tls \<Rightarrow> source_obj \<Rightarrow> u32 option" where
  "obj_request_id t o1 = (if so_src o1 then Some (s_req_id (tls_s t)) else None)"

definition obj_message :: "sync_tls \<Rightarrow> source_obj \<Rightarrow> u8 list option" where
  "obj_message t o1 = (if so_length o1 = 0 then Some []
     else if so_data o1 = tls_block t then Some (take (so_length o1) (tls_buf t)) else None)"

text \<open>All that an object shows at that moment; \<open>None\<close> when its message has been freed.\<close>

definition reading :: "sync_tls \<Rightarrow> source_obj \<Rightarrow> pp_source option" where
  "reading t o1 = map_option (\<lambda>b. \<lparr>src_ptr = (if so_src o1 then Some (tls_s t) else None), src_message = b\<rparr>)
     (obj_message t o1)"

lemma reading_getters:
  assumes "reading t o1 = Some r"
  shows "get_result r = obj_result t o1" "get_client_id r = obj_client_id t o1" "get_thread_idx r = obj_thread_idx t o1"
    "get_sequence_idx r = obj_sequence_idx t o1" "get_request_id r = obj_request_id t o1"
    "obj_message t o1 = Some (src_message r)"
  using assms
  by (auto simp: reading_def get_result_def get_client_id_def get_thread_idx_def get_sequence_idx_def get_request_id_def
      obj_result_def obj_client_id_def obj_thread_idx_def obj_sequence_idx_def obj_request_id_def)

section \<open>The interface of a sequence\<close>

text \<open>
  The methods of \<open>iface\<close>. \<open>it\<close> is its member \<open>src_\<close>, which a method that returns a source overwrites
  and returns a reference to; \<open>k\<close> is the code after the call.
\<close>

definition iface_get_source :: "pp_source \<Rightarrow> (pp_source \<Rightarrow> seq_prog) \<Rightarrow> seq_prog" where
  "iface_get_source it k = Source (\<lambda>s. k (source_set (Some s) it))"

definition iface_request ::
    "pp_source \<Rightarrow> u8 \<Rightarrow> u8 \<Rightarrow> cbuf \<Rightarrow> nat \<Rightarrow> (pp_source \<Rightarrow> seq_prog) \<Rightarrow> seq_prog" where
  "iface_request it module_idx seq_idx msg len k =
     Request module_idx seq_idx msg len (\<lambda>s. k (source_set (Some s) it))"

definition iface_request_timeout ::
    "pp_source \<Rightarrow> u8 \<Rightarrow> u8 \<Rightarrow> cbuf \<Rightarrow> nat \<Rightarrow> u32 \<Rightarrow> (pp_source \<Rightarrow> seq_prog) \<Rightarrow> seq_prog" where
  "iface_request_timeout it module_idx seq_idx msg len timeout_msec k =
     Request_timeout module_idx seq_idx msg len timeout_msec (\<lambda>s. k (source_set (Some s) it))"

definition iface_request_async :: "u8 \<Rightarrow> u8 \<Rightarrow> cbuf \<Rightarrow> nat \<Rightarrow> (u32 \<Rightarrow> seq_prog) \<Rightarrow> seq_prog" where
  "iface_request_async module_idx seq_idx msg len k = Request_async module_idx seq_idx msg len k"

definition iface_wait_reply :: "pp_source \<Rightarrow> (pp_source \<Rightarrow> seq_prog) \<Rightarrow> seq_prog" where
  "iface_wait_reply it k = Wait_reply (\<lambda>r. k (source_set r it))"

definition iface_send :: "u8 \<Rightarrow> u8 \<Rightarrow> cbuf \<Rightarrow> nat \<Rightarrow> seq_prog \<Rightarrow> seq_prog" where
  "iface_send module_idx seq_idx msg len p = Send module_idx seq_idx msg len p"

definition iface_reply :: "pp_result \<Rightarrow> cbuf \<Rightarrow> nat \<Rightarrow> seq_prog \<Rightarrow> seq_prog" where
  "iface_reply rslt msg len p = Reply (c_of_pp rslt) msg len p"

definition iface_wait_timeout :: "u32 \<Rightarrow> seq_prog \<Rightarrow> seq_prog" where
  "iface_wait_timeout msec p = Wait_timeout msec p"

definition iface_reg_notify :: "u8 \<Rightarrow> (u8 option \<Rightarrow> seq_prog) \<Rightarrow> seq_prog" where
  "iface_reg_notify category k = Reg_notify category k"

definition iface_unreg_notify :: "u8 \<Rightarrow> u8 \<Rightarrow> (bool \<Rightarrow> seq_prog) \<Rightarrow> seq_prog" where
  "iface_unreg_notify category client_id k = Unreg_notify category client_id k"

definition iface_notify :: "u8 \<Rightarrow> cbuf \<Rightarrow> nat \<Rightarrow> (bool \<Rightarrow> seq_prog) \<Rightarrow> seq_prog" where
  "iface_notify category msg len k = Notify category msg len k"

definition iface_lock :: "seq_prog \<Rightarrow> seq_prog" where
  "iface_lock p = Lock p"

definition iface_unlock :: "seq_prog \<Rightarrow> seq_prog" where
  "iface_unlock p = Unlock p"

definition iface_get_sequence_name :: "(string \<Rightarrow> seq_prog) \<Rightarrow> seq_prog" where
  "iface_get_sequence_name k = Self_seq_name k"

lemmas iface_defs = iface_get_source_def iface_request_def iface_request_timeout_def
  iface_request_async_def iface_wait_reply_def iface_send_def iface_reply_def iface_wait_timeout_def
  iface_reg_notify_def iface_unreg_notify_def iface_notify_def iface_lock_def iface_unlock_def
  iface_get_sequence_name_def

text \<open>\<open>gather_all\<close> copies every reply into the vector \<open>out\<close>.\<close>

record pp_reply =
  rp_req_id :: u32
  rp_rslt :: pp_result
  rp_msg :: "u8 list"

definition reply_copy :: "coseq_src_t \<Rightarrow> pp_reply" where
  "reply_copy r = \<lparr>rp_req_id = s_req_id r, rp_rslt = pp_of_c (s_result r), rp_msg = s_msg r\<rparr>"

primcorec gather_all :: "pp_reply list \<Rightarrow> (pp_reply list \<Rightarrow> seq_prog) \<Rightarrow> seq_prog" where
  "gather_all out k =
     Wait_reply (\<lambda>r. case r of
         None \<Rightarrow> k out
       | Some s \<Rightarrow> gather_all (out @ [reply_copy s]) k)"

section \<open>Modules\<close>

record sequence_t =
  sq_member :: "pp_source \<Rightarrow> seq_prog"
  sq_title :: string

record module_base =
  mb_name :: string
  mb_que_max :: u8
  mb_idx :: u8
  mb_sequences :: "sequence_t list"
  mb_on_receive_notify :: "pp_source \<Rightarrow> seq_prog"

text \<open>The constructor, with the handler of the base class, which does nothing.\<close>

definition on_receive_notify_default :: "pp_source \<Rightarrow> seq_prog" where
  "on_receive_notify_default it = Return"

definition new_module_base :: "string \<Rightarrow> u8 \<Rightarrow> module_base" where
  "new_module_base name que_max = \<lparr>mb_name = name, mb_que_max = que_max, mb_idx = 0, mb_sequences = [],
     mb_on_receive_notify = on_receive_notify_default\<rparr>"

definition get_idx :: "module_base \<Rightarrow> u8" where
  "get_idx mb = mb_idx mb"

definition get_name :: "module_base \<Rightarrow> string" where
  "get_name mb = mb_name mb"

definition set_sequences :: "sequence_t list \<Rightarrow> module_base \<Rightarrow> module_base" where
  "set_sequences s mb = mb\<lparr>mb_sequences := s\<rparr>"

definition set_sequences_array :: "sequence_t list \<Rightarrow> u8 \<Rightarrow> module_base \<Rightarrow> module_base" where
  "set_sequences_array seqs num mb = mb\<lparr>mb_sequences := take (unat num) seqs\<rparr>"

definition reset_sequences :: "module_base \<Rightarrow> module_base" where
  "reset_sequences mb = mb\<lparr>mb_sequences := []\<rparr>"

section \<open>Dispatch\<close>

definition dispatch_seq :: "(nat \<Rightarrow> module_base) \<Rightarrow> nat \<Rightarrow> u8 \<Rightarrow> seq_prog" where
  "dispatch_seq objs mb seq_idx = sq_member (mb_sequences (objs mb) ! unat seq_idx) (new_source None)"

definition dispatch_notify :: "(nat \<Rightarrow> module_base) \<Rightarrow> nat \<Rightarrow> seq_prog" where
  "dispatch_notify objs mb = mb_on_receive_notify (objs mb) (new_source None)"

definition seq_wrapper :: "(nat \<Rightarrow> module_base) \<Rightarrow> seq_prog" where
  "seq_wrapper objs = Self_user (\<lambda>mb. Self_seq (\<lambda>seq_idx. dispatch_seq objs mb seq_idx))"

definition notify_wrapper :: "(nat \<Rightarrow> module_base) \<Rightarrow> seq_prog" where
  "notify_wrapper objs = Self_user (\<lambda>mb. dispatch_notify objs mb)"

section \<open>The log callback\<close>

datatype log_level = Level_debug | Level_info | Level_warn | Level_error

text \<open>The cast of \<open>log_wrapper\<close> from the levels of the core, which have the same values.\<close>

definition log_level_of :: "int \<Rightarrow> log_level" where
  "log_level_of level =
     (if level = COSEQ_LOG_DEBUG then Level_debug else if level = COSEQ_LOG_INFO then Level_info
      else if level = COSEQ_LOG_WARN then Level_warn else Level_error)"

text \<open>
  \<open>log_wrapper\<close> and the function \<open>g_log_fn\<close> it calls, which acts on some state. The core passes the format \<open>%s\<close>
  and the line \<open>txt\<close>; the text is cut to the 255 characters \<open>vsnprintf\<close> leaves in the buffer.
\<close>

type_synonym 's log_fn = "log_level \<Rightarrow> string \<Rightarrow> 's \<Rightarrow> 's"

definition log_wrapper :: "'s log_fn option \<Rightarrow> int \<Rightarrow> string \<Rightarrow> 's \<Rightarrow> 's" where
  "log_wrapper g_log_fn level txt st =
     (case g_log_fn of
        None \<Rightarrow> st
      | Some fn \<Rightarrow> fn (log_level_of level) (take 255 txt) st)"

text \<open>\<open>set_log_cb\<close> keeps the function and tells the core whether there is one.\<close>

definition set_log_cb :: "'s log_fn option \<Rightarrow> env \<Rightarrow> 's log_fn option \<times> env" where
  "set_log_cb fn en = (fn, coseq_set_log_cb (fn \<noteq> None) en)"

text \<open>What the function has done after the messages of a thread, whose lines the core makes with \<open>render\<close>.\<close>

definition logged :: "(log_msg \<Rightarrow> string) \<Rightarrow> 's log_fn option \<Rightarrow> env \<Rightarrow> 's \<Rightarrow> 's" where
  "logged render g_log_fn en st =
     fold (\<lambda>(level, msg). log_wrapper g_log_fn level (render msg)) (logs en) st"

section \<open>The manager\<close>

record manager =
  mgr_ctx :: "coseq_ctx_private option"
  mgr_hold :: "nat list"
  mgr_tbl :: "coseq_reg_t list"

definition new_manager :: "env \<Rightarrow> manager \<times> env" where
  "new_manager en =
     (let (ctx, en1) = create_coseq en in (\<lparr>mgr_ctx = ctx, mgr_hold = [], mgr_tbl = []\<rparr>, en1))"

definition manager_destroy :: "manager \<Rightarrow> env \<Rightarrow> manager \<times> env" where
  "manager_destroy mgr en =
     (case mgr_ctx mgr of
        None \<Rightarrow> (mgr, en)
      | Some c \<Rightarrow> (let (gone, en1) = coseq_destroy (Some c) en in (mgr\<lparr>mgr_ctx := None\<rparr>, en1)))"

text \<open>The loop of \<open>setup\<close>: the index each object gets, and its row of the C table.\<close>

fun number_modules :: "nat \<Rightarrow> nat list \<Rightarrow> (nat \<Rightarrow> module_base) \<Rightarrow> nat \<Rightarrow> module_base" where
  "number_modules i [] objs = objs"
| "number_modules i (mb # mbs) objs =
     number_modules (i + 1) mbs (objs(mb := (objs mb)\<lparr>mb_idx := of_nat i\<rparr>))"

definition c_seqs_of :: "(nat \<Rightarrow> module_base) \<Rightarrow> nat \<Rightarrow> coseq_seq_t list" where
  "c_seqs_of objs mb = map (\<lambda>s. \<lparr>sq_fn = seq_wrapper objs, sq_name = sq_title s\<rparr>) (mb_sequences (objs mb))"

definition c_reg :: "(nat \<Rightarrow> module_base) \<Rightarrow> nat \<Rightarrow> coseq_reg_t" where
  "c_reg objs mb =
     \<lparr>r_name = Some (mb_name (objs mb)), r_nr_que_max = mb_que_max (objs mb),
      r_seq_array = c_seqs_of objs mb, r_nr_seq_max = of_nat (length (c_seqs_of objs mb)),
      r_recv_notify = Some (notify_wrapper objs), r_user = mb\<rparr>"

text \<open>\<open>None\<close> stands for the null pointer \<open>ctx_\<close> dereferenced, after a failed \<open>create_coseq\<close>.\<close>

definition manager_setup ::
    "manager \<Rightarrow> (nat \<Rightarrow> module_base) \<Rightarrow> nat list \<Rightarrow> (nat \<Rightarrow> env) \<Rightarrow> env
      \<Rightarrow> (bool \<times> manager \<times> (nat \<Rightarrow> module_base) \<times> env) option"
where
  "manager_setup mgr objs mods envs en =
     (let objs1 = number_modules 0 mods objs;
          tbl = map (c_reg objs1) mods
      in case mgr_ctx mgr of
           None \<Rightarrow> None
         | Some c \<Rightarrow>
             (let (b, c1, en1) = coseq_setup c tbl (of_nat (length mods)) envs en
              in Some (b, \<lparr>mgr_ctx = Some c1, mgr_hold = mods, mgr_tbl = tbl\<rparr>, objs1, en1)))"

definition manager_teardown :: "manager \<Rightarrow> env \<Rightarrow> (manager \<times> env) option" where
  "manager_teardown mgr en =
     map_option (\<lambda>c. let (c1, en1) = coseq_teardown c en in (mgr\<lparr>mgr_ctx := Some c1\<rparr>, en1)) (mgr_ctx mgr)"

definition manager_request_sync_begin ::
    "manager \<Rightarrow> u8 \<Rightarrow> u8 \<Rightarrow> cbuf \<Rightarrow> nat \<Rightarrow> env \<Rightarrow> (u32 \<times> manager \<times> env) option" where
  "manager_request_sync_begin mgr module_idx seq_idx msg len en =
     map_option (\<lambda>c. let (rid, c1, en1) = request_sync_begin c module_idx seq_idx msg len en
         in (rid, mgr\<lparr>mgr_ctx := Some c1\<rparr>, en1)) (mgr_ctx mgr)"

definition manager_request_sync_end ::
    "manager \<Rightarrow> sync_tls \<Rightarrow> u32 \<Rightarrow> u8 \<Rightarrow> u8 \<Rightarrow> env \<Rightarrow> (source_obj \<times> sync_tls \<times> manager \<times> env) option" where
  "manager_request_sync_end mgr t rid module_idx seq_idx en =
     map_option (\<lambda>c. let (t1, c1, en1) = request_sync_end c t rid module_idx seq_idx en
         in (source_of (Some t1), t1, mgr\<lparr>mgr_ctx := Some c1\<rparr>, en1)) (mgr_ctx mgr)"

definition manager_request_async ::
    "manager \<Rightarrow> u8 \<Rightarrow> u8 \<Rightarrow> cbuf \<Rightarrow> nat \<Rightarrow> env \<Rightarrow> (manager \<times> env) option" where
  "manager_request_async mgr module_idx seq_idx msg len en =
     map_option (\<lambda>c. let (c1, en1) = request_async c module_idx seq_idx msg len en
         in (mgr\<lparr>mgr_ctx := Some c1\<rparr>, en1)) (mgr_ctx mgr)"

section \<open>Gathering\<close>

lemma gather_all_rec:
  "gather_all out k = Wait_reply (\<lambda>r. case r of
     None \<Rightarrow> k out | Some s \<Rightarrow> gather_all (out @ [reply_copy s]) k)"
  by (rule gather_all.code)

lemma coseq_gather_rec:
  "coseq_gather cb u n k = Wait_reply (\<lambda>r. case r of
     None \<Rightarrow> k n u | Some s \<Rightarrow> coseq_gather cb (cb s u) (n + 1) k)"
  by (rule coseq_gather.code)

text \<open>Two sequences that begin with the same call, and whose rests \<open>R\<close> relates, whatever the call returns.\<close>

inductive same_call :: "(seq_prog \<Rightarrow> seq_prog \<Rightarrow> bool) \<Rightarrow> seq_prog \<Rightarrow> seq_prog \<Rightarrow> bool" for R where
  sc_same: "same_call R p p"
| sc_wait_reply: "(\<And>x. R (f x) (g x)) \<Longrightarrow> same_call R (Wait_reply f) (Wait_reply g)"
| sc_wait_timeout: "R p q \<Longrightarrow> same_call R (Wait_timeout ms p) (Wait_timeout ms q)"
| sc_request: "(\<And>x. R (s x) (s' x)) \<Longrightarrow> same_call R (Request mi si msg n s) (Request mi si msg n s')"
| sc_request_timeout: "(\<And>x. R (s x) (s' x)) \<Longrightarrow>
    same_call R (Request_timeout mi si msg n ms s) (Request_timeout mi si msg n ms s')"
| sc_request_async: "(\<And>x. R (f' x) (g' x)) \<Longrightarrow> same_call R (Request_async mi si msg n f') (Request_async mi si msg n g')"
| sc_send: "R p q \<Longrightarrow> same_call R (Send mi si msg n p) (Send mi si msg n q)"
| sc_reply: "R p q \<Longrightarrow> same_call R (Reply res msg n p) (Reply res msg n q)"
| sc_source: "(\<And>x. R (s x) (s' x)) \<Longrightarrow> same_call R (Source s) (Source s')"
| sc_reg_notify: "(\<And>x. R (h x) (h' x)) \<Longrightarrow> same_call R (Reg_notify cat h) (Reg_notify cat h')"
| sc_lock: "R p q \<Longrightarrow> same_call R (Lock p) (Lock q)"
| sc_unlock: "R p q \<Longrightarrow> same_call R (Unlock p) (Unlock q)"
| sc_notify: "(\<And>x. R (k x) (k' x)) \<Longrightarrow> same_call R (Notify cat msg n k) (Notify cat msg n k')"

inductive_cases same_callE: "same_call R p q"

lemma same_call_mono [mono]: "R \<le> S \<Longrightarrow> same_call R p q \<longrightarrow> same_call S p q"
  by (auto elim!: same_callE intro!: same_call.intros)

text \<open>Two sequences that keep making the same calls are equal.\<close>

lemma seq_prog_bisim:
  assumes "R p q" and step: "\<And>p q. R p q \<Longrightarrow> same_call R p q"
  shows "p = q"
  using assms(1)
  by (rule seq_prog.coinduct_strong) (drule step, erule same_callE; simp add: rel_fun_def)

text \<open>
  \<open>gather_all\<close> of the C++ binding is \<open>coseq_gather\<close> with the callback that copies each reply to the end of
  a vector: the same calls in the same order, and the sequence goes on with the replies in the order
  of their arrival.
\<close>

theorem gather_all_is_gather:
  "gather_all out k = coseq_gather (\<lambda>s out. out @ [reply_copy s]) out n (\<lambda>n out. k out)"
proof -
  let ?R = "\<lambda>p q. p = q \<or> (\<exists>out n. p = gather_all out k \<and>
      q = coseq_gather (\<lambda>s out. out @ [reply_copy s]) out n (\<lambda>n out. k out))"
  have step: "same_call ?R p q" if "?R p q" for p q
    using that
  proof (elim disjE exE conjE)
    fix out n
    assume p: "p = gather_all out k" and q: "q = coseq_gather (\<lambda>s out. out @ [reply_copy s]) out n (\<lambda>n out. k out)"
    show ?thesis
      unfolding p q gather_all_rec [of out] coseq_gather_rec [of _ out]
      by (rule sc_wait_reply) (auto split: option.split)
  qed (simp add: sc_same)
  show ?thesis
  proof (rule seq_prog_bisim [where R = ?R, OF _ step])
    show "?R (gather_all out k) (coseq_gather (\<lambda>s out. out @ [reply_copy s]) out n (\<lambda>n out. k out))"
      by (rule disjI2, intro exI conjI; rule refl)
  qed
qed

section \<open>Dispatching to members\<close>

text \<open>Where a fresh fiber runs when the wrapper is its function: in the member, with nothing changed.\<close>

lemma run_seq_wrapper:
  assumes "get_fiber (get_mod c i) p = Some f"
  shows "run_fiber c i p (seq_wrapper objs) =
    run_fiber c i p (dispatch_seq objs (m_user (get_mod c i)) (f_seq_idx f))"
  unfolding seq_wrapper_def
  by (subst run_fiber.simps, simp add: assms, subst run_fiber.simps, simp add: assms
      coseq_self_user_def coseq_self_seq_def)

lemma run_notify_wrapper:
  assumes "get_fiber (get_mod c i) p = Some f"
  shows "run_fiber c i p (notify_wrapper objs) = run_fiber c i p (dispatch_notify objs (m_user (get_mod c i)))"
  unfolding notify_wrapper_def
  by (subst run_fiber.simps, simp add: assms coseq_self_user_def)

text \<open>A new fiber with a name, switched in for the first time.\<close>

lemma resume_new_fiber:
  assumes v: "valid_mod c i" and new: "new_fiber (get_mod c i) fn s q r msg sz res t cl = (Some p, m1)"
  shows "\<exists>c1 f f0. get_fiber m1 p = Some f0 \<and> get_fiber (get_mod c1 i) p = Some f \<and>
    m_current (get_mod c1 i) = Some p \<and> m_user (get_mod c1 i) = m_user (get_mod c i) \<and>
    f_seq_idx f = s \<and> f_reply_to f = q \<and> f_reply_req_id f = r \<and> f_seq_name f = Some nm \<and>
    s_client_id (f_src f) = cl \<and>
    resume (set_mod i (put_fiber (f0\<lparr>f_seq_name := Some nm\<rparr>) m1) c) i p =
      obind (run_fiber c1 i p fn) (\<lambda>c2. ok (leave i c2))"
proof -
  obtain f0 en where m1: "m1 = (get_mod c i)\<lparr>m_env := en, m_next_fptr := m_next_fptr (get_mod c i) + 1,
      m_fibers := f0 # m_fibers (get_mod c i)\<rparr>" and self: "f_self f0 = p" and fresh: "fresh_fiber f0"
    and fn: "f_fn f0 = fn" and flds: "f_seq_idx f0 = s" "f_reply_to f0 = q" "f_reply_req_id f0 = r"
      "s_client_id (f_src f0) = cl"
    by (rule new_fiber_Some [OF new]) blast
  define g where "g = f0\<lparr>f_seq_name := Some nm\<rparr>"
  define c0 where "c0 = set_mod i (put_fiber g m1) c"
  define c1 where "c1 = enter c0 i g"
  have g: "f_self g = p" "f_ctx g = At_entry" "f_fn g = fn" "f_self (switched g) = p"
    using self fresh fn by (simp_all add: g_def fresh_fiber_def)
  have f0: "get_fiber m1 p = Some f0" by (simp add: m1 get_fiber_def self)
  have gg: "get_fiber (get_mod c0 i) p = Some g"
    using v f0 by (simp add: c0_def get_put_fiber g)
  have "resume c0 i p = obind (run_fiber c1 i p fn) (\<lambda>c2. ok (leave i c2))"
    using resume_unfold [OF _ gg] v g by (simp add: entry_prog_def c1_def c0_def)
  moreover have "get_fiber (get_mod c1 i) p = Some (switched g)" "m_current (get_mod c1 i) = Some p"
    "m_user (get_mod c1 i) = m_user (get_mod c i)"
    using v f0 by (simp_all add: c1_def enter_def c0_def get_put_fiber g)
      (simp add: put_fiber_def m1)
  moreover have "f_seq_idx (switched g) = s" "f_reply_to (switched g) = q" "f_reply_req_id (switched g) = r"
    "f_seq_name (switched g) = Some nm" "s_client_id (f_src (switched g)) = cl"
    using flds by (simp_all add: switched_def g_def)
  ultimately show ?thesis using f0 unfolding c0_def g_def by blast
qed

lemma new_fiber_succeeds:
  "all_ok (m_env m) \<Longrightarrow> \<exists>p m1. new_fiber m fn s q r msg sz res t cl = (Some p, m1)"
  by (simp add: new_fiber_def Let_def split_def all_ok_def)

text \<open>
  C27: Dispatch through the object reaches the right member. In a module that the manager has registered
  for the object at address \<open>a\<close>, a start event for sequence \<open>s\<close> runs the \<open>s\<close>-th function the object was
  given, on a fresh fiber that carries the name registered for it, and a notification runs the
  object's handler.
\<close>

theorem wrapper_runs_members:
  assumes "valid_mod c i" and "all_ok (m_env (get_mod c i))" and "m_user (get_mod c i) = a"
    and "m_seqs (get_mod c i) = c_seqs_of objs a"
    and "m_nr_seq (get_mod c i) = of_nat (length (mb_sequences (objs a)))"
    and "length (mb_sequences (objs a)) < 256"
    and "unat (e_seq_idx e) < length (mb_sequences (objs a))"
    and "m_recv_notify (get_mod c i) = Some (notify_wrapper objs)"
  shows "(\<exists>c1 p f. get_fiber (get_mod c1 i) p = Some f \<and> m_current (get_mod c1 i) = Some p \<and>
      f_seq_idx f = e_seq_idx e \<and> f_reply_to f = e_requester e \<and> f_reply_req_id f = e_req_id e \<and>
      f_seq_name f = Some (sq_title (mb_sequences (objs a) ! unat (e_seq_idx e))) \<and>
      start_sequence c i e = obind (run_fiber c1 i p
        (sq_member (mb_sequences (objs a) ! unat (e_seq_idx e)) (new_source None))) (\<lambda>c2. ok (leave i c2))) \<and>
    (\<exists>c1 p f. get_fiber (get_mod c1 i) p = Some f \<and> m_current (get_mod c1 i) = Some p \<and>
      s_client_id (f_src f) = e_client_id e \<and>
      run_notify c i e = obind (run_fiber c1 i p
        (mb_on_receive_notify (objs a) (new_source None))) (\<lambda>c2. ok (leave i c2)))"
proof
  let ?m = "get_mod c i" and ?s = "mb_sequences (objs a) ! unat (e_seq_idx e)"
  have n: "unat (m_nr_seq ?m) = length (mb_sequences (objs a))"
    using assms(5,6) by (simp add: unat_of_nat)
  then have idx: "\<not> m_nr_seq ?m \<le> e_seq_idx e" "\<not> length (m_seqs ?m) \<le> unat (e_seq_idx e)"
    using assms(4,7) by (simp_all add: word_le_nat_alt c_seqs_of_def)
  have sq: "m_seqs ?m ! unat (e_seq_idx e) = \<lparr>sq_fn = seq_wrapper objs, sq_name = sq_title ?s\<rparr>"
    using assms(4,7) by (simp add: c_seqs_of_def)
  obtain p m1 where new: "new_fiber ?m (seq_wrapper objs) (e_seq_idx e) (e_requester e) (e_req_id e) (e_msg e)
      (e_msg_size e) COSEQ_RSLT_IGNORE (word_of_int (e_requester e)) 0 = (Some p, m1)"
    using new_fiber_succeeds [OF assms(2)] by blast
  from resume_new_fiber [OF assms(1) new, of "sq_title ?s"] obtain c1 f f0
    where f: "get_fiber m1 p = Some f0" "get_fiber (get_mod c1 i) p = Some f" "m_current (get_mod c1 i) = Some p"
      "m_user (get_mod c1 i) = m_user ?m" "f_seq_idx f = e_seq_idx e" "f_reply_to f = e_requester e"
      "f_reply_req_id f = e_req_id e" "f_seq_name f = Some (sq_title ?s)"
    and res: "resume (set_mod i (put_fiber (f0\<lparr>f_seq_name := Some (sq_title ?s)\<rparr>) m1) c) i p =
      obind (run_fiber c1 i p (seq_wrapper objs)) (\<lambda>c2. ok (leave i c2))" by blast
  have "start_sequence c i e = obind (run_fiber c1 i p (sq_member ?s (new_source None))) (\<lambda>c2. ok (leave i c2))"
    using idx f res run_seq_wrapper [OF f(2), of objs] assms(3)
    by (simp add: start_sequence_def Let_def sq new dispatch_seq_def)
  then show "\<exists>c1 p f. get_fiber (get_mod c1 i) p = Some f \<and> m_current (get_mod c1 i) = Some p \<and>
      f_seq_idx f = e_seq_idx e \<and> f_reply_to f = e_requester e \<and> f_reply_req_id f = e_req_id e \<and>
      f_seq_name f = Some (sq_title ?s) \<and>
      start_sequence c i e = obind (run_fiber c1 i p (sq_member ?s (new_source None))) (\<lambda>c2. ok (leave i c2))"
    using f by blast
next
  let ?m = "get_mod c i"
  obtain p m1 where new: "new_fiber ?m (notify_wrapper objs) 0 EXTERNAL 0 (e_msg e) (e_msg_size e)
      COSEQ_RSLT_SUCCESS (word_of_int (e_requester e)) (e_client_id e) = (Some p, m1)"
    using new_fiber_succeeds [OF assms(2)] by blast
  from resume_new_fiber [OF assms(1) new, of "''recv_notify''"] obtain c1 f f0
    where f: "get_fiber m1 p = Some f0" "get_fiber (get_mod c1 i) p = Some f" "m_current (get_mod c1 i) = Some p"
      "m_user (get_mod c1 i) = m_user ?m" "s_client_id (f_src f) = e_client_id e"
    and res: "resume (set_mod i (put_fiber (f0\<lparr>f_seq_name := Some ''recv_notify''\<rparr>) m1) c) i p =
      obind (run_fiber c1 i p (notify_wrapper objs)) (\<lambda>c2. ok (leave i c2))" by blast
  have "run_notify c i e = obind (run_fiber c1 i p (mb_on_receive_notify (objs a) (new_source None)))
      (\<lambda>c2. ok (leave i c2))"
    using f res run_notify_wrapper [OF f(2), of objs] assms(3,8)
    by (simp add: run_notify_def Let_def new dispatch_notify_def)
  then show "\<exists>c1 p f. get_fiber (get_mod c1 i) p = Some f \<and> m_current (get_mod c1 i) = Some p \<and>
      s_client_id (f_src f) = e_client_id e \<and>
      run_notify c i e = obind (run_fiber c1 i p (mb_on_receive_notify (objs a) (new_source None)))
        (\<lambda>c2. ok (leave i c2))"
    using f by blast
qed

text \<open>An object with one member that returns at once.\<close>

definition idle_object :: module_base where
  "idle_object = set_sequences [\<lparr>sq_member = (\<lambda>it. Return), sq_title = ''nop''\<rparr>] (new_module_base ''m'' 4)"

lemma idle_object_simps [simp]:
  "mb_sequences idle_object = [\<lparr>sq_member = (\<lambda>it. Return), sq_title = ''nop''\<rparr>]"
  "mb_on_receive_notify idle_object = on_receive_notify_default"
  by (simp_all add: idle_object_def set_sequences_def new_module_base_def)

lemma wrapper_runs_members_witness:
  "\<exists>c1 p. start_sequence (set_mod 0 (booted 0 (c_reg (\<lambda>_. idle_object) 7) no_env) two_modules) 0 (start_ev 3) =
    obind (run_fiber c1 0 p Return) (\<lambda>c2. ok (leave 0 c2))"
proof -
  let ?o = "\<lambda>_ :: nat. idle_object"
  let ?c = "set_mod 0 (booted 0 (c_reg ?o 7) no_env) two_modules"
  have "valid_mod ?c 0" "all_ok (m_env (get_mod ?c 0))" "m_user (get_mod ?c 0) = 7"
    "m_seqs (get_mod ?c 0) = c_seqs_of ?o 7"
    "m_nr_seq (get_mod ?c 0) = of_nat (length (mb_sequences (?o 7)))"
    "m_recv_notify (get_mod ?c 0) = Some (notify_wrapper ?o)"
    by (simp_all add: booted_def inited_def load_module_def c_reg_def c_seqs_of_def)
  from wrapper_runs_members [OF this(1-5) _ _ this(6), of "start_ev 3"] show ?thesis
    by (auto simp: start_ev_def)
qed

section \<open>Setup through the manager\<close>

lemma number_modules_keeps [simp]:
  "mb_sequences (number_modules i mbs objs a) = mb_sequences (objs a)"
  "mb_name (number_modules i mbs objs a) = mb_name (objs a)"
  "mb_que_max (number_modules i mbs objs a) = mb_que_max (objs a)"
  "mb_on_receive_notify (number_modules i mbs objs a) = mb_on_receive_notify (objs a)"
  by (induction mbs arbitrary: i objs) auto

lemma number_modules_other: "a \<notin> set mbs \<Longrightarrow> number_modules i mbs objs a = objs a"
  by (induction mbs arbitrary: i objs) auto

lemma number_modules_idx:
  "distinct mbs \<Longrightarrow> k < length mbs \<Longrightarrow> mb_idx (number_modules i mbs objs (mbs ! k)) = of_nat (i + k)"
proof (induction mbs arbitrary: i objs k)
  case Nil
  then show ?case by simp
next
  case (Cons mb mbs)
  show ?case
  proof (cases k)
    case 0
    with Cons.prems show ?thesis by (simp add: number_modules_other)
  next
    case (Suc k')
    with Cons.prems Cons.IH [of k' "i + 1"] show ?thesis by simp
  qed
qed

lemma manager_setup_modules:
  assumes "mgr_ctx mgr = Some c" and "length (modules c) = MAX_MODULE" and "all_ok en"
    and "unat (of_nat (length mods) :: u8) = k" and "k \<le> MAX_MODULE"
  shows "\<exists>c' en'. manager_setup mgr objs mods envs en =
      Some (True, \<lparr>mgr_ctx = Some c', mgr_hold = mods,
        mgr_tbl = map (c_reg (number_modules 0 mods objs)) mods\<rparr>, number_modules 0 mods objs, en') \<and>
    nr_module c' = int k \<and>
    (\<forall>i < k. get_mod c' i = booted i (c_reg (number_modules 0 mods objs) (mods ! i)) (envs i)) \<and>
    (\<forall>i. k \<le> i \<longrightarrow> get_mod c' i = get_mod c i)"
proof -
  let ?objs = "number_modules 0 mods objs" and ?nr = "of_nat (length mods) :: u8"
  let ?tbl = "map (c_reg ?objs) mods"
  have le: "k \<le> length mods"
    using assms(4) by (metis mod_less_eq_dividend unat_of_nat)
  have cut: "coseq_setup c ?tbl ?nr envs en = coseq_setup c (take k ?tbl) ?nr envs en"
    using assms(4) by (simp add: coseq_setup_def)
  have len: "length (take k ?tbl) = unat ?nr" using le assms(4) by simp
  obtain c' en' where s: "coseq_setup c (take k ?tbl) ?nr envs en = (True, c', en')"
    using coseq_setup_succeeds [OF assms(3) len] assms(4,5) by (metis prod.collapse)
  note ok = coseq_setup_ok [OF s len assms(2)]
  have "nr_module c' = int k" using ok(1) assms(4) by (metis uint_nat)
  moreover have "get_mod c' i = booted i (c_reg ?objs (mods ! i)) (envs i)" if "i < k" for i
    using ok(4) that le assms(4) by simp
  moreover have "get_mod c' i = get_mod c i" if "k \<le> i" for i
    using ok(4) that assms(4) by simp
  ultimately show ?thesis
    using assms(1) s by (intro exI [of _ c'] exI [of _ en']) (simp add: manager_setup_def cut Let_def)
qed

text \<open>
  The manager registers its objects. With at most 32 objects of fewer than 256 sequences each and no
  failing library call, \<open>manager::setup\<close> starts one module per object; module \<open>i\<close> leads back to object
  \<open>i\<close>, has one row per member under the member's name, and handles notifications through the object;
  and each object learns its own index.
\<close>

theorem manager_setup_registers:
  assumes "mgr_ctx mgr = Some c" and "length (modules c) = MAX_MODULE" and "all_ok en"
    and "length mods \<le> MAX_MODULE" and "distinct mods"
    and "\<forall>a \<in> set mods. length (mb_sequences (objs a)) < 256"
  shows "\<exists>c' objs' mgr' en'. manager_setup mgr objs mods envs en = Some (True, mgr', objs', en') \<and>
    mgr_ctx mgr' = Some c' \<and> nr_module c' = int (length mods) \<and>
    (\<forall>i < length mods. m_th_started (get_mod c' i) \<and> m_user (get_mod c' i) = mods ! i \<and>
      m_seqs (get_mod c' i) = c_seqs_of objs' (mods ! i) \<and>
      unat (m_nr_seq (get_mod c' i)) = length (mb_sequences (objs' (mods ! i))) \<and>
      m_recv_notify (get_mod c' i) = Some (notify_wrapper objs') \<and>
      mb_idx (objs' (mods ! i)) = of_nat i \<and> m_idx (get_mod c' i) = int i) \<and>
    (\<forall>a. mb_sequences (objs' a) = mb_sequences (objs a) \<and>
      mb_on_receive_notify (objs' a) = mb_on_receive_notify (objs a))"
proof -
  let ?objs = "number_modules 0 mods objs"
  have k: "unat (of_nat (length mods) :: u8) = length mods"
    using assms(4) by (simp add: unat_of_nat MAX_MODULE_def)
  from manager_setup_modules [OF assms(1-3) k assms(4)] obtain c' mgr' en'
    where s: "manager_setup mgr objs mods envs en = Some (True, mgr', ?objs, en')" "mgr_ctx mgr' = Some c'"
      "nr_module c' = int (length mods)"
      "\<And>i. i < length mods \<Longrightarrow> get_mod c' i = booted i (c_reg ?objs (mods ! i)) (envs i)"
    by force
  have "m_th_started (get_mod c' i) \<and> m_user (get_mod c' i) = mods ! i \<and>
      m_seqs (get_mod c' i) = c_seqs_of ?objs (mods ! i) \<and>
      unat (m_nr_seq (get_mod c' i)) = length (mb_sequences (?objs (mods ! i))) \<and>
      m_recv_notify (get_mod c' i) = Some (notify_wrapper ?objs) \<and>
      mb_idx (?objs (mods ! i)) = of_nat i \<and> m_idx (get_mod c' i) = int i" if "i < length mods" for i
    using that assms(6) number_modules_idx [OF assms(5) that, of 0 objs]
    by (simp add: s(4) booted_def inited_def load_module_def c_reg_def c_seqs_of_def unat_of_nat)
  with s show ?thesis
    by (intro exI [of _ c'] exI [of _ ?objs] exI [of _ mgr'] exI [of _ en']) simp
qed

lemma manager_setup_registers_witness:
  "\<exists>c' objs' mgr' en'. manager_setup \<lparr>mgr_ctx = Some fresh_ctx, mgr_hold = [], mgr_tbl = []\<rparr> (\<lambda>_. idle_object)
      [7, 9] (\<lambda>_. no_env) no_env = Some (True, mgr', objs', en') \<and>
    mgr_ctx mgr' = Some c' \<and> m_user (get_mod c' 1) = 9 \<and> mb_idx (objs' 9) = 1"
proof -
  let ?mgr = "\<lparr>mgr_ctx = Some fresh_ctx, mgr_hold = [], mgr_tbl = []\<rparr>"
  have "mgr_ctx ?mgr = Some fresh_ctx" "all_ok no_env" by simp_all
  from manager_setup_registers [OF this(1) _ this(2), of "[7, 9]" "\<lambda>_. idle_object" "\<lambda>_. no_env"]
  obtain c' objs' mgr' en' where "manager_setup ?mgr (\<lambda>_. idle_object) [7, 9] (\<lambda>_. no_env) no_env =
      Some (True, mgr', objs', en')" "mgr_ctx mgr' = Some c'"
    and all: "\<forall>i < length [7, 9 :: nat]. m_user (get_mod c' i) = [7, 9] ! i \<and> mb_idx (objs' ([7, 9] ! i)) = of_nat i"
    by (auto simp: MAX_MODULE_def)
  moreover have "m_user (get_mod c' 1) = 9" "mb_idx (objs' 9) = 1"
    using all [rule_format, of 1] by simp_all
  ultimately show ?thesis by blast
qed



end
