(* ===== verification/CoseqSource.thy ===== *)
theory CoseqSource
  imports CoseqWrapper CoseqBuffers
begin

text \<open>
  What becomes of a \<open>source\<close> that a thread outside the modules keeps while it makes its next request: it points
  to data of the thread that the request overwrites.
\<close>

section \<open>The buffer of the calling thread\<close>

lemma stored_message:
  "s_msg (tls_s (t\<lparr>tls_buf := buf, tls_s := s\<lparr>s_msg := take n buf, s_result := a, s_req_id := b, s_thread_idx := d,
     s_seq_idx := e\<rparr>\<rparr>)) = take n (tls_buf (t\<lparr>tls_buf := buf, tls_s := s\<lparr>s_msg := take n buf, s_result := a,
     s_req_id := b, s_thread_idx := d, s_seq_idx := e\<rparr>\<rparr>))"
  by simp

lemma request_sync_end_tls:
  assumes "request_sync_end c t rid mi si en = (t', c', en')"
  shows "s_req_id (tls_s t') = rid" "s_thread_idx (tls_s t') = mi" "s_seq_idx (tls_s t') = si"
    "s_result (tls_s t') = ext_result c" "s_msg (tls_s t') = take (length (s_msg (tls_s t'))) (tls_buf t')"
proof -
  show "s_req_id (tls_s t') = rid" "s_thread_idx (tls_s t') = mi" "s_seq_idx (tls_s t') = si" "s_result (tls_s t') = ext_result c"
    using assms by (auto simp: request_sync_end_def Let_def split_def)
  have "\<exists>n. s_msg (tls_s t') = take n (tls_buf t')"
  proof -
    have t': "t' = fst (request_sync_end c t rid mi si en)" using assms by simp
    show ?thesis
      unfolding t' unfolding request_sync_end_def Let_def split_def
      by (simp only: fst_conv) (rule exI, rule stored_message)
  qed
  then show "s_msg (tls_s t') = take (length (s_msg (tls_s t'))) (tls_buf t')"
    by (metis append_eq_conv_conj append_take_drop_id)
qed

text \<open>The buffer after a call: the reply, followed by what the calls before have left behind it.\<close>

definition mail :: "coseq_ctx_private \<Rightarrow> u8 list" where
  "mail c = (case ext_msg c of None \<Rightarrow> [] | Some b \<Rightarrow> b)"

lemma request_sync_end_buffer:
  assumes "request_sync_end c t rid mi si en = (t', c', en')" and "mailbox_wf c" and "length (tls_buf t) = tls_cap t"
  shows "length (mail c) \<le> tls_cap t \<Longrightarrow> s_msg (tls_s t') = mail c \<and> tls_block t' = tls_block t \<and> tls_cap t' = tls_cap t \<and>
      tls_buf t' = mail c @ drop (length (mail c)) (tls_buf t)"
    and "tls_cap t < length (mail c) \<Longrightarrow> lib_ok en (lib_calls en) \<Longrightarrow> s_msg (tls_s t') = mail c \<and>
      tls_block t' = tls_block t + 1 \<and> tls_cap t' = length (mail c) \<and> tls_buf t' = mail c"
    and "tls_cap t < length (mail c) \<Longrightarrow> \<not> lib_ok en (lib_calls en) \<Longrightarrow> s_msg (tls_s t') = [] \<and>
      tls_block t' = tls_block t \<and> tls_cap t' = tls_cap t \<and> tls_buf t' = tls_buf t"
proof -
  have n: "ext_size c = length (mail c)" and some: "mail c \<noteq> [] \<Longrightarrow> ext_msg c = Some (mail c)"
    using assms(2) by (auto simp: mail_def mailbox_wf_def split: option.splits)
  show "s_msg (tls_s t') = mail c \<and> tls_block t' = tls_block t \<and> tls_cap t' = tls_cap t \<and>
      tls_buf t' = mail c @ drop (length (mail c)) (tls_buf t)" if "length (mail c) \<le> tls_cap t"
    using that assms(1) some by (auto simp: request_sync_end_def n Let_def)
  have m: "ext_msg c = Some (mail c)" if "tls_cap t < length (mail c)" using that some by (cases "mail c") auto
  show "s_msg (tls_s t') = mail c \<and> tls_block t' = tls_block t + 1 \<and> tls_cap t' = length (mail c) \<and> tls_buf t' = mail c"
    if "tls_cap t < length (mail c)" "lib_ok en (lib_calls en)"
    using that assms(1,3) by (auto simp: request_sync_end_def n m lib_call_def Let_def)
  show "s_msg (tls_s t') = [] \<and> tls_block t' = tls_block t \<and> tls_cap t' = tls_cap t \<and> tls_buf t' = tls_buf t"
    if "tls_cap t < length (mail c)" "\<not> lib_ok en (lib_calls en)"
    using that assms(1) by (auto simp: request_sync_end_def n m lib_call_def Let_def)
qed

lemma request_sync_end_shows:
  assumes "request_sync_end c t rid mi si en = (t', c', en')" and "mailbox_wf c" and "length (tls_buf t) = tls_cap t"
  shows "length (tls_buf t') = tls_cap t' \<and> length (s_msg (tls_s t')) \<le> tls_cap t' \<and>
    (tls_block t' = tls_block t \<longleftrightarrow> length (s_msg (tls_s t')) \<le> tls_cap t) \<and>
    take (tls_cap t) (tls_buf t') = take (tls_cap t) (s_msg (tls_s t') @ drop (length (s_msg (tls_s t'))) (tls_buf t))"
proof -
  note b = request_sync_end_buffer [OF assms]
  consider (fits) "length (mail c) \<le> tls_cap t" | (grows) "tls_cap t < length (mail c)" "lib_ok en (lib_calls en)"
    | (fails) "tls_cap t < length (mail c)" "\<not> lib_ok en (lib_calls en)" by linarith
  then show ?thesis
    by cases (use b assms(3) in simp_all)
qed

text \<open>
  C19: A source that is kept shows two replies at once. The object \<open>r\<close> that the manager returns shows the reply to
  its request. But after the next request of the same thread all its getters return what the new reply
  has, the result, the request id and the indices, while its message keeps the length of the old one: its
  bytes are those of the new reply, followed by the rest of the old message where that is longer; and when
  the new reply has not fitted in the buffer, the message lies in memory that has been freed.
\<close>

theorem kept_source_mixes_replies:
  assumes "manager_request_sync_end mgr t rid mi si en = Some (r, t1, mgr1, en1)"
    and "manager_request_sync_end mgr' t1 rid' mi' si' en' = Some (r', t2, mgr2, en2)"
    and "mgr_ctx mgr = Some c" and "mailbox_wf c" and "mgr_ctx mgr' = Some c'" and "mailbox_wf c'"
    and "length (tls_buf t) = tls_cap t"
  defines "old \<equiv> s_msg (tls_s t1)" and "new \<equiv> s_msg (tls_s t2)"
  shows "obj_result t1 r = Some (pp_of_c (ext_result c)) \<and> obj_request_id t1 r = Some rid \<and> obj_thread_idx t1 r = Some mi \<and>
    obj_sequence_idx t1 r = Some si \<and> obj_message t1 r = Some old \<and>
    obj_result t2 r = Some (pp_of_c (ext_result c')) \<and> obj_request_id t2 r = Some rid' \<and> obj_thread_idx t2 r = Some mi' \<and>
    obj_sequence_idx t2 r = Some si' \<and>
    obj_message t2 r = (if old = [] then Some [] else if tls_cap t1 < length new then None
      else Some (take (length old) (new @ drop (length new) (tls_buf t1))))"
proof -
  obtain c1 where 1: "request_sync_end c t rid mi si en = (t1, c1, en1)" and r: "r = source_of (Some t1)"
    using assms(1,3) by (auto simp: manager_request_sync_end_def split: prod.splits)
  obtain c2 where 2: "request_sync_end c' t1 rid' mi' si' en' = (t2, c2, en2)"
    using assms(2,5) by (auto simp: manager_request_sync_end_def split: prod.splits)
  note b1 = request_sync_end_shows [OF 1 assms(4,7)]
  then have "length (tls_buf t1) = tls_cap t1" and le: "length old \<le> tls_cap t1" by (simp_all add: old_def)
  note b2 = request_sync_end_shows [OF 2 assms(6) this(1)]
  have "take (tls_cap t1) (tls_buf t2) = take (tls_cap t1) (new @ drop (length new) (tls_buf t1))"
    using b2 unfolding new_def by blast
  from arg_cong [OF this, of "take (length old)"]
  have "take (length old) (tls_buf t2) = take (length old) (new @ drop (length new) (tls_buf t1))"
    unfolding take_take min_absorb1 [OF le] .
  moreover have "obj_message t1 r = Some old"
    using request_sync_end_tls(5) [OF 1, symmetric] by (simp add: r source_of_def obj_message_def old_def)
  moreover have "tls_block t2 = tls_block t1 \<longleftrightarrow> length new \<le> tls_cap t1" using b2 by (simp add: new_def)
  ultimately have "obj_message t1 r = Some old \<and> obj_message t2 r = (if old = [] then Some [] else if tls_cap t1 < length new then None
      else Some (take (length old) (new @ drop (length new) (tls_buf t1))))"
    by (auto simp: r source_of_def obj_message_def old_def)
  then show ?thesis
    using request_sync_end_tls(1-4) [OF 1] request_sync_end_tls(1-4) [OF 2]
    by (simp add: r source_of_def obj_result_def obj_request_id_def obj_thread_idx_def obj_sequence_idx_def)
qed

definition mailbox_manager :: "coseq_result_t \<Rightarrow> u8 list \<Rightarrow> manager" where
  "mailbox_manager res b = \<lparr>mgr_ctx = Some (fresh_ctx\<lparr>ext_result := res, ext_msg := Some b, ext_size := length b\<rparr>),
     mgr_hold = [], mgr_tbl = []\<rparr>"

text \<open>A success with \<open>ab\<close>, kept over a failure with \<open>x\<close>, is a failure with \<open>xb\<close>.\<close>

lemma kept_source_mixes_replies_witness:
  "\<exists>r t1 mgr1 en1 r' t2 mgr2 en2.
    manager_request_sync_end (mailbox_manager COSEQ_RSLT_SUCCESS [97, 98]) \<lparr>tls_s = zero_src, tls_block = 0, tls_buf = [], tls_cap = 0\<rparr>
      1 0 0 no_env = Some (r, t1, mgr1, en1) \<and>
    manager_request_sync_end (mailbox_manager COSEQ_RSLT_ERROR [120]) t1 2 0 0 no_env = Some (r', t2, mgr2, en2) \<and>
    obj_message t1 r = Some [97, 98] \<and> obj_result t2 r = Some Result_error \<and> obj_message t2 r = Some [120, 98]"
proof -
  let ?t = "\<lparr>tls_s = zero_src, tls_block = 0, tls_buf = [], tls_cap = 0\<rparr>"
  obtain r t1 mgr1 en1 where 1: "manager_request_sync_end (mailbox_manager COSEQ_RSLT_SUCCESS [97, 98]) ?t 1 0 0 no_env = Some (r, t1, mgr1, en1)"
    by (simp add: manager_request_sync_end_def mailbox_manager_def split_def Let_def)
  obtain r' t2 mgr2 en2 where 2: "manager_request_sync_end (mailbox_manager COSEQ_RSLT_ERROR [120]) t1 2 0 0 no_env = Some (r', t2, mgr2, en2)"
    by (simp add: manager_request_sync_end_def mailbox_manager_def split_def Let_def)
  let ?c = "\<lambda>res b. fresh_ctx\<lparr>ext_result := res, ext_msg := Some b, ext_size := length b\<rparr>"
  have wf: "mailbox_wf (?c res b)" "mail (?c res b) = b" for res b by (simp_all add: mailbox_wf_def mail_def)
  have c: "mgr_ctx (mailbox_manager res b) = Some (?c res b)" for res b by (simp add: mailbox_manager_def)
  obtain c1 where e1: "request_sync_end (?c COSEQ_RSLT_SUCCESS [97, 98]) ?t 1 0 0 no_env = (t1, c1, en1)"
    using 1 c by (auto simp: manager_request_sync_end_def split: prod.splits)
  obtain c2 where e2: "request_sync_end (?c COSEQ_RSLT_ERROR [120]) t1 2 0 0 no_env = (t2, c2, en2)"
    using 2 c by (auto simp: manager_request_sync_end_def split: prod.splits)
  have t1: "s_msg (tls_s t1) = [97, 98]" "tls_buf t1 = [97, 98]" "tls_cap t1 = 2"
    using request_sync_end_buffer(2) [OF e1 wf(1), unfolded wf(2)] by (simp_all add: no_env_def)
  have t2: "s_msg (tls_s t2) = [120]"
    using request_sync_end_buffer(1) [OF e2 wf(1), unfolded wf(2)] t1 by simp
  from kept_source_mixes_replies [OF 1 2 c wf(1) c wf(1)] have "obj_message t1 r = Some [97, 98] \<and>
      obj_result t2 r = Some Result_error \<and> obj_message t2 r = Some [120, 98]"
    by (simp add: t1 t2)
  then show ?thesis using 1 2 by blast
qed

end
