(* ===== verification/CoseqClient.thy ===== *)
theory CoseqClient
  imports CoseqSource CoseqChain
begin

text \<open>
  Programs of a thread outside the modules, such as \<open>main\<close> of the samples and of the tests: the calls they
  make on an instance, over the C interface or through the manager of the C++ binding, and their
  run. A step that waits, a synchronous request or a sleep, lets the threads of the modules take the turns
  a schedule gives them; it is the schedule that decides how fast time passes, so a run is one order in
  which the threads may be scheduled. The manager is shown to add nothing: a program runs through it as
  it runs on the instance.
\<close>

section \<open>Programs of a client thread\<close>

text \<open>
  \<open>'r\<close> is what a synchronous request returns: a pointer, or an object that holds pointers, to the variables of
  \<open>request_sync\<close> in the calling thread. \<open>Look\<close> reads these variables as they are at that moment. \<open>Print\<close> writes to
  the console; \<open>Load\<close> reads the globals the sequences write, and \<open>Load_errors\<close> what the log callback has counted.
  \<open>Abort\<close> stands for \<open>std::abort\<close>, \<open>Crash\<close> for the use of memory that has been freed.
\<close>

datatype 'r client_prog =
    Exit int
  | Abort
  | Crash
  | Call_sync u8 u8 cbuf nat "'r \<Rightarrow> 'r client_prog"
  | Look "sync_tls \<Rightarrow> 'r client_prog"
  | Call_async u8 u8 cbuf nat "'r client_prog"
  | Sleep nat "'r client_prog"
  | Print string "'r client_prog"
  | Load "memory \<Rightarrow> 'r client_prog"
  | Load_errors "int \<Rightarrow> 'r client_prog"
  | Teardown "'r client_prog"
  | Destroy "'r client_prog"

text \<open>How a run ends; \<open>Stopped\<close> when the schedule is over, a reply does not come, or a null pointer or freed memory is used.\<close>

datatype client_end = Exited int | Aborted | Stopped

text \<open>
  The operations of an interface on the state \<open>'s\<close> of a client; \<open>None\<close> where a run cannot go on. \<open>op_console\<close> is
  what the sequences of the modules have written to the console so far.
\<close>

record ('r, 's) client_ops =
  op_sync :: "u8 \<Rightarrow> u8 \<Rightarrow> cbuf \<Rightarrow> nat \<Rightarrow> nat list \<Rightarrow> 's \<Rightarrow> ('r \<times> 's) option"
  op_async :: "u8 \<Rightarrow> u8 \<Rightarrow> cbuf \<Rightarrow> nat \<Rightarrow> 's \<Rightarrow> 's option"
  op_tls :: "'s \<Rightarrow> sync_tls"
  op_sleep :: "nat list \<Rightarrow> 's \<Rightarrow> 's option"
  op_memory :: "'s \<Rightarrow> memory option"
  op_errors :: "'s \<Rightarrow> int"
  op_console :: "'s \<Rightarrow> string"
  op_teardown :: "'s \<Rightarrow> 's option"
  op_destroy :: "'s \<Rightarrow> 's option"

text \<open>
  What is printed, by the client and while it waits by the modules, and the end. Each waiting step uses
  up one entry of the schedule.
\<close>

definition then_run :: "string \<Rightarrow> string \<times> client_end \<Rightarrow> string \<times> client_end" where
  "then_run txt r = (txt @ fst r, snd r)"

lemma then_run_simps [simp]:
  "then_run txt (out, e) = (txt @ out, e)" "then_run [] r = r"
  by (simp_all add: then_run_def)

definition written_since :: "('r, 's) client_ops \<Rightarrow> 's \<Rightarrow> 's \<Rightarrow> string" where
  "written_since ops s s1 = drop (length (op_console ops s)) (op_console ops s1)"

primrec run_client :: "('r, 's) client_ops \<Rightarrow> 'r client_prog \<Rightarrow> nat list list \<Rightarrow> 's \<Rightarrow> string \<times> client_end" where
  "run_client ops (Exit n) sched s = ('''', Exited n)"
| "run_client ops Abort sched s = ('''', Aborted)"
| "run_client ops Crash sched s = ('''', Stopped)"
| "run_client ops (Call_sync mi si msg len k) sched s = (case sched of
       [] \<Rightarrow> ('''', Stopped)
     | is # rest \<Rightarrow> (case op_sync ops mi si msg len is s of
         None \<Rightarrow> ('''', Stopped) | Some (r, s1) \<Rightarrow> then_run (written_since ops s s1) (run_client ops (k r) rest s1)))"
| "run_client ops (Look k) sched s = run_client ops (k (op_tls ops s)) sched s"
| "run_client ops (Call_async mi si msg len p) sched s = (case op_async ops mi si msg len s of
       None \<Rightarrow> ('''', Stopped) | Some s1 \<Rightarrow> run_client ops p sched s1)"
| "run_client ops (Sleep ms p) sched s = (case sched of
       [] \<Rightarrow> ('''', Stopped)
     | is # rest \<Rightarrow> (case op_sleep ops is s of
         None \<Rightarrow> ('''', Stopped) | Some s1 \<Rightarrow> then_run (written_since ops s s1) (run_client ops p rest s1)))"
| "run_client ops (Print txt p) sched s = then_run txt (run_client ops p sched s)"
| "run_client ops (Load k) sched s = (case op_memory ops s of
       None \<Rightarrow> ('''', Stopped) | Some u \<Rightarrow> run_client ops (k u) sched s)"
| "run_client ops (Load_errors k) sched s = run_client ops (k (op_errors ops s)) sched s"
| "run_client ops (Teardown p) sched s = (case op_teardown ops s of
       None \<Rightarrow> ('''', Stopped) | Some s1 \<Rightarrow> run_client ops p sched s1)"
| "run_client ops (Destroy p) sched s = (case op_destroy ops s of
       None \<Rightarrow> ('''', Stopped) | Some s1 \<Rightarrow> run_client ops p sched s1)"

section \<open>The C interface\<close>

text \<open>
  The handle (a null pointer after a failed \<open>create_coseq\<close>), the \<open>__thread\<close> variables of \<open>request_sync\<close> in
  the calling thread, and its surroundings.
\<close>

record c_client =
  cc_ctx :: "coseq_ctx_private option"
  cc_tls :: sync_tls
  cc_env :: env

definition no_tls :: sync_tls where
  "no_tls = \<lparr>tls_s = zero_src, tls_block = 0, tls_buf = [], tls_cap = 0\<rparr>"

text \<open>A synchronous request returns the address of \<open>s\<close> of the thread, of which there is one.\<close>

datatype src_addr = Addr_of_s

text \<open>\<open>*r\<close>, read now.\<close>

definition deref_src :: "src_addr \<Rightarrow> (coseq_src_t \<Rightarrow> 'r client_prog) \<Rightarrow> 'r client_prog" where
  "deref_src r k = (case r of Addr_of_s \<Rightarrow> Look (\<lambda>t. k (tls_s t)))"

definition c_sync :: "u8 \<Rightarrow> u8 \<Rightarrow> cbuf \<Rightarrow> nat \<Rightarrow> nat list \<Rightarrow> c_client \<Rightarrow> (src_addr \<times> c_client) option" where
  "c_sync module_idx seq_idx msg len is cl = (case cc_ctx cl of
       None \<Rightarrow> None
     | Some c \<Rightarrow> (let (rid, c1, en1) = request_sync_begin c module_idx seq_idx msg len (cc_env cl)
         in case turns is c1 of
              None \<Rightarrow> None
            | Some c2 \<Rightarrow> if \<not> ext_ready c2 then None
                else (let (t, c3, en2) = request_sync_end c2 (cc_tls cl) rid module_idx seq_idx en1
                      in Some (Addr_of_s, \<lparr>cc_ctx = Some c3, cc_tls = t, cc_env = en2\<rparr>))))"

definition c_async :: "u8 \<Rightarrow> u8 \<Rightarrow> cbuf \<Rightarrow> nat \<Rightarrow> c_client \<Rightarrow> c_client option" where
  "c_async module_idx seq_idx msg len cl = map_option (\<lambda>c.
     let (c1, en1) = request_async c module_idx seq_idx msg len (cc_env cl)
     in cl\<lparr>cc_ctx := Some c1, cc_env := en1\<rparr>) (cc_ctx cl)"

definition c_sleep :: "nat list \<Rightarrow> c_client \<Rightarrow> c_client option" where
  "c_sleep is cl = (case cc_ctx cl of
       None \<Rightarrow> Some cl
     | Some c \<Rightarrow> map_option (\<lambda>c1. cl\<lparr>cc_ctx := Some c1\<rparr>) (turns is c))"

definition c_teardown :: "c_client \<Rightarrow> c_client option" where
  "c_teardown cl = map_option (\<lambda>c. let (c1, en1) = coseq_teardown c (cc_env cl)
     in cl\<lparr>cc_ctx := Some c1, cc_env := en1\<rparr>) (cc_ctx cl)"

definition c_destroy :: "c_client \<Rightarrow> c_client option" where
  "c_destroy cl = (let (gone, en1) = coseq_destroy (cc_ctx cl) (cc_env cl) in Some (cl\<lparr>cc_ctx := gone, cc_env := en1\<rparr>))"

text \<open>
  \<open>counted\<close> is what the log callback has counted in the calling thread and in the instance, \<open>console\<close> what
  the memory of the sequences shows as written to the console.
\<close>

definition stdout :: "memory \<Rightarrow> string" where
  "stdout u = map char_of (u ''stdout'')"

definition no_console :: "memory \<Rightarrow> string" where
  "no_console u = []"

definition c_ops :: "(env \<Rightarrow> coseq_ctx_private option \<Rightarrow> int) \<Rightarrow> (memory \<Rightarrow> string) \<Rightarrow> (src_addr, c_client) client_ops" where
  "c_ops counted console = \<lparr>op_sync = c_sync, op_async = c_async, op_tls = cc_tls, op_sleep = c_sleep,
     op_memory = \<lambda>cl. map_option user_mem (cc_ctx cl), op_errors = \<lambda>cl. counted (cc_env cl) (cc_ctx cl),
     op_console = \<lambda>cl. (case cc_ctx cl of None \<Rightarrow> [] | Some c \<Rightarrow> console (user_mem c)),
     op_teardown = c_teardown, op_destroy = c_destroy\<rparr>"

section \<open>The manager\<close>

record pp_client =
  cl_mgr :: manager
  cl_tls :: sync_tls
  cl_env :: env

definition let_run :: "nat list \<Rightarrow> manager \<Rightarrow> manager option" where
  "let_run is mgr = (case mgr_ctx mgr of
       None \<Rightarrow> Some mgr
     | Some c \<Rightarrow> map_option (\<lambda>c1. mgr\<lparr>mgr_ctx := Some c1\<rparr>) (turns is c))"

definition pp_sync :: "u8 \<Rightarrow> u8 \<Rightarrow> cbuf \<Rightarrow> nat \<Rightarrow> nat list \<Rightarrow> pp_client \<Rightarrow> (source_obj \<times> pp_client) option" where
  "pp_sync module_idx seq_idx msg len is cl =
     (case manager_request_sync_begin (cl_mgr cl) module_idx seq_idx msg len (cl_env cl) of
        None \<Rightarrow> None
      | Some (rid, mgr1, en1) \<Rightarrow> (case let_run is mgr1 of
          None \<Rightarrow> None
        | Some mgr2 \<Rightarrow>
            if \<not> (case mgr_ctx mgr2 of None \<Rightarrow> False | Some c \<Rightarrow> ext_ready c) then None
            else map_option (\<lambda>(s, t, mgr3, en2). (s, \<lparr>cl_mgr = mgr3, cl_tls = t, cl_env = en2\<rparr>))
                   (manager_request_sync_end mgr2 (cl_tls cl) rid module_idx seq_idx en1)))"

definition pp_async :: "u8 \<Rightarrow> u8 \<Rightarrow> cbuf \<Rightarrow> nat \<Rightarrow> pp_client \<Rightarrow> pp_client option" where
  "pp_async module_idx seq_idx msg len cl =
     map_option (\<lambda>(mgr1, en1). cl\<lparr>cl_mgr := mgr1, cl_env := en1\<rparr>)
       (manager_request_async (cl_mgr cl) module_idx seq_idx msg len (cl_env cl))"

definition pp_sleep :: "nat list \<Rightarrow> pp_client \<Rightarrow> pp_client option" where
  "pp_sleep is cl = map_option (\<lambda>mgr1. cl\<lparr>cl_mgr := mgr1\<rparr>) (let_run is (cl_mgr cl))"

definition pp_teardown :: "pp_client \<Rightarrow> pp_client option" where
  "pp_teardown cl = map_option (\<lambda>(mgr1, en1). cl\<lparr>cl_mgr := mgr1, cl_env := en1\<rparr>)
     (manager_teardown (cl_mgr cl) (cl_env cl))"

text \<open>The destructor, at the end of the scope.\<close>

definition pp_destroy :: "pp_client \<Rightarrow> pp_client option" where
  "pp_destroy cl = (let (mgr1, en1) = manager_destroy (cl_mgr cl) (cl_env cl)
     in Some (cl\<lparr>cl_mgr := mgr1, cl_env := en1\<rparr>))"

definition pp_ops :: "(env \<Rightarrow> coseq_ctx_private option \<Rightarrow> int) \<Rightarrow> (memory \<Rightarrow> string) \<Rightarrow> (source_obj, pp_client) client_ops" where
  "pp_ops counted console = \<lparr>op_sync = pp_sync, op_async = pp_async, op_tls = cl_tls, op_sleep = pp_sleep,
     op_memory = \<lambda>cl. map_option user_mem (mgr_ctx (cl_mgr cl)),
     op_errors = \<lambda>cl. counted (cl_env cl) (mgr_ctx (cl_mgr cl)),
     op_console = \<lambda>cl. (case mgr_ctx (cl_mgr cl) of None \<Rightarrow> [] | Some c \<Rightarrow> console (user_mem c)),
     op_teardown = pp_teardown, op_destroy = pp_destroy\<rparr>"

text \<open>The getters of the object \<open>r\<close>, called now.\<close>

definition look :: "source_obj \<Rightarrow> (pp_source \<Rightarrow> 'r client_prog) \<Rightarrow> 'r client_prog" where
  "look r k = Look (\<lambda>t. case reading t r of None \<Rightarrow> Crash | Some x \<Rightarrow> k x)"

lemma run_look:
  "run_client ops (look r k) sched s = (case reading (op_tls ops s) r of
     None \<Rightarrow> ('''', Stopped) | Some x \<Rightarrow> run_client ops (k x) sched s)"
  "run_client ops (deref_src a k') sched s = run_client ops (k' (tls_s (op_tls ops s))) sched s"
  by (simp_all add: look_def deref_src_def split: option.split src_addr.split)

text \<open>Before the next request an object shows the reply it was returned for.\<close>

lemma reading_new: "reading t (source_of (Some t)) =
    Some \<lparr>src_ptr = Some (tls_s t), src_message = take (length (s_msg (tls_s t))) (tls_buf t)\<rparr>"
  by (simp add: reading_def source_of_def obj_message_def)

lemma reading_reply:
  "request_sync_end c t rid mi si en = (t', c', en') \<Longrightarrow>
    reading t' (source_of (Some t')) = Some (new_source (Some (tls_s t')))"
  using request_sync_end_tls(5) [of c t rid mi si en t' c' en']
  by (simp add: reading_new new_source_def source_set_def)

lemma pp_sync_reading:
  assumes "pp_sync mi si msg len is cl = Some (s, cl')"
  shows "reading (cl_tls cl') s = Some (new_source (Some (tls_s (cl_tls cl'))))"
  using assms
  by (auto simp: pp_sync_def manager_request_sync_end_def reading_reply split: option.splits if_splits prod.splits)

lemma c_sync_message:
  assumes "c_sync mi si msg len is cl = Some (s, cl')"
  shows "take (length (s_msg (tls_s (cc_tls cl')))) (tls_buf (cc_tls cl')) = s_msg (tls_s (cc_tls cl'))"
  using assms request_sync_end_tls(5)
  by (fastforce simp: c_sync_def Let_def split: option.splits if_splits prod.splits)

text \<open>When the sequences write nothing, only the client does.\<close>

lemma console_silent: "(case x of None \<Rightarrow> [] | Some c \<Rightarrow> no_console (f c)) = []"
  by (simp add: no_console_def split: option.split)

section \<open>One interface over another\<close>

text \<open>
  A program for one interface on another one, whose results \<open>f\<close> wraps; it may read the variables of the
  thread to do so.
\<close>

primrec over :: "(sync_tls \<Rightarrow> 'q \<Rightarrow> 'r) \<Rightarrow> 'r client_prog \<Rightarrow> 'q client_prog" where
  "over f (Exit n) = Exit n"
| "over f Abort = Abort"
| "over f Crash = Crash"
| "over f (Call_sync mi si msg len k) = Call_sync mi si msg len (\<lambda>q. Look (\<lambda>t. over f (k (f t q))))"
| "over f (Look k) = Look (\<lambda>t. over f (k t))"
| "over f (Call_async mi si msg len p) = Call_async mi si msg len (over f p)"
| "over f (Sleep ms p) = Sleep ms (over f p)"
| "over f (Print txt p) = Print txt (over f p)"
| "over f (Load k) = Load (\<lambda>u. over f (k u))"
| "over f (Load_errors k) = Load_errors (\<lambda>n. over f (k n))"
| "over f (Teardown p) = Teardown (over f p)"
| "over f (Destroy p) = Destroy (over f p)"

text \<open>
  When the operations of the two interfaces take related states to related states and results, no program
  can tell them apart.
\<close>

locale client_simulation =
  fixes ops :: "('r, 's) client_ops" and ops' :: "('q, 'u) client_ops" and f :: "sync_tls \<Rightarrow> 'q \<Rightarrow> 'r"
    and R :: "'s \<Rightarrow> 'u \<Rightarrow> bool"
  assumes sync: "R s u \<Longrightarrow> rel_option (\<lambda>(r, s') (q, u'). r = f (op_tls ops' u') q \<and> R s' u')
      (op_sync ops mi si msg len is s) (op_sync ops' mi si msg len is u)"
    and variables: "R s u \<Longrightarrow> op_tls ops s = op_tls ops' u"
    and async: "R s u \<Longrightarrow> rel_option R (op_async ops mi si msg len s) (op_async ops' mi si msg len u)"
    and sleep: "R s u \<Longrightarrow> rel_option R (op_sleep ops is s) (op_sleep ops' is u)"
    and memory: "R s u \<Longrightarrow> op_memory ops s = op_memory ops' u"
    and errors: "R s u \<Longrightarrow> op_errors ops s = op_errors ops' u"
    and console: "R s u \<Longrightarrow> op_console ops s = op_console ops' u"
    and teardown: "R s u \<Longrightarrow> rel_option R (op_teardown ops s) (op_teardown ops' u)"
    and destroy: "R s u \<Longrightarrow> rel_option R (op_destroy ops s) (op_destroy ops' u)"
begin

lemma written_agree: "R s u \<Longrightarrow> R s' u' \<Longrightarrow> written_since ops' u u' = written_since ops s s'"
  by (simp add: written_since_def console)

lemma runs_agree: "R s u \<Longrightarrow> run_client ops' (over f p) sched u = run_client ops p sched s"
proof (induction p arbitrary: sched s u)
  case (Call_sync mi si msg len k)
  show ?case
  proof (cases sched)
    case (Cons ts rest)
    show ?thesis
      using sync [OF Call_sync.prems, of mi si msg len ts]
      by (cases rule: option.rel_cases)
        (auto simp: Cons written_agree [OF Call_sync.prems] intro!: arg_cong [of _ _ "then_run _"] Call_sync.IH)
  qed simp
next
  case (Look k)
  show ?case using variables [OF Look.prems] Look by simp
next
  case (Call_async mi si msg len p)
  show ?case
    using async [OF Call_async.prems, of mi si msg len]
    by (cases rule: option.rel_cases) (auto intro!: Call_async.IH)
next
  case (Sleep ms p)
  show ?case
  proof (cases sched)
    case (Cons ts rest)
    show ?thesis
      using sleep [OF Sleep.prems, of ts]
      by (cases rule: option.rel_cases)
        (auto simp: Cons written_agree [OF Sleep.prems] intro!: arg_cong [of _ _ "then_run _"] Sleep.IH)
  qed simp
next
  case (Load k)
  show ?case using memory [OF Load.prems] Load by (auto split: option.split)
next
  case (Load_errors k)
  show ?case using errors [OF Load_errors.prems] Load_errors by simp
next
  case (Teardown p)
  show ?case
    using teardown [OF Teardown.prems] by (cases rule: option.rel_cases) (auto intro!: Teardown.IH)
next
  case (Destroy p)
  show ?case
    using destroy [OF Destroy.prems] by (cases rule: option.rel_cases) (auto intro!: Destroy.IH)
qed simp_all

end

text \<open>A manager over an instance, and what it makes of a reply.\<close>

definition manages :: "pp_client \<Rightarrow> c_client \<Rightarrow> bool" where
  "manages cl c \<longleftrightarrow> mgr_ctx (cl_mgr cl) = cc_ctx c \<and> cl_tls cl = cc_tls c \<and> cl_env cl = cc_env c"

definition wrapped_reply :: "sync_tls \<Rightarrow> src_addr \<Rightarrow> source_obj" where
  "wrapped_reply t r = (case r of Addr_of_s \<Rightarrow> source_of (Some t))"

interpretation thin: client_simulation "pp_ops counted console" "c_ops counted console" wrapped_reply manages
proof
  fix s u mi si msg len ts
  assume R: "manages s u"
  then have eq: "mgr_ctx (cl_mgr s) = cc_ctx u" "cl_tls s = cc_tls u" "cl_env s = cc_env u"
    by (simp_all add: manages_def)
  show "rel_option (\<lambda>(r, s') (q, u'). r = wrapped_reply (op_tls (c_ops counted console) u') q \<and> manages s' u')
      (op_sync (pp_ops counted console) mi si msg len ts s) (op_sync (c_ops counted console) mi si msg len ts u)"
    by (auto simp: c_ops_def pp_ops_def c_sync_def pp_sync_def eq manager_request_sync_begin_def let_run_def
        manager_request_sync_end_def manages_def wrapped_reply_def Let_def split: option.split prod.split)
  show "rel_option manages (op_async (pp_ops counted console) mi si msg len s) (op_async (c_ops counted console) mi si msg len u)"
    by (cases "cc_ctx u") (simp_all add: c_ops_def pp_ops_def c_async_def pp_async_def eq manager_request_async_def
        manages_def split_def Let_def)
  show "rel_option manages (op_sleep (pp_ops counted console) ts s) (op_sleep (c_ops counted console) ts u)"
    using R
    by (cases "cc_ctx u"; cases "turns ts (the (cc_ctx u))")
      (auto simp: c_ops_def pp_ops_def c_sleep_def pp_sleep_def let_run_def eq manages_def)
  show "op_memory (pp_ops counted console) s = op_memory (c_ops counted console) u"
    "op_errors (pp_ops counted console) s = op_errors (c_ops counted console) u"
    "op_tls (pp_ops counted console) s = op_tls (c_ops counted console) u"
    "op_console (pp_ops counted console) s = op_console (c_ops counted console) u"
    by (simp_all add: c_ops_def pp_ops_def eq)
  show "rel_option manages (op_teardown (pp_ops counted console) s) (op_teardown (c_ops counted console) u)"
    by (cases "cc_ctx u") (simp_all add: c_ops_def pp_ops_def c_teardown_def pp_teardown_def eq manager_teardown_def
        manages_def split_def Let_def)
  show "rel_option manages (op_destroy (pp_ops counted console) s) (op_destroy (c_ops counted console) u)"
    by (auto simp: c_ops_def pp_ops_def c_destroy_def pp_destroy_def eq manager_destroy_def coseq_destroy_def manages_def
        split_def Let_def split: option.split)
qed

text \<open>
  Through the manager a program prints what it prints on the instance the manager holds, and ends in the same
  way, when it makes an object of class \<open>source\<close> of every pointer it gets.
\<close>

lemma run_over:
  assumes "mgr_ctx mgr = ctx"
  shows "run_client (pp_ops counted console) p sched \<lparr>cl_mgr = mgr, cl_tls = t, cl_env = en\<rparr> =
    run_client (c_ops counted console) (over wrapped_reply p) sched \<lparr>cc_ctx = ctx, cc_tls = t, cc_env = en\<rparr>"
  by (rule thin.runs_agree [symmetric]) (simp add: manages_def assms)

lemma over_look: "over f (look r k) = look r (\<lambda>x. over f (k x))"
  by (auto simp: look_def split: option.split)

section \<open>Threads whose clocks move on\<close>

text \<open>
  The surroundings of the thread of a module: nothing fails, and \<open>clk\<close> are the readings of its clock, each
  300 ms or more after those before it, so that a timer of the tests has expired when its thread takes its
  next turn.
\<close>

definition paced :: "(nat \<Rightarrow> nat \<Rightarrow> timespec) \<Rightarrow> bool" where
  "paced clk \<longleftrightarrow> (\<forall>i n k. \<forall>ms \<in> {100, 300}. \<not> ts_lt (clk i (n + Suc k)) (ts_add_ms (clk i n) ms))"

definition thread_env :: "(nat \<Rightarrow> timespec) \<Rightarrow> (int \<times> log_msg) list \<Rightarrow> nat \<Rightarrow> nat \<Rightarrow> env" where
  "thread_env clk lg x y = \<lparr>lib_ok = \<lambda>_. True, lib_calls = x, clock = \<lambda>n. Some (clk n), clock_reads = y,
     log_cb = True, logs = lg\<rparr>"

text \<open>The thread of each module, before the callback is set.\<close>

definition module_env :: "(nat \<Rightarrow> timespec) \<Rightarrow> env" where
  "module_env clk = no_env\<lparr>clock := \<lambda>n. Some (clk n)\<rparr>"

lemma module_env_logging: "(module_env clk)\<lparr>log_cb := True\<rparr> = thread_env clk [] 0 0"
  by (simp add: module_env_def thread_env_def no_env_def)

section \<open>Evaluating turns\<close>

lemma index_in_table:
  "\<not> (12 :: u8) \<le> 0" "\<not> (12 :: u8) \<le> 1" "\<not> (12 :: u8) \<le> 2" "\<not> (12 :: u8) \<le> 3" "\<not> (12 :: u8) \<le> 4"
  "\<not> (12 :: u8) \<le> 5" "\<not> (12 :: u8) \<le> 6" "\<not> (12 :: u8) \<le> 7" "\<not> (12 :: u8) \<le> 8" "\<not> (12 :: u8) \<le> 9"
  "\<not> (12 :: u8) \<le> 10" "\<not> (12 :: u8) \<le> 11" "\<not> (3 :: u8) \<le> 0" "\<not> (3 :: u8) \<le> 1" "\<not> (3 :: u8) \<le> 2"
  "\<not> (6 :: u8) \<le> 0" "\<not> (6 :: u8) \<le> 1" "\<not> (6 :: u8) \<le> 2" "\<not> (6 :: u8) \<le> 3" "\<not> (6 :: u8) \<le> 4"
  "\<not> (6 :: u8) \<le> 5"
  by (simp_all add: word_le_nat_alt)

lemma timers:
  assumes "paced clk"
  shows "\<not> clk i (Suc n) < ts_add_ms (clk i n) 100" "\<not> clk i (Suc n) < ts_add_ms (clk i n) 300"
    "\<not> clk i (Suc (Suc n)) < ts_add_ms (clk i n) 100" "\<not> clk i (Suc (Suc n)) < ts_add_ms (clk i n) 300"
proof -
  have *: "\<not> clk i (n + Suc k) < ts_add_ms (clk i n) ms" if "ms \<in> {100, 300}" for k ms
    using assms that by (auto simp: paced_def)
  show "\<not> clk i (Suc n) < ts_add_ms (clk i n) 100" "\<not> clk i (Suc n) < ts_add_ms (clk i n) 300"
    "\<not> clk i (Suc (Suc n)) < ts_add_ms (clk i n) 100" "\<not> clk i (Suc (Suc n)) < ts_add_ms (clk i n) 300"
    using * [of 100 0] * [of 300 0] * [of 100 1] * [of 300 1] by simp_all
qed

lemma turns_case:
  "(case ok (True, c') of None \<Rightarrow> None | Some (Inl u) \<Rightarrow> None | Some (Inr (True, c')) \<Rightarrow> F c'
     | Some (Inr (False, c')) \<Rightarrow> None) = F c'"
  by (simp add: ok_def)

lemma set_mod_swap: "i < j \<Longrightarrow> set_mod j m (set_mod i m' c) = set_mod i m' (set_mod j m c)"
  by (simp add: set_mod_def list_update_swap)

end
