(* ===== verification/CoseqSamplePP.thy ===== *)
theory CoseqSamplePP
  imports CoseqWrapper CoseqSample
begin

text \<open>
  The sample of the C++ binding (\<open>samplespp/sample.cpp\<close>): its three classes, whose members run the same
  calls as the sequences of \<open>samples/sample.c\<close> and write almost the same to the console.
\<close>

section \<open>Module A\<close>

definition pp_echo :: "pp_source \<Rightarrow> seq_prog" where
  "pp_echo it = iface_get_source it (\<lambda>s.
     iface_reply Result_success (Some (src_message s)) (length (src_message s)) Return)"

text \<open>\<open>(int)r.get_result()\<close>, with the digit left out where the source dereferences a null pointer.\<close>

definition pp_result_text :: "pp_source \<Rightarrow> string" where
  "pp_result_text r = (case get_result r of None \<Rightarrow> '''' | Some v \<Rightarrow> decimal (result_code (c_of_pp v)))"

definition pp_chain :: "pp_source \<Rightarrow> seq_prog" where
  "pp_chain it = put_text (''[A::chain] lock + request B::chain'' @ nl)
     (iface_lock (iface_request it MOD_B B_CHAIN None 0 (\<lambda>r. iface_unlock
       (put_text (''[A::chain] reply from B ['' @ pp_result_text r @ '']'' @ nl)
         (iface_reply Result_success None 0 Return)))))"

definition pp_sub :: "pp_source \<Rightarrow> seq_prog" where
  "pp_sub it = put_text (''[A::sub] request C::register'' @ nl) (iface_request it MOD_C C_REGISTER None 0 (\<lambda>r.
     let client_id = (if length (src_message r) \<noteq> 0 then src_message r ! 0 else 0xff)
     in put_text (''[A::sub] subscribed. client_id='' @ decimal (unat client_id) @ nl)
          (iface_reply Result_success None 0 Return)))"

definition pp_reqto :: "pp_source \<Rightarrow> seq_prog" where
  "pp_reqto it = put_text (''[A::reqto] request_timeout B::slow (100ms, B takes 300ms)'' @ nl)
     (iface_request_timeout it MOD_B B_SLOW None 0 100 (\<lambda>r.
       put_text (''[A::reqto] result ['' @ pp_result_text r @ ''] ('' @
           (if get_result r = Some Result_request_timeout then ''REQ_TIMEOUT'' else ''other'') @ '')'' @ nl)
         (iface_reply Result_success None 0 Return)))"

text \<open>
  The loop of \<open>fanout\<close> reads the request id and the result of each reply; where \<open>wait_reply\<close> has set a
  null pointer the member is taken to end, as in the model of the C sample. With two requests
  outstanding this never happens.
\<close>

definition pp_fanout_line :: "u32 \<Rightarrow> u32 \<Rightarrow> u32 \<Rightarrow> pp_source \<Rightarrow> string" where
  "pp_fanout_line id_b id_c rid r =
     (let who = (if rid = id_b then ''B::slow'' else if rid = id_c then ''C::work'' else ''?'')
      in ''[A::fanout] got id='' @ decimal (unat rid) @ '' ('' @ who @ '') result='' @ pp_result_text r @ nl)"

definition pp_fanout :: "pp_source \<Rightarrow> seq_prog" where
  "pp_fanout it = iface_request_async MOD_B B_SLOW None 0 (\<lambda>id_b.
     iface_request_async MOD_C C_WORK None 0 (\<lambda>id_c.
     put_text (''[A::fanout] fired B(id='' @ decimal (unat id_b) @ '') & C(id='' @ decimal (unat id_c) @
         ''), gather...'' @ nl)
     (iface_wait_reply it (\<lambda>r1. case get_request_id r1 of
         None \<Rightarrow> Return
       | Some rid1 \<Rightarrow> put_text (pp_fanout_line id_b id_c rid1 r1)
           (iface_wait_reply r1 (\<lambda>r2. case get_request_id r2 of
               None \<Rightarrow> Return
             | Some rid2 \<Rightarrow> put_text (pp_fanout_line id_b id_c rid2 r2)
                 (iface_reply Result_success None 0 Return)))))))"

text \<open>The loop of \<open>gather\<close> over the vector of replies.\<close>

definition pp_gather_line :: "pp_reply \<Rightarrow> string" where
  "pp_gather_line r = ''[A::gather] reply id='' @ decimal (unat (rp_req_id r)) @ '' result='' @
     decimal (result_code (c_of_pp (rp_rslt r))) @ nl"

primrec pp_gather_lines :: "pp_reply list \<Rightarrow> seq_prog \<Rightarrow> seq_prog" where
  "pp_gather_lines [] p = p"
| "pp_gather_lines (r # rs) p = put_text (pp_gather_line r) (pp_gather_lines rs p)"

definition pp_gather :: "pp_source \<Rightarrow> seq_prog" where
  "pp_gather it = iface_request_async MOD_B B_SLOW None 0 (\<lambda>_.
     iface_request_async MOD_C C_WORK None 0 (\<lambda>_.
     gather_all [] (\<lambda>replies. pp_gather_lines replies
       (put_text (''[A::gather] all '' @ decimal (length replies) @ '' replies gathered'' @ nl)
         (iface_reply Result_success None 0 Return)))))"

definition pp_on_receive_notify :: "pp_source \<Rightarrow> seq_prog" where
  "pp_on_receive_notify it = iface_get_source it (\<lambda>s. put_text (''    [A::recv_notify] client_id='' @
     (case get_client_id s of None \<Rightarrow> '''' | Some i \<Rightarrow> decimal (unat i)) @
     '' msg=['' @ text_of (src_message s) @ '']'' @ nl) Return)"

definition pp_module_a :: module_base where
  "pp_module_a = set_sequences
     [\<lparr>sq_member = pp_echo, sq_title = ''echo''\<rparr>, \<lparr>sq_member = pp_chain, sq_title = ''chain''\<rparr>,
      \<lparr>sq_member = pp_sub, sq_title = ''sub''\<rparr>, \<lparr>sq_member = pp_reqto, sq_title = ''reqto''\<rparr>,
      \<lparr>sq_member = pp_fanout, sq_title = ''fanout''\<rparr>, \<lparr>sq_member = pp_gather, sq_title = ''gather''\<rparr>]
     ((new_module_base ''ModuleA'' 10)\<lparr>mb_on_receive_notify := pp_on_receive_notify\<rparr>)"

section \<open>Modules B and C\<close>

definition pp_b_chain :: "pp_source \<Rightarrow> seq_prog" where
  "pp_b_chain it = put_text (''  [B::chain] request C::work'' @ nl) (iface_request it MOD_C C_WORK None 0 (\<lambda>r.
     put_text (''  [B::chain] reply from C ['' @ pp_result_text r @ '']'' @ nl)
       (iface_reply Result_success None 0 Return)))"

definition pp_slow :: "pp_source \<Rightarrow> seq_prog" where
  "pp_slow it = iface_wait_timeout 300 (iface_reply Result_success None 0 Return)"

definition pp_module_b :: module_base where
  "pp_module_b = set_sequences
     [\<lparr>sq_member = pp_b_chain, sq_title = ''chain''\<rparr>, \<lparr>sq_member = pp_slow, sq_title = ''slow''\<rparr>]
     (new_module_base ''ModuleB'' 10)"

text \<open>The endless loop of \<open>loop\<close>, with \<open>std::to_string\<close> as \<open>decimal\<close>.\<close>

primcorec pp_loop_round :: "bool \<Rightarrow> nat \<Rightarrow> seq_prog" where
  "pp_loop_round fired n =
     (if \<not> fired then Wait_timeout 300 (pp_loop_round True n)
      else Notify NOTIFY_CAT_1 (Some (map of_char (''notify #'' @ decimal (n + 1))))
             (length (map of_char (''notify #'' @ decimal (n + 1)) :: u8 list))
             (\<lambda>_. pp_loop_round False (n + 1)))"

definition pp_loop :: "pp_source \<Rightarrow> seq_prog" where
  "pp_loop it = iface_reply Result_success None 0 (pp_loop_round False 0)"

definition pp_regist :: "pp_source \<Rightarrow> seq_prog" where
  "pp_regist it = iface_reg_notify NOTIFY_CAT_1 (\<lambda>r. case r of
       Some client_id \<Rightarrow> iface_reply Result_success (Some [client_id]) 1 Return
     | None \<Rightarrow> iface_reply Result_error None 0 Return)"

definition pp_work :: "pp_source \<Rightarrow> seq_prog" where
  "pp_work it = iface_wait_timeout 100 (iface_reply Result_success None 0 Return)"

definition pp_module_c :: module_base where
  "pp_module_c = set_sequences
     [\<lparr>sq_member = pp_loop, sq_title = ''loop''\<rparr>, \<lparr>sq_member = pp_regist, sq_title = ''register''\<rparr>,
      \<lparr>sq_member = pp_work, sq_title = ''work''\<rparr>]
     (new_module_base ''ModuleC'' 10)"

text \<open>The vector \<open>mods\<close> of \<open>main\<close>: the objects at their addresses.\<close>

definition pp_mods :: "nat list" where
  "pp_mods = [1, 2, 3]"

definition pp_objs :: "nat \<Rightarrow> module_base" where
  "pp_objs a = (if a = 1 then pp_module_a else if a = 2 then pp_module_b else pp_module_c)"

section \<open>The two samples are the same program\<close>

text \<open>
  Two sequences that make the same calls, whatever these return, when what they write to the console in
  between is left out. \<open>written p p'\<close> holds when \<open>p\<close> writes something and goes on as \<open>p'\<close>.
\<close>

inductive written :: "seq_prog \<Rightarrow> seq_prog \<Rightarrow> bool" where
  wr_none: "written p p"
| wr_text: "written p p' \<Longrightarrow> written (put_text s p) p'"

coinductive same_calls :: "seq_prog \<Rightarrow> seq_prog \<Rightarrow> bool" where
  "written p p' \<Longrightarrow> written q q' \<Longrightarrow> same_call same_calls p' q' \<Longrightarrow> same_calls p q"

lemma same_calls_refl: "same_calls p p"
  by (rule same_calls.intros [OF wr_none wr_none sc_same])

lemma same_calls_put:
  "same_calls p q \<Longrightarrow> same_calls (put_text s p) q"
  "same_calls p q \<Longrightarrow> same_calls p (put_text s q)"
  by (auto elim!: same_calls.cases intro!: same_calls.intros intro: wr_text)

lemma same_calls_call: "same_call same_calls p q \<Longrightarrow> same_calls p q"
  by (rule same_calls.intros [OF wr_none wr_none])

lemmas same_calls_intros = same_calls_put same_calls_refl same_call.intros [THEN same_calls_call]

lemma written_lines: "written (pp_gather_lines rs p) p"
  by (induction rs) (simp_all add: wr_none wr_text)

lemma same_calls_lines: "same_calls p q \<Longrightarrow> same_calls p (pp_gather_lines rs q)"
  by (induction rs) (simp_all add: same_calls_put)

lemma pp_loop_rounds:
  "pp_loop_round False n = Wait_timeout 300 (pp_loop_round True n)"
  "pp_loop_round True n = Notify NOTIFY_CAT_1 (Some (notify_text (n + 1))) (length (notify_text (n + 1)))
     (\<lambda>_. pp_loop_round False (n + 1))"
  unfolding notify_text_def
  by (subst pp_loop_round.code, simp only: not_False_eq_True not_True_eq_False if_True if_False)+

lemma pp_loop_same: "pp_loop_round fired n = c_loop_round fired n"
proof -
  let ?R = "\<lambda>p q. \<exists>fired n. p = pp_loop_round fired n \<and> q = c_loop_round fired n"
  have step: "same_call ?R p q" if R: "?R p q" for p q
  proof -
    from R obtain fired n where p: "p = pp_loop_round fired n" and q: "q = c_loop_round fired n" by blast
    show ?thesis
    proof (cases fired)
      case True
      show ?thesis unfolding p q using True pp_loop_rounds(2) [of n] c_loop_simps(2) [of n]
        by (simp only:) (rule sc_notify, intro exI conjI; rule refl)
    next
      case False
      then have "fired = False" by simp
      then show ?thesis unfolding p q
        by (simp only: pp_loop_rounds(1) [of n] c_loop_simps(1) [of n])
          (rule sc_wait_timeout, intro exI conjI; rule refl)
    qed
  qed
  show ?thesis
    by (rule seq_prog_bisim [where R = ?R, OF _ step]) (intro exI conjI; rule refl)
qed

lemma sources [simp]:
  "src_message (source_set (Some s) it) = s_msg s"
  "get_request_id (source_set r it) = map_option s_req_id r"
  by (simp_all add: source_set_def get_request_id_def split: option.split)

lemma gather_members:
  assumes k: "\<And>n u out. same_calls (k n u) (k' out)"
  shows "same_calls (gather_writing line cb got u n k) (gather_all out k')"
proof (coinduction arbitrary: got u n out)
  case same_calls
  let ?X = "\<lambda>x y. (\<exists>got u n out. x = gather_writing line cb got u n k \<and> y = gather_all out k') \<or> same_calls x y"
  have wait: "same_call ?X (gather_writing line cb None u n k) (gather_all out k')" for u n
    unfolding gather_writing_code(1) gather_all_rec [of out]
    by (rule sc_wait_reply) (use k in \<open>auto split: option.split\<close>)
  show ?case
  proof (cases got)
    case None
    then show ?thesis using wr_none wait by blast
  next
    case (Some s)
    have "written (gather_writing line cb got u n k) (gather_writing line cb None (cb s u) (n + 1) k)"
      unfolding Some gather_writing_code(2) by (intro wr_text wr_none)
    then show ?thesis using wr_none wait by blast
  qed
qed

lemma pp_same:
  "same_calls a_echo (pp_echo it)" "same_calls a_chain (pp_chain it)" "same_calls a_sub (pp_sub it)"
  "same_calls a_reqto (pp_reqto it)" "same_calls a_fanout (pp_fanout it)" "same_calls a_gather (pp_gather it)"
  "same_calls a_recv_notify (pp_on_receive_notify it)" "same_calls b_chain (pp_b_chain it)"
  unfolding pp_echo_def pp_chain_def pp_sub_def pp_reqto_def pp_fanout_def pp_gather_def
    pp_on_receive_notify_def pp_b_chain_def a_echo_def a_chain_def a_sub_def a_reqto_def a_fanout_def a_gather_def
    a_recv_notify_def b_chain_def iface_defs Let_def
  by (auto intro!: same_calls_intros gather_members same_calls_lines simp: sources split: option.split)

lemma pp_equal:
  "pp_slow it = b_slow" "pp_loop it = c_loop" "pp_regist it = c_register" "pp_work it = c_work"
  unfolding pp_slow_def pp_loop_def pp_regist_def pp_work_def b_slow_def c_loop_def c_register_def c_work_def iface_defs
  by (simp_all only: c_of_pp.simps pp_loop_same)

text \<open>
  C28: The C++ sample is the C sample. Registered through the manager, module \<open>i\<close> has the same name, queue
  length and sequence names as row \<open>i\<close> of the table of \<open>sample.c\<close>, and the member that runs for each
  sequence makes exactly the calls of the C function, whatever these return, when the lines they write to
  the console are left out; so does the handler of module A. Modules B and C get a handler as well, which
  returns at once where the C table has none.
\<close>

theorem samples_agree:
  assumes "i < 3"
  shows "r_name (c_reg pp_objs (pp_mods ! i)) = r_name (sample_tbl ! i) \<and>
    r_nr_que_max (c_reg pp_objs (pp_mods ! i)) = r_nr_que_max (sample_tbl ! i) \<and>
    r_nr_seq_max (c_reg pp_objs (pp_mods ! i)) = r_nr_seq_max (sample_tbl ! i) \<and>
    map sq_name (r_seq_array (c_reg pp_objs (pp_mods ! i))) = map sq_name (r_seq_array (sample_tbl ! i)) \<and>
    list_all2 same_calls (map sq_fn (r_seq_array (sample_tbl ! i)))
      (map (\<lambda>s. dispatch_seq pp_objs (pp_mods ! i) (of_nat s)) [0..<length (r_seq_array (sample_tbl ! i))]) \<and>
    same_calls (case r_recv_notify (sample_tbl ! i) of Some fn \<Rightarrow> fn | None \<Rightarrow> Return)
      (dispatch_notify pp_objs (pp_mods ! i))"
proof -
  have upto: "[0..<6] = [0, 1, 2, 3, 4, 5]" "[0..<2] = [0, 1]" "[0..<3] = [0, 1, 2]"
    by (simp_all add: upt_rec)
  consider "i = 0" | "i = 1" | "i = 2" using assms by linarith
  then show ?thesis
    by cases (simp_all del: list.rel_map add: pp_mods_def pp_objs_def c_reg_def c_seqs_of_def pp_module_a_def pp_module_b_def
        pp_module_c_def set_sequences_def new_module_base_def sample_tables dispatch_seq_def
        dispatch_notify_def on_receive_notify_default_def pp_same pp_equal same_calls_refl upto)
qed

lemma samples_agree_witness:
  "same_calls c_register (dispatch_seq pp_objs (pp_mods ! 2) 1) \<and>
    same_calls a_recv_notify (dispatch_notify pp_objs (pp_mods ! 0))"
  using samples_agree [of 2] samples_agree [of 0] by (simp add: sample_tables pp_mods_def upt_rec)

text \<open>The relation tells sequences apart that make different calls.\<close>

inductive_simps written_simps: "written (Lock p) p'" "written (Unlock p) p'"

lemma same_calls_distinguishes: "\<not> same_calls (Lock p) (Unlock q)"
proof
  assume "same_calls (Lock p) (Unlock q)"
  then obtain p' q' where "written (Lock p) p'" "written (Unlock q) q'" "same_call same_calls p' q'"
    by (cases rule: same_calls.cases)
  then show False by (auto simp: written_simps put_text_def elim: same_callE)
qed

end
