(* ===== verification/CoseqSampleMain.thy ===== *)
theory CoseqSampleMain
  imports CoseqClient CoseqSamplePP
begin

text \<open>
  \<open>main\<close> of the two samples and their log callbacks: what they call and what they print. The C++ \<open>main\<close> is the
  C one over the manager.
\<close>

section \<open>samples/sample.c\<close>

definition A_SUB :: u8 where "A_SUB = 2"
definition A_REQTO :: u8 where "A_REQTO = 3"
definition A_FANOUT :: u8 where "A_FANOUT = 4"
definition A_GATHER :: u8 where "A_GATHER = 5"
definition C_LOOP :: u8 where "C_LOOP = 0"

lemmas main_ids = sample_ids A_SUB_def A_REQTO_def A_FANOUT_def A_GATHER_def C_LOOP_def

text \<open>The line the log callback prints for a message whose text is \<open>txt\<close>.\<close>

definition sample_log :: "int \<Rightarrow> string \<Rightarrow> string" where
  "sample_log level txt =
     (let lv = (if level = COSEQ_LOG_ERROR then ''E'' else if level = COSEQ_LOG_WARN then ''W''
                else if level = COSEQ_LOG_INFO then ''I'' else ''D'')
      in ''  [coseq '' @ lv @ ''] '' @ txt @ nl)"

definition sample_echo :: "src_addr client_prog \<Rightarrow> src_addr client_prog" where
  "sample_echo k = Print (''=== 1) echo ==='' @ nl)
     (Call_sync MOD_A A_ECHO (Some (bytes ''test-message'')) (length ''test-message'') (\<lambda>p. deref_src p (\<lambda>r.
        Print (''reply ['' @ decimal (result_code (s_result r)) @ ''] ['' @ c_text (s_msg r) @ '']'' @ nl) k)))"

definition sample_chain :: "src_addr client_prog \<Rightarrow> src_addr client_prog" where
  "sample_chain k = Print (nl @ ''=== 2) chain (+lock): A -> B -> C ==='' @ nl)
     (Call_sync MOD_A A_CHAIN None 0 (\<lambda>p. deref_src p (\<lambda>r.
        Print (''reply ['' @ decimal (result_code (s_result r)) @ '']'' @ nl) k)))"

definition sample_subscribe :: "src_addr client_prog \<Rightarrow> src_addr client_prog" where
  "sample_subscribe k = Print (nl @ ''=== 3) subscribe ==='' @ nl) (Call_sync MOD_A A_SUB None 0 (\<lambda>_. k))"

definition sample_reqto :: "src_addr client_prog \<Rightarrow> src_addr client_prog" where
  "sample_reqto k = Print (nl @ ''=== 4) request_timeout ==='' @ nl) (Call_sync MOD_A A_REQTO None 0 (\<lambda>_. k))"

definition sample_notify :: "src_addr client_prog \<Rightarrow> src_addr client_prog" where
  "sample_notify k = Print (nl @ ''=== 5) notify loop (~3 ticks) ==='' @ nl)
     (Call_async MOD_C C_LOOP None 0 (Sleep 1000 k))"

definition sample_fanout :: "src_addr client_prog \<Rightarrow> src_addr client_prog" where
  "sample_fanout k = Print (nl @ ''=== 6) fan-out (wait_reply per reply) ==='' @ nl)
     (Call_sync MOD_A A_FANOUT None 0 (\<lambda>_. k))"

definition sample_gather :: "src_addr client_prog \<Rightarrow> src_addr client_prog" where
  "sample_gather k = Print (nl @ ''=== 7) gather (wait all) ==='' @ nl)
     (Call_sync MOD_A A_GATHER None 0 (\<lambda>_. k))"

text \<open>\<open>main\<close> after \<open>setup\<close>, whose result it does not look at.\<close>

definition sample_main :: "src_addr client_prog" where
  "sample_main = sample_echo (sample_chain (sample_subscribe (sample_reqto (sample_notify (sample_fanout (sample_gather
     (Print (nl @ ''=== teardown ==='' @ nl) (Teardown (Destroy (Print (''done'' @ nl) (Exit 0)))))))))))"

definition sample_setup :: "(nat \<Rightarrow> env) \<Rightarrow> env \<Rightarrow> c_client" where
  "sample_setup envs en =
     (let en1 = coseq_set_log_cb True en;
          (ctx, en2) = create_coseq en1
      in case ctx of
           None \<Rightarrow> \<lparr>cc_ctx = None, cc_tls = no_tls, cc_env = en2\<rparr>
         | Some c \<Rightarrow> (let (b, c1, en3) = coseq_setup c sample_tbl 3 (\<lambda>i. coseq_set_log_cb True (envs i)) en2
             in \<lparr>cc_ctx = Some c1, cc_tls = no_tls, cc_env = en3\<rparr>))"

definition sample_program :: "(nat \<Rightarrow> env) \<Rightarrow> env \<Rightarrow> nat list list \<Rightarrow> string \<times> client_end" where
  "sample_program envs en sched = run_client (c_ops (\<lambda>_ _. 0) stdout) sample_main sched (sample_setup envs en)"

section \<open>samplespp/sample.cpp\<close>

definition pp_sample_log :: "log_level \<Rightarrow> string \<Rightarrow> string" where
  "pp_sample_log lv msg =
     (let s = (if lv = Level_error then ''E'' else if lv = Level_warn then ''W''
               else if lv = Level_info then ''I'' else ''D'')
      in ''  [coseq '' @ s @ ''] '' @ msg @ nl)"

definition pp_main :: "source_obj client_prog" where
  "pp_main = Print (''=== 1) echo ==='' @ nl)
     (Call_sync MOD_A A_ECHO (Some (bytes ''test-message'')) (length ''test-message'') (\<lambda>o1. look o1 (\<lambda>r.
        Print (''reply ['' @ pp_result_text r @ ''] ['' @ text_of (src_message r) @ '']'' @ nl)
     (Print (nl @ ''=== 2) chain (+lock): A -> B -> C ==='' @ nl) (Call_sync MOD_A A_CHAIN None 0 (\<lambda>o2. look o2 (\<lambda>r.
        Print (''reply ['' @ pp_result_text r @ '']'' @ nl)
     (Print (nl @ ''=== 3) subscribe ==='' @ nl) (Call_sync MOD_A A_SUB None 0 (\<lambda>_.
      Print (nl @ ''=== 4) request_timeout ==='' @ nl) (Call_sync MOD_A A_REQTO None 0 (\<lambda>_.
      Print (nl @ ''=== 5) notify loop (~3 ticks) ==='' @ nl) (Call_async MOD_C C_LOOP None 0 (Sleep 1000
     (Print (nl @ ''=== 6) fan-out (wait_reply per reply) ==='' @ nl) (Call_sync MOD_A A_FANOUT None 0 (\<lambda>_.
      Print (nl @ ''=== 7) gather (wait all) ==='' @ nl) (Call_sync MOD_A A_GATHER None 0 (\<lambda>_.
      Print (nl @ ''=== teardown ==='' @ nl) (Teardown (Print (''done'' @ nl) (Destroy (Exit 0)))))))))))))))))))))))"

lemma run_print:
  "run_client ops p sched s = run_client ops q sched s \<Longrightarrow>
    run_client ops (Print out p) sched s = run_client ops (Print out q) sched s"
  by simp

lemma run_cong:
  "(\<And>sched s. run_client ops p sched s = run_client ops q sched s) \<Longrightarrow>
    run_client ops (Print out p) sched s = run_client ops (Print out q) sched s"
  "(\<And>sched s. run_client ops p sched s = run_client ops q sched s) \<Longrightarrow>
    run_client ops (Call_sync mi si msg len (\<lambda>r. Look (\<lambda>t. p))) sched s = run_client ops (Call_sync mi si msg len (\<lambda>r. q)) sched s"
  "(\<And>sched s. run_client ops p sched s = run_client ops q sched s) \<Longrightarrow>
    run_client ops (Call_async mi si msg len p) sched s = run_client ops (Call_async mi si msg len q) sched s"
  "(\<And>sched s. run_client ops p sched s = run_client ops q sched s) \<Longrightarrow>
    run_client ops (Sleep ms p) sched s = run_client ops (Sleep ms q) sched s"
  "(\<And>sched s. run_client ops p sched s = run_client ops q sched s) \<Longrightarrow>
    run_client ops (Teardown p) sched s = run_client ops (Teardown q) sched s"
  by (simp_all split: list.split option.split prod.split)

text \<open>The getters of the object made of a pointer, and the pointer itself, read right after the call.\<close>

lemma reading_wrapped:
  assumes "c_sync mi si msg len is cl = Some (r, cl')"
  shows "reading (cc_tls cl') (wrapped_reply (cc_tls cl') r) = Some (new_source (Some (tls_s (cc_tls cl'))))"
  using c_sync_message [OF assms]
  by (cases r) (simp add: wrapped_reply_def reading_new new_source_def source_set_def)

lemma run_wrapped:
  assumes "\<And>s. out (new_source (Some s)) = out' s"
    and "\<And>rest cl'. run_client (c_ops counted console) p rest cl' = run_client (c_ops counted console) p' rest cl'"
  shows "run_client (c_ops counted console)
      (Call_sync mi si msg len (\<lambda>r. Look (\<lambda>t. look (wrapped_reply t r) (\<lambda>x. Print (out x) p)))) sched cl =
    run_client (c_ops counted console) (Call_sync mi si msg len (\<lambda>r. deref_src r (\<lambda>x. Print (out' x) p'))) sched cl"
  using assms
  by (auto simp: run_look c_ops_def reading_wrapped split: list.split option.split)

lemma shown_texts:
  "pp_result_text (new_source (Some s)) = decimal (result_code (s_result s))" "src_message (new_source (Some s)) = s_msg s"
  by (simp_all add: pp_result_text_def new_source_def source_set_def get_result_def)

text \<open>The C++ \<open>main\<close> prints before the manager goes out of scope, the C \<open>main\<close> after \<open>destroy\<close>.\<close>

lemma destroy_late:
  "run_client (c_ops counted console) (Print out (Destroy (Exit 0))) sched s =
    run_client (c_ops counted console) (Destroy (Print out (Exit 0))) sched s"
  by (simp add: c_ops_def c_destroy_def Let_def split_def)

lemma run_sample_same:
  assumes "\<forall>ts rest s cl'. sched = ts # rest \<longrightarrow>
      c_sync MOD_A A_ECHO (Some (bytes ''test-message'')) (length ''test-message'') ts cl = Some (s, cl') \<longrightarrow>
      0 \<notin> set (s_msg (tls_s (cc_tls cl')))"
  shows "run_client (c_ops counted console) (over wrapped_reply pp_main) sched cl =
    run_client (c_ops counted console) sample_main sched cl"
proof -
  let ?run = "run_client (c_ops counted console)"
  let ?call = "Call_sync MOD_A A_ECHO (Some (bytes ''test-message'')) (length ''test-message'')"
  have call: "?run (?call (\<lambda>r. Look (\<lambda>t. look (wrapped_reply t r) (\<lambda>x. Print (P (text_of (src_message x)) (pp_result_text x)) k)))) sched cl =
      ?run (?call (\<lambda>r. deref_src r (\<lambda>x. Print (P (c_text (s_msg x)) (decimal (result_code (s_result x)))) k'))) sched cl"
    if "\<And>sched s. ?run k sched s = ?run k' sched s" for P k k'
    using assms that
    by (auto simp: run_look c_ops_def reading_wrapped shown_texts c_text_whole split: list.split option.split)
  show ?thesis
    unfolding pp_main_def sample_main_def sample_echo_def sample_chain_def sample_subscribe_def sample_reqto_def
      sample_notify_def sample_fanout_def sample_gather_def over.simps over_look
    by (rule run_print, rule call [of _ _ "\<lambda>a b. ''reply ['' @ b @ ''] ['' @ a @ '']'' @ nl"]) (intro run_cong run_wrapped destroy_late, simp add: shown_texts)
qed

text \<open>
  C29: The two samples are the same program for the user. Over any instance, with any schedule and failures,
  \<open>main\<close> of the C++ sample, through its manager, prints what \<open>main\<close> of the C sample prints and ends in
  the same way, provided the reply to the echo has no null byte, at which the C sample stops printing it;
  and for every level the core logs with, their log callbacks print the same line.
\<close>

theorem sample_mains_agree:
  assumes "\<forall>ts rest s cl'. sched = ts # rest \<longrightarrow>
      c_sync MOD_A A_ECHO (Some (bytes ''test-message'')) (length ''test-message'') ts
        \<lparr>cc_ctx = ctx, cc_tls = t, cc_env = en\<rparr> = Some (s, cl') \<longrightarrow>
      0 \<notin> set (s_msg (tls_s (cc_tls cl')))"
  shows "run_client (pp_ops counted console) pp_main sched
      \<lparr>cl_mgr = \<lparr>mgr_ctx = ctx, mgr_hold = h, mgr_tbl = tb\<rparr>, cl_tls = t, cl_env = en\<rparr> =
    run_client (c_ops counted console) sample_main sched \<lparr>cc_ctx = ctx, cc_tls = t, cc_env = en\<rparr> \<and>
    pp_sample_log (log_level_of COSEQ_LOG_ERROR) msg = sample_log COSEQ_LOG_ERROR msg \<and>
    pp_sample_log (log_level_of COSEQ_LOG_WARN) msg = sample_log COSEQ_LOG_WARN msg \<and>
    pp_sample_log (log_level_of COSEQ_LOG_INFO) msg = sample_log COSEQ_LOG_INFO msg \<and>
    pp_sample_log (log_level_of COSEQ_LOG_DEBUG) msg = sample_log COSEQ_LOG_DEBUG msg"
  by (simp add: run_over run_sample_same [OF assms] pp_sample_log_def sample_log_def log_level_of_def log_level_defs)

end
