(* ===== verification/CoseqSampleRun.thy ===== *)
theory CoseqSampleRun
  imports CoseqSampleMain
begin

text \<open>
  The C sample run to its end: \<open>main\<close> with all its requests, turn by turn, while from its fifth step on the
  endless loop of module C notifies module A whenever the timer of module C is looked at.
\<close>

section \<open>The instance between the steps\<close>

definition s_module :: "nat \<Rightarrow> notify_client_t list \<Rightarrow> nat \<Rightarrow> nat \<Rightarrow> env \<Rightarrow> module_t" where
  "s_module i ncs n p en = (booted i (sample_tbl ! i) en)\<lparr>m_notify_clients := ncs, m_next_req_id := n, m_next_fptr := p\<rparr>"

definition s_rests :: "(nat \<Rightarrow> nat \<Rightarrow> timespec) \<Rightarrow> nat \<Rightarrow> notify_client_t list \<Rightarrow> nat \<Rightarrow> module_t \<Rightarrow> bool" where
  "s_rests clk i ncs n m \<longleftrightarrow> m = s_module i ncs n (m_next_fptr m)
     (thread_env (clk i) (logs (m_env m)) (lib_calls (m_env m)) (clock_reads (m_env m)))"

text \<open>Module C while \<open>c_loop\<close> waits after \<open>k\<close> rounds: its deadline is 300 ms after the last reading.\<close>

definition loop_fiber :: "fptr \<Rightarrow> u32 \<Rightarrow> nat \<Rightarrow> timespec \<Rightarrow> fiber_t" where
  "loop_fiber p r k now = (parked C_LOOP ''loop'' EXTERNAL r c_loop (After_wait_timeout (c_loop_round True k)))\<lparr>
     f_self := p, f_waiting_timer := True, f_deadline := ts_add_ms now 300\<rparr>"

definition s_looping :: "(nat \<Rightarrow> nat \<Rightarrow> timespec) \<Rightarrow> fptr \<Rightarrow> u32 \<Rightarrow> nat \<Rightarrow> notify_client_t list \<Rightarrow> module_t \<Rightarrow> bool" where
  "s_looping clk p r k ncs m \<longleftrightarrow> p < m_next_fptr m \<and> m = (s_module 2 ncs (m_next_req_id m) (m_next_fptr m)
     (thread_env (clk 2) (logs (m_env m)) (lib_calls (m_env m)) (Suc (clock_reads (m_env m) - 1))))\<lparr>m_fibers :=
        [loop_fiber p r k (clk 2 (clock_reads (m_env m) - 1))]\<rparr>"

text \<open>\<open>txt\<close> is what the modules have written to the console.\<close>

definition s_client :: "u32 \<Rightarrow> u8 \<Rightarrow> string \<Rightarrow> (module_t \<Rightarrow> bool) \<Rightarrow> (module_t \<Rightarrow> bool) \<Rightarrow> (module_t \<Rightarrow> bool) \<Rightarrow> c_client \<Rightarrow> bool" where
  "s_client rid nid txt A B C cl \<longleftrightarrow> (case cc_ctx cl of None \<Rightarrow> False
     | Some c \<Rightarrow> nr_module c = 3 \<and> length (modules c) = 32 \<and> ext_id c = rid \<and> ext_wait_rid c = - 1 \<and>
         next_client_id c = nid \<and> user_mem c ''stdout'' = chars txt \<and> A (get_mod c 0) \<and> B (get_mod c (Suc 0)) \<and> C (get_mod c 2)) \<and>
     all_ok (cc_env cl) \<and> log_cb (cc_env cl)"

lemma s_clientE:
  assumes "s_client rid nid txt A B C cl"
  obtains c where "cc_ctx cl = Some c" "nr_module c = 3" "length (modules c) = 32" "ext_id c = rid" "ext_wait_rid c = - 1"
    "next_client_id c = nid" "user_mem c ''stdout'' = chars txt" "lib_ok (cc_env cl) = (\<lambda>_. True)" "log_cb (cc_env cl)"
    "A (get_mod c 0)" "B (get_mod c (Suc 0))" "C (get_mod c 2)"
  using assms by (auto simp: s_client_def all_ok_def split: option.splits)

lemma s_restsE:
  assumes "s_rests clk i ncs n m"
  obtains p l x y where "m = s_module i ncs n p (thread_env (clk i) l x y)"
  using assms unfolding s_rests_def by (rule that)

lemma s_loopingE:
  assumes "s_looping clk p r k ncs m"
  obtains n q l x y where "p < q" "p \<noteq> q" "q \<noteq> p" "p \<noteq> Suc q" "Suc q \<noteq> p" "m = (s_module 2 ncs n q (thread_env (clk 2) l x (Suc y)))\<lparr>m_fibers := [loop_fiber p r k (clk 2 y)]\<rparr>"
  using assms unfolding s_looping_def by (elim conjE) (rule that; (assumption | simp)?)

section \<open>Evaluating a turn\<close>

text \<open>The loop is kept folded.\<close>

lemma step_loop:
  "api_step c i f (c_loop_round False n) = Yielded (coseq_wait_timeout c i f 300 (c_loop_round True n))"
  "api_step c i f (c_loop_round True n) =
     (let (b, c') = coseq_notify c i NOTIFY_CAT_1 (Some (notify_text (Suc n))) (length (notify_text (Suc n)))
      in Continue c' (c_loop_round False (Suc n)))"
  by (subst c_loop_simps, simp)+

lemma step_fold:
  "api_step c i f (gather_writing line cb None u n k) = coseq_wait_reply c i f (\<lambda>r. case r of
     None \<Rightarrow> k n u | Some s \<Rightarrow> gather_writing line cb (Some s) u n k)"
  "api_step c i f (gather_writing line cb (Some s) u n k) =
     Continue (c\<lparr>user_mem := (user_mem c)(''stdout'' := user_mem c ''stdout'' @ chars (line s))\<rparr>)
       (gather_writing line cb None (cb s u) (n + 1) k)"
  by (subst gather_writing_code, simp add: step_put_text)+

lemma notify_text_size: "notify_text n \<noteq> []" "0 < length (notify_text n)" "length (notify_text n) \<noteq> 0"
  by (simp_all add: notify_text_def del: decimal.simps)

lemmas s_eval = notify_text_size index_in_table a_echo_def a_chain_def a_sub_def a_reqto_def a_fanout_def a_gather_def a_recv_notify_def b_chain_def
  b_slow_def c_loop_def c_register_def c_work_def sample_tables main_ids s_module_def booted_def inited_def
  load_module_def zero_module_def thread_env_def eval_defs Let_def word_facts turns_case set_mod_swap step_loop step_fold
  coseq_reg_notify_def coseq_notify_def notify_one_def bytes_simps loop_fiber_def parked_def

lemmas s_calls = c_sync_def c_async_def c_sleep_def request_sync_begin_def request_sync_end_def request_async_def
  s_client_def s_rests_def s_looping_def all_ok_def

definition subscriber :: "notify_client_t list" where
  "subscriber = [\<lparr>nc_category = NOTIFY_CAT_1, nc_listener_module = 0, nc_client_id = 0\<rparr>]"

section \<open>The steps\<close>

lemma chars_append [simp]: "chars (a @ b) = chars a @ chars b"
  by (simp add: chars_def)

lemma sample_step_echo:
  assumes "s_client rid nid txt (s_rests clk 0 [] n) (s_rests clk 1 [] m) (s_rests clk 2 ncs k) cl" and "paced clk"
  shows "\<exists>s cl'. c_sync MOD_A A_ECHO (Some (bytes ''test-message'')) (length ''test-message'') [0] cl = Some (s, cl') \<and>
    s_client (rid + 1) nid txt (s_rests clk 0 [] n) (s_rests clk 1 [] m) (s_rests clk 2 ncs k) cl' \<and>
    s_result (tls_s (cc_tls cl')) = COSEQ_RSLT_SUCCESS \<and> s_msg (tls_s (cc_tls cl')) = bytes ''test-message''"
  using assms(1)
  by (elim s_clientE s_restsE) (simp add: s_eval s_calls timers [OF assms(2)])

definition chain_text :: string where
  "chain_text = chain_asks @ b_chain_asks @ b_chain_got COSEQ_RSLT_SUCCESS @ chain_got COSEQ_RSLT_SUCCESS"

lemma sample_step_chain:
  assumes "s_client rid nid txt (s_rests clk 0 [] n) (s_rests clk 1 [] m) (s_rests clk 2 ncs k) cl" and "paced clk"
  shows "\<exists>s cl'. c_sync MOD_A A_CHAIN None 0 [0, 1, 2, 2, 1, 0] cl = Some (s, cl') \<and>
    s_client (rid + 1) nid (txt @ chain_text) (s_rests clk 0 [] (Suc n)) (s_rests clk 1 [] (Suc m)) (s_rests clk 2 ncs k) cl' \<and>
    s_result (tls_s (cc_tls cl')) = COSEQ_RSLT_SUCCESS"
  using assms(1)
  by (elim s_clientE s_restsE) (simp add: s_eval s_calls timers [OF assms(2)] chain_text_def)

definition subscribe_text :: string where
  "subscribe_text = sub_asks @ sub_got 0"

lemma sample_step_subscribe:
  assumes "s_client rid 0 txt (s_rests clk 0 [] n) (s_rests clk 1 [] m) (s_rests clk 2 [] k) cl" and "paced clk"
  shows "\<exists>s cl'. c_sync MOD_A A_SUB None 0 [0, 2, 0] cl = Some (s, cl') \<and>
    s_client (rid + 1) 1 (txt @ subscribe_text) (s_rests clk 0 [] (Suc n)) (s_rests clk 1 [] m) (s_rests clk 2 subscriber k) cl' \<and>
    s_result (tls_s (cc_tls cl')) = COSEQ_RSLT_SUCCESS"
  using assms(1)
  by (elim s_clientE s_restsE) (simp add: s_eval s_calls timers [OF assms(2)] subscriber_def subscribe_text_def)

definition reqto_text :: string where
  "reqto_text = reqto_asks @ reqto_got COSEQ_RSLT_REQ_TIMEOUT"

lemma sample_step_reqto:
  assumes "s_client rid nid txt (s_rests clk 0 [] n) (s_rests clk 1 [] m) (s_rests clk 2 ncs k) cl" and "paced clk"
  shows "\<exists>s cl'. c_sync MOD_A A_REQTO None 0 [0, 1, 0, 1, 0] cl = Some (s, cl') \<and>
    s_client (rid + 1) nid (txt @ reqto_text) (s_rests clk 0 [] (Suc n)) (s_rests clk 1 [] m) (s_rests clk 2 ncs k) cl' \<and>
    s_result (tls_s (cc_tls cl')) = COSEQ_RSLT_SUCCESS"
  using assms(1)
  by (elim s_clientE s_restsE) (simp add: s_eval s_calls timers [OF assms(2)] reqto_text_def)

definition notified_text :: "nat \<Rightarrow> string" where
  "notified_text n = recv_line 0 (notify_text n)"

lemma sample_step_notify:
  assumes "s_client rid nid txt (s_rests clk 0 [] n) (s_rests clk 1 [] m) (s_rests clk 2 subscriber k) cl" and "paced clk"
    and "rid \<noteq> - 1"
  shows "\<exists>cl1 cl2 p. c_async MOD_C C_LOOP None 0 cl = Some cl1 \<and> c_sleep [2, 2, 0, 2, 0, 2, 0] cl1 = Some cl2 \<and>
    op_console (c_ops g stdout) cl1 = op_console (c_ops g stdout) cl \<and>
    s_client (rid + 1) nid (txt @ notified_text (Suc 0) @ notified_text (Suc (Suc 0)) @ notified_text (Suc (Suc (Suc 0)))) (s_rests clk 0 [] n) (s_rests clk 1 [] m)
      (s_looping clk p rid (Suc (Suc (Suc 0))) subscriber) cl2"
  using assms(1)
  by (elim s_clientE s_restsE)
    (simp add: s_eval s_calls timers [OF assms(2)] assms(3) subscriber_def notified_text_def c_ops_def stdout_def)


definition fanout_text :: "nat \<Rightarrow> nat \<Rightarrow> string" where
  "fanout_text n k = fanout_fired (of_nat n) (of_nat (Suc n)) @ notified_text (Suc k) @
     fanout_got (of_nat n) (of_nat (Suc n)) (of_nat (Suc n)) COSEQ_RSLT_SUCCESS @ notified_text (Suc (Suc k)) @
     fanout_got (of_nat n) (of_nat (Suc n)) (of_nat n) COSEQ_RSLT_SUCCESS"

lemma sample_step_fanout:
  assumes "s_client rid nid txt (s_rests clk 0 [] n) (s_rests clk 1 [] m) (s_looping clk p r k subscriber) cl" and "paced clk"
  shows "\<exists>s cl'. c_sync MOD_A A_FANOUT None 0 [0, 1, 2, 2, 0, 1, 0] cl = Some (s, cl') \<and>
    s_client (rid + 1) nid (txt @ fanout_text n k) (s_rests clk 0 [] (Suc (Suc n))) (s_rests clk 1 [] m)
      (s_looping clk p r (Suc (Suc k)) subscriber) cl' \<and> s_result (tls_s (cc_tls cl')) = COSEQ_RSLT_SUCCESS"
  using assms(1)
  by (elim s_clientE s_restsE s_loopingE)
    (simp add: s_eval s_calls timers [OF assms(2)] subscriber_def fanout_text_def notified_text_def)

definition gather_text :: "nat \<Rightarrow> nat \<Rightarrow> string" where
  "gather_text n k = notified_text (Suc k) @ gather_got (of_nat (Suc n)) COSEQ_RSLT_SUCCESS @
     notified_text (Suc (Suc k)) @ gather_got (of_nat n) COSEQ_RSLT_SUCCESS @ gather_done 2"

lemma sample_step_gather:
  assumes "s_client rid nid txt (s_rests clk 0 [] n) (s_rests clk 1 [] m) (s_looping clk p r k subscriber) cl" and "paced clk"
  shows "\<exists>s cl'. c_sync MOD_A A_GATHER None 0 [0, 1, 2, 2, 0, 1, 0] cl = Some (s, cl') \<and>
    s_client (rid + 1) nid (txt @ gather_text n k) (s_rests clk 0 [] (Suc (Suc n))) (s_rests clk 1 [] m)
      (s_looping clk p r (Suc (Suc k)) subscriber) cl' \<and> s_result (tls_s (cc_tls cl')) = COSEQ_RSLT_SUCCESS"
  using assms(1)
  by (elim s_clientE s_restsE s_loopingE)
    (simp add: s_eval s_calls timers [OF assms(2)] subscriber_def gather_text_def notified_text_def
       gather_cb_line_def gather_cb_def)

section \<open>The whole run\<close>

lemma chars_text: "map char_of (chars s) = s"
  by (simp add: chars_def comp_def)

lemma console_of: "s_client rid nid txt A B C cl \<Longrightarrow> op_console (c_ops g stdout) cl = txt"
  by (auto simp: s_client_def c_ops_def stdout_def chars_text split: option.splits)

lemma written_since_step:
  "s_client rid nid txt A B C cl \<Longrightarrow> s_client rid' nid' (txt @ new) A' B' C' cl' \<Longrightarrow>
    written_since (c_ops g stdout) cl cl' = new"
  by (simp add: written_since_def console_of)

lemma client_calls: "op_sync (c_ops g con) = c_sync" "op_async (c_ops g con) = c_async" "op_sleep (c_ops g con) = c_sleep"
  by (simp_all add: c_ops_def)

lemma client_variables: "op_tls (c_ops g con) = cc_tls"
  by (simp add: c_ops_def)

lemmas run_simps = client_calls client_variables run_look Let_def result_code_def decimal_digits

lemma main_echo_step:
  assumes "s_client rid nid txt (s_rests clk 0 [] n) (s_rests clk 1 [] m) (s_rests clk 2 ncs k) cl" and "paced clk"
    and go_on: "\<And>cl'. s_client (rid + 1) nid txt (s_rests clk 0 [] n) (s_rests clk 1 [] m) (s_rests clk 2 ncs k) cl' \<Longrightarrow>
      run_client (c_ops g stdout) p sched cl' = (out, e)"
  shows "run_client (c_ops g stdout) (sample_echo p) ([0] # sched) cl =
    (''=== 1) echo ==='' @ nl @ ''reply [1] [test-message]'' @ nl @ out, e)"
proof -
  obtain s cl' where "c_sync MOD_A A_ECHO (Some (bytes ''test-message'')) (length ''test-message'') [0] cl = Some (s, cl')"
    and r: "s_client (rid + 1) nid txt (s_rests clk 0 [] n) (s_rests clk 1 [] m) (s_rests clk 2 ncs k) cl'"
    "s_result (tls_s (cc_tls cl')) = COSEQ_RSLT_SUCCESS" "s_msg (tls_s (cc_tls cl')) = bytes ''test-message''"
    using sample_step_echo [OF assms(1,2)] by blast
  moreover have "written_since (c_ops g stdout) cl cl' = []" using written_since_step [OF assms(1), of _ _ "[]"] r(1) by simp
  moreover have "c_text (bytes ''test-message'') = ''test-message''" by (rule c_text_bytes) simp
  ultimately show ?thesis using go_on [OF r(1)] by (simp add: sample_echo_def run_simps)
qed

lemma main_chain_step:
  assumes "s_client rid nid txt (s_rests clk 0 [] n) (s_rests clk 1 [] m) (s_rests clk 2 ncs k) cl" and "paced clk"
    and go_on: "\<And>cl'. s_client (rid + 1) nid (txt @ chain_text) (s_rests clk 0 [] (Suc n)) (s_rests clk 1 [] (Suc m))
        (s_rests clk 2 ncs k) cl' \<Longrightarrow> run_client (c_ops g stdout) p sched cl' = (out, e)"
  shows "run_client (c_ops g stdout) (sample_chain p) ([0, 1, 2, 2, 1, 0] # sched) cl =
    (nl @ ''=== 2) chain (+lock): A -> B -> C ==='' @ nl @ chain_text @ ''reply [1]'' @ nl @ out, e)"
  using sample_step_chain [OF assms(1,2)] go_on written_since_step [OF assms(1)]
  by (fastforce simp: sample_chain_def run_simps)

lemma main_subscribe_step:
  assumes "s_client rid 0 txt (s_rests clk 0 [] n) (s_rests clk 1 [] m) (s_rests clk 2 [] k) cl" and "paced clk"
    and go_on: "\<And>cl'. s_client (rid + 1) 1 (txt @ subscribe_text) (s_rests clk 0 [] (Suc n)) (s_rests clk 1 [] m)
        (s_rests clk 2 subscriber k) cl' \<Longrightarrow> run_client (c_ops g stdout) p sched cl' = (out, e)"
  shows "run_client (c_ops g stdout) (sample_subscribe p) ([0, 2, 0] # sched) cl =
    (nl @ ''=== 3) subscribe ==='' @ nl @ subscribe_text @ out, e)"
  using sample_step_subscribe [OF assms(1,2)] go_on written_since_step [OF assms(1)]
  by (fastforce simp: sample_subscribe_def run_simps)

lemma main_reqto_step:
  assumes "s_client rid nid txt (s_rests clk 0 [] n) (s_rests clk 1 [] m) (s_rests clk 2 ncs k) cl" and "paced clk"
    and go_on: "\<And>cl'. s_client (rid + 1) nid (txt @ reqto_text) (s_rests clk 0 [] (Suc n)) (s_rests clk 1 [] m)
        (s_rests clk 2 ncs k) cl' \<Longrightarrow> run_client (c_ops g stdout) p sched cl' = (out, e)"
  shows "run_client (c_ops g stdout) (sample_reqto p) ([0, 1, 0, 1, 0] # sched) cl =
    (nl @ ''=== 4) request_timeout ==='' @ nl @ reqto_text @ out, e)"
  using sample_step_reqto [OF assms(1,2)] go_on written_since_step [OF assms(1)]
  by (fastforce simp: sample_reqto_def run_simps)

definition ticks_text :: string where
  "ticks_text = notified_text (Suc 0) @ notified_text (Suc (Suc 0)) @ notified_text (Suc (Suc (Suc 0)))"

lemma main_notify_step:
  assumes "s_client rid nid txt (s_rests clk 0 [] n) (s_rests clk 1 [] m) (s_rests clk 2 subscriber k) cl" and "paced clk"
    and "rid \<noteq> - 1"
    and go_on: "\<And>cl' q. s_client (rid + 1) nid (txt @ ticks_text) (s_rests clk 0 [] n) (s_rests clk 1 [] m)
        (s_looping clk q rid (Suc (Suc (Suc 0))) subscriber) cl' \<Longrightarrow> run_client (c_ops g stdout) p sched cl' = (out, e)"
  shows "run_client (c_ops g stdout) (sample_notify p) ([2, 2, 0, 2, 0, 2, 0] # sched) cl =
    (nl @ ''=== 5) notify loop (~3 ticks) ==='' @ nl @ ticks_text @ out, e)"
proof -
  obtain cl1 cl2 q where "c_async MOD_C C_LOOP None 0 cl = Some cl1" "c_sleep [2, 2, 0, 2, 0, 2, 0] cl1 = Some cl2"
    and con: "op_console (c_ops g stdout) cl1 = op_console (c_ops g stdout) cl"
    and r: "s_client (rid + 1) nid (txt @ ticks_text) (s_rests clk 0 [] n) (s_rests clk 1 [] m)
      (s_looping clk q rid (Suc (Suc (Suc 0))) subscriber) cl2"
    using sample_step_notify [OF assms(1-3)] unfolding ticks_text_def by blast
  moreover have "written_since (c_ops g stdout) cl1 cl2 = ticks_text"
    by (simp add: written_since_def con console_of [OF assms(1)] console_of [OF r])
  ultimately show ?thesis using go_on [OF r] by (simp add: sample_notify_def run_simps)
qed

lemma main_fanout_step:
  assumes "s_client rid nid txt (s_rests clk 0 [] n) (s_rests clk 1 [] m) (s_looping clk q r k subscriber) cl" and "paced clk"
    and go_on: "\<And>cl'. s_client (rid + 1) nid (txt @ fanout_text n k) (s_rests clk 0 [] (Suc (Suc n))) (s_rests clk 1 [] m)
        (s_looping clk q r (Suc (Suc k)) subscriber) cl' \<Longrightarrow> run_client (c_ops g stdout) p sched cl' = (out, e)"
  shows "run_client (c_ops g stdout) (sample_fanout p) ([0, 1, 2, 2, 0, 1, 0] # sched) cl =
    (nl @ ''=== 6) fan-out (wait_reply per reply) ==='' @ nl @ fanout_text n k @ out, e)"
  using sample_step_fanout [OF assms(1,2)] go_on written_since_step [OF assms(1)]
  by (fastforce simp: sample_fanout_def run_simps)

lemma main_gather_step:
  assumes "s_client rid nid txt (s_rests clk 0 [] n) (s_rests clk 1 [] m) (s_looping clk q r k subscriber) cl" and "paced clk"
    and go_on: "\<And>cl'. s_client (rid + 1) nid (txt @ gather_text n k) (s_rests clk 0 [] (Suc (Suc n))) (s_rests clk 1 [] m)
        (s_looping clk q r (Suc (Suc k)) subscriber) cl' \<Longrightarrow> run_client (c_ops g stdout) p sched cl' = (out, e)"
  shows "run_client (c_ops g stdout) (sample_gather p) ([0, 1, 2, 2, 0, 1, 0] # sched) cl =
    (nl @ ''=== 7) gather (wait all) ==='' @ nl @ gather_text n k @ out, e)"
  using sample_step_gather [OF assms(1,2)] go_on written_since_step [OF assms(1)]
  by (fastforce simp: sample_gather_def run_simps)

lemma main_end_step:
  assumes "s_client rid nid txt A B C cl"
  shows "run_client (c_ops g stdout) (Print (nl @ ''=== teardown ==='' @ nl) (Teardown (Destroy (Print (''done'' @ nl) (Exit 0))))) sched cl =
    (nl @ ''=== teardown ==='' @ nl @ ''done'' @ nl, Exited 0)"
  by (rule s_clientE [OF assms]) (simp add: c_ops_def c_teardown_def c_destroy_def Let_def split_def)

lemma s_module_booted:
  "booted i (sample_tbl ! i) (thread_env clk l x y) = s_module i [] (Suc 0) 0 (thread_env clk l x y)"
  by (simp add: s_module_def booted_def inited_def load_module_def zero_module_def)

lemma s_module_rests: "s_rests clk i ncs n (s_module i ncs n p (thread_env (clk i) l x y))"
  by (simp add: s_rests_def s_module_def booted_def inited_def load_module_def thread_env_def)

lemma sample_begins:
  assumes "all_ok en"
  shows "s_client 1 0 [] (s_rests clk 0 [] (Suc 0)) (s_rests clk 1 [] (Suc 0)) (s_rests clk 2 [] (Suc 0)) (sample_setup (\<lambda>i. module_env (clk i)) en)"
proof -
  let ?en = "en\<lparr>log_cb := True, lib_calls := Suc (Suc (Suc (lib_calls en)))\<rparr>"
  let ?envs = "\<lambda>i. thread_env (clk i) [] 0 0"
  have three: "create_threads 3 i nr c en = create_threads (Suc (Suc (Suc 0))) i nr c en" for i nr c en
    by (simp add: numeral_3_eq_3)
  obtain c1 en1 where s: "coseq_setup fresh_ctx sample_tbl 3 ?envs ?en = (True, c1, en1)" and e: "all_ok en1" "log_cb en1"
    "ext_id c1 = 1" "ext_wait_rid c1 = - 1" "next_client_id c1 = 0" "user_mem c1 ''stdout'' = []"
    using assms
    by (simp add: coseq_setup_def init_modules_Cons three MAX_MODULE_def all_ok_def lib_call_def Let_def sample_tbl_def
       log_defs zero_ctx_def fresh_ctx_def)
  have l: "length sample_tbl = unat (3 :: u8)" "length (modules fresh_ctx) = MAX_MODULE"
    by (simp_all add: sample_tbl_def fresh_ctx_simps)
  note ok = coseq_setup_ok [OF s l]
  have g: "get_mod c1 0 = booted 0 (sample_tbl ! 0) (?envs 0)" "get_mod c1 (Suc 0) = booted 1 (sample_tbl ! 1) (?envs 1)"
    "get_mod c1 2 = booted 2 (sample_tbl ! 2) (?envs 2)"
    by (simp_all add: ok(4))
  have "sample_setup (\<lambda>i. module_env (clk i)) en = \<lparr>cc_ctx = Some c1, cc_tls = no_tls, cc_env = en1\<rparr>"
    using assms s
    by (simp add: sample_setup_def coseq_set_log_cb_def create_coseq_def lib_call_def all_ok_def Let_def module_env_logging
        fresh_ctx_def)
  then show ?thesis
    using ok(1,2) e g s_module_rests [of clk]
    by (simp add: s_client_def s_module_booted MAX_MODULE_def chars_def)
qed

definition sample_schedule :: "nat list list" where
  "sample_schedule = [[0], [0, 1, 2, 2, 1, 0], [0, 2, 0], [0, 1, 0, 1, 0], [2, 2, 0, 2, 0, 2, 0], [0, 1, 2, 2, 0, 1, 0],
     [0, 1, 2, 2, 0, 1, 0]]"

text \<open>The lines the modules write, worked out.\<close>

lemma notify_line:
  assumes "k \<in> {1, 2, 3, 4, 5, 6, 7}"
  shows "notified_text k = ''    [A::recv_notify] client_id=0 msg=[notify #'' @ decimal k @ '']'' @ nl"
proof -
  have "CHR 0x00 \<notin> set (''notify #'' @ decimal k)" using assms by (auto simp: decimal_digits)
  from c_text_bytes [OF this] show ?thesis
    by (simp add: notified_text_def recv_line_def notify_text_def bytes_def decimal_digits)
qed

lemma written_lines_of_sample:
  "chain_text = ''[A::chain] lock + request B::chain'' @ nl @ ''  [B::chain] request C::work'' @ nl @
     ''  [B::chain] reply from C [1]'' @ nl @ ''[A::chain] reply from B [1]'' @ nl"
  "subscribe_text = ''[A::sub] request C::register (subscribe NOTIFY_CAT_1)'' @ nl @ ''[A::sub] subscribed. client_id=0'' @ nl"
  "reqto_text = ''[A::reqto] request_timeout B::slow (timeout 100ms, B takes 300ms)'' @ nl @
     ''[A::reqto] result [3] (REQ_TIMEOUT)'' @ nl"
  by (simp_all add: chain_text_def chain_asks_def b_chain_asks_def b_chain_got_def chain_got_def subscribe_text_def
      sub_asks_def sub_got_def reqto_text_def reqto_asks_def reqto_got_def result_code_def decimal_digits)

lemma fanout_lines:
  "fanout_text 4 3 = ''[A::fanout] fired B(id=4) & C(id=5), gather...'' @ nl @ notified_text 4 @
     ''[A::fanout] got id=5 (C::work) result=1'' @ nl @ notified_text 5 @
     ''[A::fanout] got id=4 (B::slow) result=1'' @ nl"
  by (simp add: fanout_text_def fanout_fired_def fanout_got_def Let_def result_code_def decimal_digits)

lemma gather_lines:
  "gather_text 6 5 = notified_text 6 @ ''[A::gather] reply id=7 result=1'' @ nl @ notified_text 7 @
     ''[A::gather] reply id=6 result=1'' @ nl @ ''[A::gather] all 2 replies gathered'' @ nl"
  by (simp add: gather_text_def gather_got_def gather_done_def result_code_def signed_decimal_def decimal_digits)

definition notify_row :: "nat \<Rightarrow> string" where
  "notify_row k = ''    [A::recv_notify] client_id=0 msg=[notify #'' @ decimal k @ '']''"

text \<open>The console of the sample, line by line.\<close>

definition sample_output :: string where
  "sample_output = concat (map (\<lambda>l. l @ nl) [''=== 1) echo ==='', ''reply [1] [test-message]'', [],
     ''=== 2) chain (+lock): A -> B -> C ==='', ''[A::chain] lock + request B::chain'', ''  [B::chain] request C::work'',
     ''  [B::chain] reply from C [1]'', ''[A::chain] reply from B [1]'', ''reply [1]'', [],
     ''=== 3) subscribe ==='', ''[A::sub] request C::register (subscribe NOTIFY_CAT_1)'', ''[A::sub] subscribed. client_id=0'', [],
     ''=== 4) request_timeout ==='', ''[A::reqto] request_timeout B::slow (timeout 100ms, B takes 300ms)'',
     ''[A::reqto] result [3] (REQ_TIMEOUT)'', [],
     ''=== 5) notify loop (~3 ticks) ==='', notify_row 1, notify_row 2, notify_row 3, [],
     ''=== 6) fan-out (wait_reply per reply) ==='', ''[A::fanout] fired B(id=4) & C(id=5), gather...'', notify_row 4,
     ''[A::fanout] got id=5 (C::work) result=1'', notify_row 5, ''[A::fanout] got id=4 (B::slow) result=1'', [],
     ''=== 7) gather (wait all) ==='', notify_row 6, ''[A::gather] reply id=7 result=1'', notify_row 7,
     ''[A::gather] reply id=6 result=1'', ''[A::gather] all 2 replies gathered'', [], ''=== teardown ==='', ''done''])"

lemma sample_runs:
  assumes "all_ok en" and "paced clk"
  shows "run_client (c_ops g stdout) sample_main sample_schedule (sample_setup (\<lambda>i. module_env (clk i)) en) =
    (sample_output, Exited 0)"
proof -
  note p = assms(2)
  have "run_client (c_ops g stdout) sample_main sample_schedule (sample_setup (\<lambda>i. module_env (clk i)) en) =
      (''=== 1) echo ==='' @ nl @ ''reply [1] [test-message]'' @ nl @
       nl @ ''=== 2) chain (+lock): A -> B -> C ==='' @ nl @ chain_text @ ''reply [1]'' @ nl @
       nl @ ''=== 3) subscribe ==='' @ nl @ subscribe_text @ nl @ ''=== 4) request_timeout ==='' @ nl @ reqto_text @
       nl @ ''=== 5) notify loop (~3 ticks) ==='' @ nl @ ticks_text @
       nl @ ''=== 6) fan-out (wait_reply per reply) ==='' @ nl @ fanout_text (Suc (Suc (Suc (Suc 0)))) (Suc (Suc (Suc 0))) @
       nl @ ''=== 7) gather (wait all) ==='' @ nl @
         gather_text (Suc (Suc (Suc (Suc (Suc (Suc 0)))))) (Suc (Suc (Suc (Suc (Suc 0))))) @
       nl @ ''=== teardown ==='' @ nl @ ''done'' @ nl, Exited 0)"
    unfolding sample_main_def sample_schedule_def
    by (rule main_echo_step [OF sample_begins [OF assms(1)] p])
      (rule main_chain_step main_subscribe_step main_reqto_step main_notify_step main_fanout_step main_gather_step
        main_end_step p | assumption | (simp; fail))+
  moreover have "fanout_text (Suc (Suc (Suc (Suc 0)))) (Suc (Suc (Suc 0))) = fanout_text 4 3"
    "gather_text (Suc (Suc (Suc (Suc (Suc (Suc 0)))))) (Suc (Suc (Suc (Suc (Suc 0))))) = gather_text 6 5"
    "ticks_text = notified_text 1 @ notified_text 2 @ notified_text 3"
    by (simp_all add: ticks_text_def eval_nat_numeral)
  ultimately show ?thesis
    unfolding sample_output_def by (simp only: written_lines_of_sample fanout_lines gather_lines)
      (simp add: notify_line notify_row_def)
qed

text \<open>
  C23: The C sample runs to its end. With clocks that move on and no failing library call there is an order of the
  threads' turns in which \<open>main\<close> of \<open>samples/sample.c\<close> gets all its replies and exits with 0, although from its
  fifth step on module C runs a loop that never ends and floods module A with notifications. The console
  shows \<open>sample_output\<close>, apart from the lines of the log: the replies of the echo and of the chain through three
  modules, the request that times out, the first notifications, the two replies of the fan-out in the order
  in which the timers of 100 and 300 ms let them come, each with the id of its request, and both replies of
  the gathering, with notifications in between.
\<close>

theorem sample_completes:
  assumes "all_ok en" and "paced clk"
  shows "sample_program (\<lambda>i. module_env (clk i)) en sample_schedule = (sample_output, Exited 0)"
  unfolding sample_program_def by (rule sample_runs [OF assms])

lemma seconds_paced: "paced (\<lambda>i n. Timespec (int n) 0)"
  by (simp add: paced_def ts_add_ms_def Let_def ts_lt_def del: ts_lt_less)

theorem sample_completes_witness:
  "sample_program (\<lambda>i. module_env (\<lambda>n. Timespec (int n) 0)) no_env sample_schedule = (sample_output, Exited 0)"
  using sample_completes [OF _ seconds_paced, of no_env] by (simp add: no_env_def all_ok_def)

section \<open>The C++ sample\<close>

text \<open>\<open>main\<close> of the C++ sample over the instance of the C sample prints the same and completes.\<close>

theorem sample_mains_agree_witness:
  "\<exists>mgr. run_client (pp_ops (\<lambda>_ _. 0) stdout) pp_main sample_schedule mgr = (sample_output, Exited 0)"
proof -
  let ?clk = "\<lambda>i n. Timespec (int n) 0"
  define cl where "cl = sample_setup (\<lambda>i. module_env (?clk i)) no_env"
  have ok: "all_ok no_env" by (simp add: no_env_def all_ok_def)
  have cl: "cl = \<lparr>cc_ctx = cc_ctx cl, cc_tls = cc_tls cl, cc_env = cc_env cl\<rparr>" by simp
  have "\<forall>ts rest s cl'. sample_schedule = ts # rest \<longrightarrow>
      c_sync MOD_A A_ECHO (Some (bytes ''test-message'')) (length ''test-message'') ts
        \<lparr>cc_ctx = cc_ctx cl, cc_tls = cc_tls cl, cc_env = cc_env cl\<rparr> = Some (s, cl') \<longrightarrow>
      0 \<notin> set (s_msg (tls_s (cc_tls cl')))"
    using sample_step_echo [OF sample_begins [OF ok] seconds_paced] unfolding cl [symmetric]
    by (auto simp: sample_schedule_def cl_def bytes_def)
  note same = sample_mains_agree [OF this, of "\<lambda>_ _. 0" stdout]
  have "run_client (c_ops (\<lambda>_ _. 0) stdout) sample_main sample_schedule cl = (sample_output, Exited 0)"
    unfolding cl_def by (rule sample_runs [OF ok seconds_paced])
  then show ?thesis using same unfolding cl [symmetric] by metis
qed

end
