(* ===== verification/CoseqTests.thy ===== *)
theory CoseqTests
  imports CoseqClient
begin

text \<open>
  The tests of the C++ binding (\<open>testpp/main.cpp\<close>): the classes of its three modules, whose members
  check what they get with \<open>assert\<close>, and \<open>main\<close>, which drives them from outside and checks what comes
  back. What a failed \<open>assert\<close> does is the parameter \<open>ab\<close> of the members, so that a theorem which holds for
  every \<open>ab\<close> shows that no assertion fails. Where C++ would dereference a null pointer the members
  go on with \<open>ab\<close> as well.
\<close>

section \<open>Indices\<close>

definition T_ECHO :: u8 where "T_ECHO = 0"
definition T_CHAIN :: u8 where "T_CHAIN = 1"
definition T_REQTO :: u8 where "T_REQTO = 2"
definition T_FANOUT :: u8 where "T_FANOUT = 3"
definition T_GATHER :: u8 where "T_GATHER = 4"
definition T_SUBSCRIBE :: u8 where "T_SUBSCRIBE = 5"
definition T_LOCK :: u8 where "T_LOCK = 6"
definition T_NOLOCK :: u8 where "T_NOLOCK = 7"
definition T_PROBE :: u8 where "T_PROBE = 8"
definition T_GETLOG :: u8 where "T_GETLOG = 9"
definition T_REQMSG :: u8 where "T_REQMSG = 10"
definition T_DO_SEND :: u8 where "T_DO_SEND = 11"

definition TB_CHAIN :: u8 where "TB_CHAIN = 0"
definition TB_SLOW :: u8 where "TB_SLOW = 1"
definition TB_ECHO :: u8 where "TB_ECHO = 2"

definition TC_WORK :: u8 where "TC_WORK = 0"
definition TC_REGISTER :: u8 where "TC_REGISTER = 1"
definition TC_NOTIFY_ONCE :: u8 where "TC_NOTIFY_ONCE = 2"
definition TC_UNREGISTER :: u8 where "TC_UNREGISTER = 3"
definition TC_NOTIFY_EMPTY :: u8 where "TC_NOTIFY_EMPTY = 4"
definition TC_SINK :: u8 where "TC_SINK = 5"

definition T_CAT :: u8 where "T_CAT = 0"

lemmas test_ids = T_ECHO_def T_CHAIN_def T_REQTO_def T_FANOUT_def T_GATHER_def T_SUBSCRIBE_def T_LOCK_def
  T_NOLOCK_def T_PROBE_def T_GETLOG_def T_REQMSG_def T_DO_SEND_def TB_CHAIN_def TB_SLOW_def TB_ECHO_def
  TC_WORK_def TC_REGISTER_def TC_NOTIFY_ONCE_def TC_UNREGISTER_def TC_NOTIFY_EMPTY_def TC_SINK_def T_CAT_def
  MOD_A_def MOD_B_def MOD_C_def

section \<open>Globals\<close>

text \<open>The counters hold one number, the log \<open>g_log\<close> of the lock tests its characters.\<close>

definition counter :: "memory \<Rightarrow> string \<Rightarrow> int" where
  "counter u x = (case u x of [] \<Rightarrow> 0 | n # _ \<Rightarrow> n)"

definition test_globals :: memory where
  "test_globals = (\<lambda>_. [])(''g_notify_count'' := [0], ''g_notify_last_len'' := [-1], ''g_sink_count'' := [0])"

definition fetch_add :: "string \<Rightarrow> seq_prog \<Rightarrow> seq_prog" where
  "fetch_add x p = Access (\<lambda>u. u(x := [counter u x + 1])) (\<lambda>_. p)"

definition store :: "string \<Rightarrow> int \<Rightarrow> seq_prog \<Rightarrow> seq_prog" where
  "store x n p = Access (\<lambda>u. u(x := [n])) (\<lambda>_. p)"

definition clear_log :: "seq_prog \<Rightarrow> seq_prog" where
  "clear_log p = Access (\<lambda>u. u(''g_log'' := [])) (\<lambda>_. p)"

definition append_log :: "string \<Rightarrow> seq_prog \<Rightarrow> seq_prog" where
  "append_log s p = Access (\<lambda>u. u(''g_log'' := u ''g_log'' @ chars s)) (\<lambda>_. p)"

definition assert_that :: "seq_prog \<Rightarrow> bool \<Rightarrow> seq_prog \<Rightarrow> seq_prog" where
  "assert_that ab b p = (if b then p else ab)"

section \<open>Module A\<close>

definition t_echo :: "seq_prog \<Rightarrow> pp_source \<Rightarrow> seq_prog" where
  "t_echo ab it = iface_get_sequence_name (\<lambda>nm. assert_that ab (nm = ''echo'') (iface_get_source it (\<lambda>s.
     iface_reply Result_success (Some (src_message s)) (length (src_message s)) Return)))"

definition t_chain :: "seq_prog \<Rightarrow> pp_source \<Rightarrow> seq_prog" where
  "t_chain ab it = iface_request it MOD_B TB_CHAIN None 0 (\<lambda>r.
     assert_that ab (get_result r = Some Result_success) (iface_reply Result_success None 0 Return))"

definition t_reqto :: "seq_prog \<Rightarrow> pp_source \<Rightarrow> seq_prog" where
  "t_reqto ab it = iface_request_timeout it MOD_B TB_SLOW None 0 100 (\<lambda>r.
     assert_that ab (get_result r = Some Result_request_timeout) (iface_reply Result_success None 0 Return))"

text \<open>The loop of \<open>fanout\<close>, with \<open>n\<close> rounds left.\<close>

fun t_fanout_loop :: "seq_prog \<Rightarrow> u32 \<Rightarrow> u32 \<Rightarrow> nat \<Rightarrow> int \<Rightarrow> int \<Rightarrow> pp_source \<Rightarrow> seq_prog" where
  "t_fanout_loop ab id_b id_c 0 got_b got_c it =
     assert_that ab (got_b = 1 \<and> got_c = 1) (iface_reply Result_success None 0 Return)"
| "t_fanout_loop ab id_b id_c (Suc n) got_b got_c it = iface_wait_reply it (\<lambda>r.
     assert_that ab (get_result r = Some Result_success)
       (if get_request_id r = Some id_b then t_fanout_loop ab id_b id_c n (got_b + 1) got_c r
        else if get_request_id r = Some id_c then t_fanout_loop ab id_b id_c n got_b (got_c + 1) r
        else assert_that ab False (t_fanout_loop ab id_b id_c n got_b got_c r)))"

definition t_fanout :: "seq_prog \<Rightarrow> pp_source \<Rightarrow> seq_prog" where
  "t_fanout ab it = iface_request_async MOD_B TB_SLOW None 0 (\<lambda>id_b.
     iface_request_async MOD_C TC_WORK None 0 (\<lambda>id_c. t_fanout_loop ab id_b id_c 2 0 0 it))"

definition t_gather :: "seq_prog \<Rightarrow> pp_source \<Rightarrow> seq_prog" where
  "t_gather ab it = iface_request_async MOD_B TB_SLOW None 0 (\<lambda>_.
     iface_request_async MOD_C TC_WORK None 0 (\<lambda>_. iface_request_async MOD_C TC_WORK None 0 (\<lambda>_.
     gather_all [] (\<lambda>replies. assert_that ab (length replies = 3)
       (assert_that ab (\<forall>r \<in> set replies. rp_rslt r = Result_success)
         (iface_reply Result_success None 0 Return))))))"

definition t_subscribe :: "seq_prog \<Rightarrow> pp_source \<Rightarrow> seq_prog" where
  "t_subscribe ab it = iface_request it MOD_C TC_REGISTER None 0 (\<lambda>r.
     assert_that ab (get_result r = Some Result_success) (assert_that ab (length (src_message r) = 1)
       (iface_reply Result_success (Some [hd (src_message r)]) 1 Return)))"

definition t_lock_seq :: "pp_source \<Rightarrow> seq_prog" where
  "t_lock_seq it = clear_log (append_log ''['' (iface_lock (iface_request it MOD_B TB_SLOW None 0 (\<lambda>r.
     iface_unlock (append_log '']'' (iface_reply Result_success None 0 Return))))))"

definition t_nolock_seq :: "pp_source \<Rightarrow> seq_prog" where
  "t_nolock_seq it = clear_log (append_log ''['' (iface_request it MOD_B TB_SLOW None 0 (\<lambda>r.
     append_log '']'' (iface_reply Result_success None 0 Return))))"

definition t_probe :: "pp_source \<Rightarrow> seq_prog" where
  "t_probe it = append_log ''P'' (iface_reply Result_success None 0 Return)"

definition t_getlog :: "pp_source \<Rightarrow> seq_prog" where
  "t_getlog it = Access (\<lambda>u. u) (\<lambda>u.
     iface_reply Result_success (Some (map of_int (u ''g_log''))) (length (u ''g_log'')) Return)"

definition t_reqmsg :: "seq_prog \<Rightarrow> pp_source \<Rightarrow> seq_prog" where
  "t_reqmsg ab it = iface_request it MOD_B TB_ECHO (Some (bytes ''xyz'')) (length ''xyz'') (\<lambda>r.
     assert_that ab (get_result r = Some Result_success) (assert_that ab (src_message r = bytes ''xyz'')
       (iface_reply Result_success None 0 Return)))"

definition t_do_send :: "pp_source \<Rightarrow> seq_prog" where
  "t_do_send it = iface_send MOD_C TC_SINK None 0 (iface_reply Result_success None 0 Return)"

definition t_on_receive_notify :: "seq_prog \<Rightarrow> pp_source \<Rightarrow> seq_prog" where
  "t_on_receive_notify ab it = iface_get_source it (\<lambda>s.
     assert_that ab (length (src_message s) > 0 \<longrightarrow> src_message s = bytes ''hello'')
       (fetch_add ''g_notify_count'' (store ''g_notify_last_len'' (int (length (src_message s))) Return)))"

definition t_module_a :: "seq_prog \<Rightarrow> module_base" where
  "t_module_a ab = set_sequences
     [\<lparr>sq_member = t_echo ab, sq_title = ''echo''\<rparr>, \<lparr>sq_member = t_chain ab, sq_title = ''chain''\<rparr>,
      \<lparr>sq_member = t_reqto ab, sq_title = ''reqto''\<rparr>, \<lparr>sq_member = t_fanout ab, sq_title = ''fanout''\<rparr>,
      \<lparr>sq_member = t_gather ab, sq_title = ''gather''\<rparr>, \<lparr>sq_member = t_subscribe ab, sq_title = ''subscribe''\<rparr>,
      \<lparr>sq_member = t_lock_seq, sq_title = ''lock''\<rparr>, \<lparr>sq_member = t_nolock_seq, sq_title = ''nolock''\<rparr>,
      \<lparr>sq_member = t_probe, sq_title = ''probe''\<rparr>, \<lparr>sq_member = t_getlog, sq_title = ''getlog''\<rparr>,
      \<lparr>sq_member = t_reqmsg ab, sq_title = ''reqmsg''\<rparr>, \<lparr>sq_member = t_do_send, sq_title = ''do_send''\<rparr>]
     ((new_module_base ''ModuleA'' 10)\<lparr>mb_on_receive_notify := t_on_receive_notify ab\<rparr>)"

section \<open>Modules B and C\<close>

definition t_b_chain :: "seq_prog \<Rightarrow> pp_source \<Rightarrow> seq_prog" where
  "t_b_chain ab it = iface_request it MOD_C TC_WORK None 0 (\<lambda>r.
     assert_that ab (get_result r = Some Result_success) (iface_reply Result_success None 0 Return))"

definition t_slow :: "pp_source \<Rightarrow> seq_prog" where
  "t_slow it = iface_wait_timeout 300 (iface_reply Result_success None 0 Return)"

definition t_b_echo :: "seq_prog \<Rightarrow> pp_source \<Rightarrow> seq_prog" where
  "t_b_echo ab it = iface_get_source it (\<lambda>s. assert_that ab (get_thread_idx s = Some MOD_A)
     (assert_that ab (get_sequence_idx s = Some TB_ECHO)
       (iface_reply Result_success (Some (src_message s)) (length (src_message s)) Return)))"

definition t_module_b :: "seq_prog \<Rightarrow> module_base" where
  "t_module_b ab = set_sequences_array
     [\<lparr>sq_member = t_b_chain ab, sq_title = ''chain''\<rparr>, \<lparr>sq_member = t_slow, sq_title = ''slow''\<rparr>,
      \<lparr>sq_member = t_b_echo ab, sq_title = ''echo''\<rparr>] 3 (new_module_base ''ModuleB'' 10)"

definition t_work :: "pp_source \<Rightarrow> seq_prog" where
  "t_work it = iface_wait_timeout 100 (iface_reply Result_success None 0 Return)"

definition t_regist :: "pp_source \<Rightarrow> seq_prog" where
  "t_regist it = iface_reg_notify T_CAT (\<lambda>r. case r of
       Some client_id \<Rightarrow> iface_reply Result_success (Some [client_id]) 1 Return
     | None \<Rightarrow> iface_reply Result_error None 0 Return)"

definition t_notify_once :: "pp_source \<Rightarrow> seq_prog" where
  "t_notify_once it = iface_notify T_CAT (Some (bytes ''hello'')) (length ''hello'') (\<lambda>_.
     iface_reply Result_success None 0 Return)"

definition t_unregist :: "seq_prog \<Rightarrow> pp_source \<Rightarrow> seq_prog" where
  "t_unregist ab it = iface_get_source it (\<lambda>s. case src_message s of
       [] \<Rightarrow> ab
     | client_id # _ \<Rightarrow> iface_unreg_notify T_CAT client_id (\<lambda>b.
         iface_reply (if b then Result_success else Result_error) None 0 Return))"

definition t_notify_empty :: "pp_source \<Rightarrow> seq_prog" where
  "t_notify_empty it = iface_notify T_CAT None 0 (\<lambda>_. iface_reply Result_success None 0 Return)"

definition t_sink :: "pp_source \<Rightarrow> seq_prog" where
  "t_sink it = fetch_add ''g_sink_count'' Return"

definition t_module_c :: "seq_prog \<Rightarrow> module_base" where
  "t_module_c ab = set_sequences
     [\<lparr>sq_member = t_work, sq_title = ''work''\<rparr>, \<lparr>sq_member = t_regist, sq_title = ''register''\<rparr>,
      \<lparr>sq_member = t_notify_once, sq_title = ''notify_once''\<rparr>, \<lparr>sq_member = t_unregist ab, sq_title = ''unregister''\<rparr>,
      \<lparr>sq_member = t_notify_empty, sq_title = ''notify_empty''\<rparr>, \<lparr>sq_member = t_sink, sq_title = ''sink''\<rparr>]
     (new_module_base ''ModuleC'' 10)"

text \<open>The vector \<open>mods\<close> of \<open>main\<close>: the objects at their addresses.\<close>

definition t_mods :: "nat list" where
  "t_mods = [1, 2, 3]"

definition t_objs :: "seq_prog \<Rightarrow> nat \<Rightarrow> module_base" where
  "t_objs ab a = (if a = 1 then t_module_a ab else if a = 2 then t_module_b ab else t_module_c ab)"

lemmas test_members = t_echo_def t_chain_def t_reqto_def t_fanout_def t_gather_def t_subscribe_def t_lock_seq_def
  t_nolock_seq_def t_probe_def t_getlog_def t_reqmsg_def t_do_send_def t_on_receive_notify_def t_b_chain_def
  t_slow_def t_b_echo_def t_work_def t_regist_def t_notify_once_def t_unregist_def t_notify_empty_def t_sink_def

end
