(* ===== verification/CoseqTestMain.thy ===== *)
theory CoseqTestMain
  imports CoseqTests
begin

text \<open>
  \<open>main\<close> of the tests of the C++ binding (\<open>testpp/main.cpp\<close>), as a program of the calls it makes on the
  manager, and the program it is part of: \<open>setup\<close> with the three objects and the log callback, the tests
  and \<open>teardown\<close>.
\<close>

section \<open>The tests\<close>

text \<open>A failed \<open>CHECK\<close> writes the condition and its line to the error stream and ends the process.\<close>

definition check :: "string \<Rightarrow> nat \<Rightarrow> bool \<Rightarrow> source_obj client_prog \<Rightarrow> source_obj client_prog" where
  "check cond line b p =
     (if b then p else Print (''FAIL: '' @ cond @ '' (line '' @ decimal line @ '')'' @ nl) Abort)"

text \<open>Texts of conditions.\<close>

definition quoted :: "string \<Rightarrow> string" where
  "quoted s = [CHR 0x22] @ s @ [CHR 0x22]"

definition success_text :: string where
  "success_text = ''r.get_result() == coseq::result::success''"

definition message_text :: string where
  "message_text = ''std::string(reinterpret_cast<char *>(r.get_message().data()), r.get_message().length()) == ''"

definition message_is :: "pp_source \<Rightarrow> string \<Rightarrow> bool" where
  "message_is r s \<longleftrightarrow> src_message r = bytes s"

definition main_echo :: "source_obj client_prog \<Rightarrow> source_obj client_prog" where
  "main_echo k = Call_sync MOD_A T_ECHO (Some (bytes ''ping'')) (length ''ping'') (\<lambda>o1. look o1 (\<lambda>r.
     check success_text 261 (get_result r = Some Result_success) (check (message_text @ quoted ''ping'') 262
       (message_is r ''ping'') k)))"

definition main_chain :: "source_obj client_prog \<Rightarrow> source_obj client_prog" where
  "main_chain k = Call_sync MOD_A T_CHAIN None 0 (\<lambda>o1. look o1 (\<lambda>r. check success_text 267 (get_result r = Some Result_success) k))"

definition main_reqto :: "source_obj client_prog \<Rightarrow> source_obj client_prog" where
  "main_reqto k = Call_sync MOD_A T_REQTO None 0 (\<lambda>o1. look o1 (\<lambda>r. check success_text 272 (get_result r = Some Result_success) k))"

definition main_fanout :: "source_obj client_prog \<Rightarrow> source_obj client_prog" where
  "main_fanout k = Call_sync MOD_A T_FANOUT None 0 (\<lambda>o1. look o1 (\<lambda>r. check success_text 277 (get_result r = Some Result_success) k))"

definition main_gather :: "source_obj client_prog \<Rightarrow> source_obj client_prog" where
  "main_gather k = Call_sync MOD_A T_GATHER None 0 (\<lambda>o1. look o1 (\<lambda>r. check success_text 282 (get_result r = Some Result_success) k))"

text \<open>What a check of the two counters of the notification handler asks.\<close>

definition notified :: "nat \<Rightarrow> int \<Rightarrow> int \<Rightarrow> source_obj client_prog \<Rightarrow> source_obj client_prog" where
  "notified line n len k = Load (\<lambda>u.
     check (''g_notify_count.load() == '' @ signed_decimal n) line (counter u ''g_notify_count'' = n)
     (check (''g_notify_last_len.load() == '' @ signed_decimal len) (line + 1) (counter u ''g_notify_last_len'' = len) k))"

definition main_notify :: "source_obj client_prog \<Rightarrow> source_obj client_prog" where
  "main_notify k = Call_sync MOD_A T_SUBSCRIBE None 0 (\<lambda>o1. look o1 (\<lambda>r.
     check success_text 287 (get_result r = Some Result_success) (check ''r.get_message().length() == 1'' 288 (length (src_message r) = 1)
       (let client_id = hd (src_message r)
        in Call_sync MOD_C TC_NOTIFY_ONCE None 0 (\<lambda>_. Sleep 100 (notified 293 1 5
          (Call_sync MOD_C TC_NOTIFY_EMPTY None 0 (\<lambda>_. Sleep 100 (notified 299 2 0
            (Call_sync MOD_C TC_UNREGISTER (Some [client_id]) 1 (\<lambda>o2. look o2 (\<lambda>ur.
               check ''ur.get_result() == coseq::result::success'' 305 (get_result ur = Some Result_success)
                 (Call_sync MOD_C TC_NOTIFY_ONCE None 0 (\<lambda>_. Sleep 100
                   (Load (\<lambda>u. check ''g_notify_count.load() == 2'' 308 (counter u ''g_notify_count'' = 2) k))))))))))))))))"

definition main_reqmsg :: "source_obj client_prog \<Rightarrow> source_obj client_prog" where
  "main_reqmsg k = Call_sync MOD_A T_REQMSG None 0 (\<lambda>o1. look o1 (\<lambda>r. check success_text 313 (get_result r = Some Result_success) k))"

text \<open>Tests 7 and 8 differ in the sequence they start and in the log they expect.\<close>

definition main_probe :: "nat \<Rightarrow> u8 \<Rightarrow> string \<Rightarrow> source_obj client_prog \<Rightarrow> source_obj client_prog" where
  "main_probe line seq_idx expected k =
     Call_async MOD_A seq_idx None 0 (Sleep 50 (Call_async MOD_A T_PROBE None 0 (Sleep 400
       (Call_sync MOD_A T_GETLOG None 0 (\<lambda>o1. look o1 (\<lambda>r.
         check (''log == '' @ quoted expected) line (message_is r expected) k))))))"

definition main_lock :: "source_obj client_prog \<Rightarrow> source_obj client_prog" where
  "main_lock k = main_probe 323 T_LOCK ''[]P'' k"

definition main_nolock :: "source_obj client_prog \<Rightarrow> source_obj client_prog" where
  "main_nolock k = main_probe 333 T_NOLOCK ''[P]'' k"

definition main_send :: "source_obj client_prog \<Rightarrow> source_obj client_prog" where
  "main_send k = Load (\<lambda>u. let before = counter u ''g_sink_count''
     in Call_sync MOD_A T_DO_SEND None 0 (\<lambda>_. Call_async MOD_C TC_SINK None 0 (Sleep 100
       (Load (\<lambda>u. check ''g_sink_count.load() == before + 2'' 342 (counter u ''g_sink_count'' = before + 2) k)))))"

definition main_no_errors :: "source_obj client_prog \<Rightarrow> source_obj client_prog" where
  "main_no_errors k = Load_errors (\<lambda>n. check ''g_log_errors.load() == 0'' 346 (n = 0) k)"

definition main_errors :: "source_obj client_prog \<Rightarrow> source_obj client_prog" where
  "main_errors k = Load_errors (\<lambda>before.
     Call_async 99 0 (Some [1, 2, 3, 4]) 4 (Call_async MOD_C 99 None 0 (Sleep 100
       (Load_errors (\<lambda>n. check ''g_log_errors.load() == before + 2'' 355 (n = before + 2)
         (Call_sync MOD_C TC_REGISTER None 0 (\<lambda>o1. look o1 (\<lambda>r.
           check ''r.get_result() == coseq::result::error'' 359 (get_result r = Some Result_error) k))))))))"

definition test_main :: "source_obj client_prog" where
  "test_main = main_echo (main_chain (main_reqto (main_fanout (main_gather (main_notify (main_reqmsg
     (main_lock (main_nolock (main_send (main_no_errors (main_errors
     (Teardown (Print (''ALL TESTS PASSED'' @ nl) (Destroy (Exit 0)))))))))))))))"

section \<open>Counting errors\<close>

text \<open>
  The callback \<open>main\<close> sets: it counts in \<open>g_log_errors\<close> and writes to the error stream. \<open>g_log_errors\<close> is what it
  has counted in the calling thread and in the threads of the modules; \<open>render\<close> makes the line of a
  message.
\<close>

definition test_log_fn :: "(int \<times> string) log_fn" where
  "test_log_fn lv msg s =
     (if lv = Level_error then (fst s + 1, snd s @ ''coseq ERROR: '' @ msg @ nl) else s)"

definition count_errors :: "(log_msg \<Rightarrow> string) \<Rightarrow> env \<Rightarrow> int \<times> string \<Rightarrow> int \<times> string" where
  "count_errors render en s = logged render (Some test_log_fn) en s"

definition g_log_errors :: "(log_msg \<Rightarrow> string) \<Rightarrow> env \<Rightarrow> coseq_ctx_private option \<Rightarrow> int" where
  "g_log_errors render en ctx = fst (fold (count_errors render)
     (en # (case ctx of None \<Rightarrow> [] | Some c \<Rightarrow> map (\<lambda>i. m_env (get_mod c i)) [0..<nat (nr_module c)])) (0, []))"

section \<open>The whole test program\<close>

text \<open>
  The callback is a global of the core, so the threads of the modules see it as well. The globals
  have their initial values; the \<open>__thread\<close> variables are cleared.
\<close>

definition test_setup :: "seq_prog \<Rightarrow> (nat \<Rightarrow> env) \<Rightarrow> env \<Rightarrow> (bool \<times> pp_client) option" where
  "test_setup ab envs en =
     (let (fn, en1) = set_log_cb (Some test_log_fn) en;
          (mgr, en2) = new_manager en1;
          mgr1 = mgr\<lparr>mgr_ctx := map_option (\<lambda>c. c\<lparr>user_mem := test_globals\<rparr>) (mgr_ctx mgr)\<rparr>
      in map_option (\<lambda>(b, mgr2, objs, en3). (b, \<lparr>cl_mgr = mgr2, cl_tls = no_tls, cl_env = en3\<rparr>))
           (manager_setup mgr1 (t_objs ab) t_mods (\<lambda>i. coseq_set_log_cb (fn \<noteq> None) (envs i)) en2))"

text \<open>
  The members write nothing to the console. The log lines are those of the core, for the texts of the C
  library \<open>es\<close> and \<open>rc\<close>.
\<close>

definition test_program ::
    "string \<Rightarrow> int \<Rightarrow> seq_prog \<Rightarrow> (nat \<Rightarrow> env) \<Rightarrow> env \<Rightarrow> nat list list \<Rightarrow> string \<times> client_end" where
  "test_program es rc ab envs en sched = (case test_setup ab envs en of
       None \<Rightarrow> ([], Stopped)
     | Some (b, cl) \<Rightarrow> run_client (pp_ops (g_log_errors (log_line es rc)) no_console)
         (check ''mgr.setup(mods)'' 255 b test_main) sched cl)"

end
