(* ===== verification/CoseqTestRuns.thy ===== *)
theory CoseqTestRuns
  imports CoseqTestMain
begin

text \<open>
  The tests of the C++ binding pass: a run of \<open>main\<close> in which no assertion of a member fails, no \<open>CHECK\<close>
  fails and the process exits with 0, through \<open>setup\<close>, 15 synchronous and 7 asynchronous requests, and
  \<open>teardown\<close>. Every turn of every thread is evaluated, and between two tests the instance is at rest:
  no fiber, no pending request and no event is left behind.
\<close>

section \<open>The instance between the tests\<close>

definition t_numbered :: "seq_prog \<Rightarrow> nat \<Rightarrow> module_base" where
  "t_numbered ab = number_modules 0 t_mods (t_objs ab)"

text \<open>The module of the object at address \<open>a\<close>, at rest.\<close>

definition t_module :: "seq_prog \<Rightarrow> nat \<Rightarrow> notify_client_t list \<Rightarrow> nat \<Rightarrow> nat \<Rightarrow> env \<Rightarrow> module_t" where
  "t_module ab a ncs n p en = (booted (a - 1) (c_reg (t_numbered ab) a) en)\<lparr>m_notify_clients := ncs,
     m_next_req_id := n, m_next_fptr := p\<rparr>"

definition at_rest :: "seq_prog \<Rightarrow> (nat \<Rightarrow> nat \<Rightarrow> timespec) \<Rightarrow> nat \<Rightarrow> notify_client_t list \<Rightarrow> module_t \<Rightarrow> bool" where
  "at_rest ab clk a ncs m \<longleftrightarrow> m = t_module ab a ncs (m_next_req_id m) (m_next_fptr m)
     (thread_env (clk a) (logs (m_env m)) (lib_calls (m_env m)) (clock_reads (m_env m)))"

definition errors_in :: "(int \<times> log_msg) list \<Rightarrow> int" where
  "errors_in lg = int (length (filter (\<lambda>(lv, _). log_level_of lv = Level_error) lg))"

text \<open>
  The client between two tests: \<open>rid\<close> is the identifier of its next request, \<open>u\<close> the globals, \<open>nid\<close> the next
  client id and \<open>ncs\<close> the clients registered with module C, \<open>e\<close> the errors logged.
\<close>

definition between :: "seq_prog \<Rightarrow> (nat \<Rightarrow> nat \<Rightarrow> timespec) \<Rightarrow> u32 \<Rightarrow> memory \<Rightarrow> u8 \<Rightarrow> notify_client_t list
    \<Rightarrow> int \<Rightarrow> pp_client \<Rightarrow> bool" where
  "between ab clk rid u nid ncs e cl \<longleftrightarrow> (case mgr_ctx (cl_mgr cl) of None \<Rightarrow> False
     | Some c \<Rightarrow> nr_module c = 3 \<and> length (modules c) = 32 \<and> user_mem c = u \<and>
         ext_id c = rid \<and> ext_wait_rid c = - 1 \<and> next_client_id c = nid \<and>
         at_rest ab clk (Suc 0) [] (get_mod c 0) \<and> at_rest ab clk (Suc (Suc 0)) [] (get_mod c (Suc 0)) \<and>
         at_rest ab clk (Suc (Suc (Suc 0))) ncs (get_mod c 2) \<and>
         errors_in (logs (cl_env cl)) + errors_in (logs (m_env (get_mod c 0))) +
           errors_in (logs (m_env (get_mod c (Suc 0)))) + errors_in (logs (m_env (get_mod c 2))) = e) \<and>
     all_ok (cl_env cl) \<and> log_cb (cl_env cl)"

lemma betweenE:
  assumes "between ab clk rid u nid ncs e cl"
  obtains c n0 p0 l0 x0 y0 n1 p1 l1 x1 y1 n2 p2 l2 x2 y2 where
    "mgr_ctx (cl_mgr cl) = Some c" "nr_module c = 3" "length (modules c) = 32" "user_mem c = u"
    "ext_id c = rid" "ext_wait_rid c = - 1" "next_client_id c = nid" "lib_ok (cl_env cl) = (\<lambda>_. True)" "log_cb (cl_env cl)"
    "get_mod c 0 = t_module ab (Suc 0) [] n0 p0 (thread_env (clk (Suc 0)) l0 x0 y0)"
    "get_mod c (Suc 0) = t_module ab (Suc (Suc 0)) [] n1 p1 (thread_env (clk (Suc (Suc 0))) l1 x1 y1)"
    "get_mod c 2 = t_module ab (Suc (Suc (Suc 0))) ncs n2 p2 (thread_env (clk (Suc (Suc (Suc 0)))) l2 x2 y2)"
    "errors_in (logs (cl_env cl)) + errors_in l0 + errors_in l1 + errors_in l2 = e"
proof -
  obtain c where c: "mgr_ctx (cl_mgr cl) = Some c"
    using assms by (auto simp: between_def split: option.splits)
  note r = assms [unfolded between_def c at_rest_def option.case all_ok_def]
  show ?thesis
    by (rule that [OF c]; insert r, elim conjE) (assumption | simp)+
qed

text \<open>What the counter of the log callback then shows.\<close>

lemma logged_errors: "fst (logged render (Some test_log_fn) en s) = fst s + errors_in (logs en)"
proof -
  have "fst (fold (\<lambda>(level, msg). log_wrapper (Some test_log_fn) level (render msg)) lg s) = fst s + errors_in lg" for lg s
    by (induction lg arbitrary: s) (auto simp: log_wrapper_def test_log_fn_def errors_in_def)
  then show ?thesis by (simp add: logged_def)
qed

lemma between_errors:
  assumes "between ab clk rid u nid ncs e cl"
  shows "g_log_errors render (cl_env cl) (mgr_ctx (cl_mgr cl)) = e"
proof -
  obtain c where c: "mgr_ctx (cl_mgr cl) = Some c" "nr_module c = 3"
    and e: "errors_in (logs (cl_env cl)) + errors_in (logs (m_env (get_mod c 0))) +
           errors_in (logs (m_env (get_mod c (Suc 0)))) + errors_in (logs (m_env (get_mod c 2))) = e"
    using assms by (auto simp: between_def split: option.splits)
  have "[0..<nat (nr_module c)] = [0, Suc 0, 2]" by (simp add: c numeral_3_eq_3 numeral_2_eq_2)
  then show ?thesis
    using e by (simp add: g_log_errors_def c(1) count_errors_def logged_errors)
qed

section \<open>Evaluating a turn\<close>

text \<open>
  The table of a module and its sequences are kept folded, and opened at the index asked for.
\<close>

lemma step_wrapper:
  "api_step c i f (seq_wrapper objs) = Continue c (Self_seq (\<lambda>s. dispatch_seq objs (m_user (get_mod c i)) s))"
  "api_step c i f (notify_wrapper objs) = Continue c (dispatch_notify objs (m_user (get_mod c i)))"
  by (simp_all add: seq_wrapper_def notify_wrapper_def coseq_self_user_def)

lemma step_gather:
  "api_step c i f (gather_all out k) = coseq_wait_reply c i f (\<lambda>r. case r of
     None \<Rightarrow> k out | Some s \<Rightarrow> gather_all (out @ [reply_copy s]) k)"
  by (subst gather_all_rec) simp

lemma fanout_unfold: "t_fanout_loop ab i j 2 b d it = t_fanout_loop ab i j (Suc (Suc 0)) b d it"
  by (simp add: numeral_2_eq_2)

lemma numbered:
  "t_numbered ab (Suc 0) = (t_module_a ab)\<lparr>mb_idx := 0\<rparr>"
  "t_numbered ab (Suc (Suc 0)) = (t_module_b ab)\<lparr>mb_idx := 1\<rparr>"
  "t_numbered ab (Suc (Suc (Suc 0))) = (t_module_c ab)\<lparr>mb_idx := 2\<rparr>"
  by (simp_all add: t_numbered_def t_mods_def t_objs_def numeral_2_eq_2 numeral_3_eq_3)

lemmas object_defs = t_module_a_def t_module_b_def t_module_c_def set_sequences_def set_sequences_array_def
  new_module_base_def

lemma objects:
  "mb_on_receive_notify (t_module_a ab) = t_on_receive_notify ab"
  "mb_name (t_module_a ab) = ''ModuleA''" "mb_name (t_module_b ab) = ''ModuleB''"
  "mb_name (t_module_c ab) = ''ModuleC''"
  "mb_que_max (t_module_a ab) = 10" "mb_que_max (t_module_b ab) = 10" "mb_que_max (t_module_c ab) = 10"
  "length (mb_sequences (t_module_a ab)) = 12" "length (mb_sequences (t_module_b ab)) = 3"
  "length (mb_sequences (t_module_c ab)) = 6"
  by (simp_all add: object_defs)

lemma sequences:
  "map sq_title (mb_sequences (t_module_a ab)) = [''echo'', ''chain'', ''reqto'', ''fanout'', ''gather'',
     ''subscribe'', ''lock'', ''nolock'', ''probe'', ''getlog'', ''reqmsg'', ''do_send'']"
  "map sq_title (mb_sequences (t_module_b ab)) = [''chain'', ''slow'', ''echo'']"
  "map sq_title (mb_sequences (t_module_c ab)) = [''work'', ''register'', ''notify_once'', ''unregister'',
     ''notify_empty'', ''sink'']"
  "map sq_member (mb_sequences (t_module_a ab)) = [t_echo ab, t_chain ab, t_reqto ab, t_fanout ab, t_gather ab,
     t_subscribe ab, t_lock_seq, t_nolock_seq, t_probe, t_getlog, t_reqmsg ab, t_do_send]"
  "map sq_member (mb_sequences (t_module_b ab)) = [t_b_chain ab, t_slow, t_b_echo ab]"
  "map sq_member (mb_sequences (t_module_c ab)) = [t_work, t_regist, t_notify_once, t_unregist ab,
     t_notify_empty, t_sink]"
  by (simp_all add: object_defs)

lemma open_table:
  "length (c_seqs_of objs a) = length (mb_sequences (objs a))"
  "k < length (mb_sequences (objs a)) \<Longrightarrow>
    c_seqs_of objs a ! k = \<lparr>sq_fn = seq_wrapper objs, sq_name = sq_title (mb_sequences (objs a) ! k)\<rparr>"
  "k < length xs \<Longrightarrow> sq_title (xs ! k) = map sq_title xs ! k"
  "unat s < length (mb_sequences (objs a)) \<Longrightarrow>
    dispatch_seq objs a s = (map sq_member (mb_sequences (objs a)) ! unat s) (new_source None)"
  by (simp_all add: c_seqs_of_def dispatch_seq_def)

lemmas turn_eval = test_members t_module_def c_reg_def booted_def inited_def load_module_def zero_module_def
  thread_env_def test_ids eval_defs Let_def index_in_table iface_defs assert_that_def source_set_def new_source_def
  get_result_def get_request_id_def get_thread_idx_def get_sequence_idx_def reply_copy_def open_table step_wrapper
  step_gather numbered objects sequences dispatch_notify_def turns_case set_mod_swap coseq_self_seq_def
  coseq_self_seq_name_def coseq_reg_notify_def coseq_unreg_notify_def coseq_notify_def notify_one_def fanout_unfold
  bytes_simps

lemmas call_eval = pp_sync_def pp_async_def manager_request_sync_begin_def manager_request_sync_end_def
  manager_request_async_def let_run_def request_sync_begin_def request_sync_end_def request_async_def
  between_def at_rest_def all_ok_def message_is_def

section \<open>The calls of the tests\<close>

definition listener :: notify_client_t where
  "listener = \<lparr>nc_category = T_CAT, nc_listener_module = 0, nc_client_id = 0\<rparr>"

lemma run_echo:
  assumes "between ab clk rid u nid ncs e cl" and "paced clk"
  shows "\<exists>s cl'. pp_sync MOD_A T_ECHO (Some (bytes ''ping'')) (length ''ping'') [0] cl = Some (s, cl') \<and>
    between ab clk (rid + 1) (u) nid ncs e cl' \<and> s_result (tls_s (cl_tls cl')) = COSEQ_RSLT_SUCCESS \<and> s_msg (tls_s (cl_tls cl')) = bytes ''ping''"
  by (rule betweenE [OF assms(1)]) (simp add: turn_eval call_eval timers [OF assms(2)] del: nth_map)

lemma run_chain:
  assumes "between ab clk rid u nid ncs e cl" and "paced clk"
  shows "\<exists>s cl'. pp_sync MOD_A T_CHAIN None 0 [0, 1, 2, 2, 1, 0] cl = Some (s, cl') \<and>
    between ab clk (rid + 1) (u) nid ncs e cl' \<and> s_result (tls_s (cl_tls cl')) = COSEQ_RSLT_SUCCESS"
  by (rule betweenE [OF assms(1)]) (simp add: turn_eval call_eval timers [OF assms(2)] del: nth_map)

lemma run_reqto:
  assumes "between ab clk rid u nid ncs e cl" and "paced clk"
  shows "\<exists>s cl'. pp_sync MOD_A T_REQTO None 0 [0, 1, 0, 1, 0] cl = Some (s, cl') \<and>
    between ab clk (rid + 1) (u) nid ncs e cl' \<and> s_result (tls_s (cl_tls cl')) = COSEQ_RSLT_SUCCESS"
  by (rule betweenE [OF assms(1)]) (simp add: turn_eval call_eval timers [OF assms(2)] del: nth_map)

lemma run_fanout:
  assumes "between ab clk rid u nid ncs e cl" and "paced clk"
  shows "\<exists>s cl'. pp_sync MOD_A T_FANOUT None 0 [0, 1, 2, 2, 0, 1, 0] cl = Some (s, cl') \<and>
    between ab clk (rid + 1) (u) nid ncs e cl' \<and> s_result (tls_s (cl_tls cl')) = COSEQ_RSLT_SUCCESS"
  by (rule betweenE [OF assms(1)]) (simp add: turn_eval call_eval timers [OF assms(2)] del: nth_map)

lemma run_gather:
  assumes "between ab clk rid u nid ncs e cl" and "paced clk"
  shows "\<exists>s cl'. pp_sync MOD_A T_GATHER None 0 [0, 1, 2, 2, 0, 1, 0] cl = Some (s, cl') \<and>
    between ab clk (rid + 1) (u) nid ncs e cl' \<and> s_result (tls_s (cl_tls cl')) = COSEQ_RSLT_SUCCESS"
  by (rule betweenE [OF assms(1)]) (simp add: turn_eval call_eval timers [OF assms(2)] del: nth_map)

lemma run_subscribe:
  assumes "between ab clk rid u 0 [] e cl" and "paced clk"
  shows "\<exists>s cl'. pp_sync MOD_A T_SUBSCRIBE None 0 [0, 2, 0] cl = Some (s, cl') \<and>
    between ab clk (rid + 1) (u) 1 [listener] e cl' \<and> s_result (tls_s (cl_tls cl')) = COSEQ_RSLT_SUCCESS \<and> s_msg (tls_s (cl_tls cl')) = [0]"
  by (rule betweenE [OF assms(1)]) (simp add: turn_eval call_eval timers [OF assms(2)] listener_def del: nth_map)

lemma run_notify_once:
  assumes "between ab clk rid u 1 [listener] e cl" and "paced clk"
  shows "\<exists>s cl1 m. pp_sync MOD_C TC_NOTIFY_ONCE None 0 [2] cl = Some (s, cl1) \<and>
    let_run [0] (cl_mgr cl1) = Some m \<and> between ab clk (rid + 1) (u(''g_notify_count'' := [counter u ''g_notify_count'' + 1], ''g_notify_last_len'' := [5])) 1 [listener] e (cl1\<lparr>cl_mgr := m\<rparr>)"
  by (rule betweenE [OF assms(1)]) (simp add: turn_eval call_eval timers [OF assms(2)] listener_def fetch_add_def store_def del: nth_map)

lemma run_notify_empty:
  assumes "between ab clk rid u 1 [listener] e cl" and "paced clk"
  shows "\<exists>s cl1 m. pp_sync MOD_C TC_NOTIFY_EMPTY None 0 [2] cl = Some (s, cl1) \<and>
    let_run [0] (cl_mgr cl1) = Some m \<and> between ab clk (rid + 1) (u(''g_notify_count'' := [counter u ''g_notify_count'' + 1], ''g_notify_last_len'' := [0])) 1 [listener] e (cl1\<lparr>cl_mgr := m\<rparr>)"
  by (rule betweenE [OF assms(1)]) (simp add: turn_eval call_eval timers [OF assms(2)] listener_def fetch_add_def store_def del: nth_map)

lemma run_unregister:
  assumes "between ab clk rid u 1 [listener] e cl" and "paced clk"
  shows "\<exists>s cl'. pp_sync MOD_C TC_UNREGISTER (Some [0]) 1 [2] cl = Some (s, cl') \<and>
    between ab clk (rid + 1) (u) 1 [] e cl' \<and> s_result (tls_s (cl_tls cl')) = COSEQ_RSLT_SUCCESS"
  by (rule betweenE [OF assms(1)]) (simp add: turn_eval call_eval timers [OF assms(2)] listener_def del: nth_map)

lemma run_notify_none:
  assumes "between ab clk rid u 1 [] e cl" and "paced clk"
  shows "\<exists>s cl'. pp_sync MOD_C TC_NOTIFY_ONCE None 0 [2] cl = Some (s, cl') \<and>
    between ab clk (rid + 1) (u) 1 [] e cl' \<and> s_result (tls_s (cl_tls cl')) = COSEQ_RSLT_SUCCESS"
  by (rule betweenE [OF assms(1)]) (simp add: turn_eval call_eval timers [OF assms(2)] del: nth_map)

lemma run_reqmsg:
  assumes "between ab clk rid u nid ncs e cl" and "paced clk"
  shows "\<exists>s cl'. pp_sync MOD_A T_REQMSG None 0 [0, 1, 0] cl = Some (s, cl') \<and>
    between ab clk (rid + 1) (u) nid ncs e cl' \<and> s_result (tls_s (cl_tls cl')) = COSEQ_RSLT_SUCCESS"
  by (rule betweenE [OF assms(1)]) (simp add: turn_eval call_eval timers [OF assms(2)] del: nth_map)

lemma run_getlog:
  assumes "between ab clk rid u nid ncs e cl" and "paced clk"
  shows "\<exists>s cl'. pp_sync MOD_A T_GETLOG None 0 [0] cl = Some (s, cl') \<and>
    between ab clk (rid + 1) (u) nid ncs e cl' \<and> s_result (tls_s (cl_tls cl')) = COSEQ_RSLT_SUCCESS \<and> s_msg (tls_s (cl_tls cl')) = map of_int (u ''g_log'')"
  by (rule betweenE [OF assms(1)]) (simp add: turn_eval call_eval timers [OF assms(2)] del: nth_map)

lemma run_lock:
  assumes "between ab clk rid u nid ncs e cl" and "paced clk" and "rid \<noteq> - 1" and "rid + 1 \<noteq> - 1"
  shows "\<exists>cl1 m1 cl2 m2. pp_async MOD_A T_LOCK None 0 cl = Some cl1 \<and>
    let_run [0] (cl_mgr cl1) = Some m1 \<and> pp_async MOD_A T_PROBE None 0 (cl1\<lparr>cl_mgr := m1\<rparr>) = Some cl2 \<and>
    let_run [0, 1, 1, 0, 0] (cl_mgr cl2) = Some m2 \<and>
    between ab clk (rid + 2) (u(''g_log'' := chars ''[]P'')) nid ncs e (cl2\<lparr>cl_mgr := m2\<rparr>)"
  by (rule betweenE [OF assms(1)]) (simp add: turn_eval call_eval timers [OF assms(2)] chars_def clear_log_def append_log_def assms(3,4) del: nth_map)

lemma run_nolock:
  assumes "between ab clk rid u nid ncs e cl" and "paced clk" and "rid \<noteq> - 1" and "rid + 1 \<noteq> - 1"
  shows "\<exists>cl1 m1 cl2 m2. pp_async MOD_A T_NOLOCK None 0 cl = Some cl1 \<and>
    let_run [0] (cl_mgr cl1) = Some m1 \<and> pp_async MOD_A T_PROBE None 0 (cl1\<lparr>cl_mgr := m1\<rparr>) = Some cl2 \<and>
    let_run [0, 1, 1, 0] (cl_mgr cl2) = Some m2 \<and>
    between ab clk (rid + 2) (u(''g_log'' := chars ''[P]'')) nid ncs e (cl2\<lparr>cl_mgr := m2\<rparr>)"
  by (rule betweenE [OF assms(1)]) (simp add: turn_eval call_eval timers [OF assms(2)] chars_def clear_log_def append_log_def assms(3,4) del: nth_map)

lemma run_send:
  assumes "between ab clk rid u nid ncs e cl" and "paced clk"
  shows "\<exists>s cl1 cl2 m2. pp_sync MOD_A T_DO_SEND None 0 [0] cl = Some (s, cl1) \<and>
    pp_async MOD_C TC_SINK None 0 cl1 = Some cl2 \<and> let_run [2] (cl_mgr cl2) = Some m2 \<and>
    between ab clk (rid + 2) (u(''g_sink_count'' := [2 + counter u ''g_sink_count''])) nid ncs e (cl2\<lparr>cl_mgr := m2\<rparr>)"
  by (rule betweenE [OF assms(1)]) (simp add: turn_eval call_eval timers [OF assms(2)] fetch_add_def counter_def del: nth_map)

lemma run_bad_calls:
  assumes "between ab clk rid u nid ncs e cl" and "paced clk"
  shows "\<exists>cl1 cl2 m2. pp_async 99 0 (Some [1, 2, 3, 4]) 4 cl = Some cl1 \<and>
    pp_async MOD_C 99 None 0 cl1 = Some cl2 \<and> let_run [2] (cl_mgr cl2) = Some m2 \<and>
    between ab clk (rid + 2) u nid ncs (e + 2) (cl2\<lparr>cl_mgr := m2\<rparr>)"
  by (rule betweenE [OF assms(1)]) (simp add: turn_eval call_eval timers [OF assms(2)] errors_in_def log_level_of_def log_level_defs del: nth_map)

lemma run_register:
  assumes "between ab clk rid u nid ncs e cl" and "paced clk"
  shows "\<exists>s cl'. pp_sync MOD_C TC_REGISTER None 0 [2] cl = Some (s, cl') \<and>
    between ab clk (rid + 1) u nid ncs e cl' \<and> s_result (tls_s (cl_tls cl')) = COSEQ_RSLT_ERROR"
  by (rule betweenE [OF assms(1)]) (simp add: turn_eval call_eval timers [OF assms(2)] errors_in_def log_level_of_def log_level_defs del: nth_map)

section \<open>Setting up\<close>

lemma numbered_fold: "number_modules 0 [Suc 0, 2, 3] (t_objs ab) = t_numbered ab"
  by (simp add: t_numbered_def t_mods_def)

lemma t_module_booted:
  "booted i (c_reg (t_numbered ab) (Suc i)) (thread_env clk l x y) =
    t_module ab (Suc i) [] (Suc 0) 0 (thread_env clk l x y)"
  by (simp add: t_module_def booted_def inited_def load_module_def zero_module_def)

lemma at_rest_module: "at_rest ab clk a ncs (t_module ab a ncs n p (thread_env (clk a) l x y))"
  by (simp add: at_rest_def t_module_def booted_def inited_def load_module_def thread_env_def)

lemma t_module_logs: "logs (m_env (t_module ab a ncs n p (thread_env clk l x y))) = l"
  by (simp add: t_module_def booted_def inited_def load_module_def thread_env_def)

lemma run_setup:
  assumes "all_ok en" and "logs en = []"
  shows "\<exists>cl. test_setup ab (\<lambda>i. module_env (clk (Suc i))) en = Some (True, cl) \<and>
    between ab clk 1 test_globals 0 [] 0 cl"
proof -
  let ?c = "zero_ctx\<lparr>ext_mtx := True, ext_cv := True, ext_wait_rid := - 1, ext_id := 1, user_mem := test_globals\<rparr>"
  let ?en = "en\<lparr>log_cb := True, lib_calls := Suc (Suc (Suc (lib_calls en)))\<rparr>"
  let ?tbl = "[c_reg (t_numbered ab) (Suc 0), c_reg (t_numbered ab) 2, c_reg (t_numbered ab) 3]"
  let ?envs = "\<lambda>i. thread_env (clk (Suc i)) [] 0 0"
  have three: "create_threads 3 i nr c en = create_threads (Suc (Suc (Suc 0))) i nr c en" for i nr c en
    by (simp add: numeral_3_eq_3)
  obtain c1 en1 where s: "coseq_setup ?c ?tbl 3 ?envs ?en = (True, c1, en1)" and e: "all_ok en1" "log_cb en1"
    "errors_in (logs en1) = 0" "ext_id c1 = 1" "ext_wait_rid c1 = - 1" "user_mem c1 = test_globals" "next_client_id c1 = 0"
    using assms
    by (simp add: coseq_setup_def init_modules_Cons three MAX_MODULE_def all_ok_def lib_call_def Let_def
       log_defs errors_in_def log_level_of_def zero_ctx_def)
  have l: "length ?tbl = unat (3 :: u8)" "length (modules ?c) = MAX_MODULE" by (simp_all add: zero_ctx_def)
  note ok = coseq_setup_ok [OF s l]
  have g: "get_mod c1 0 = booted 0 (c_reg (t_numbered ab) (Suc 0)) (?envs 0)"
    "get_mod c1 (Suc 0) = booted (Suc 0) (c_reg (t_numbered ab) 2) (?envs (Suc 0))"
    "get_mod c1 2 = booted 2 (c_reg (t_numbered ab) 3) (?envs 2)"
    by (simp_all add: ok(4))
  have m: "get_mod c1 0 = t_module ab (Suc 0) [] (Suc 0) 0 (?envs 0)"
    "get_mod c1 (Suc 0) = t_module ab (Suc (Suc 0)) [] (Suc 0) 0 (?envs (Suc 0))"
    "get_mod c1 2 = t_module ab (Suc (Suc (Suc 0))) [] (Suc 0) 0 (thread_env (clk (Suc (Suc (Suc 0)))) [] 0 0)"
    unfolding g by (simp_all add: t_module_booted numeral_3_eq_3 numeral_2_eq_2)
  have "test_setup ab (\<lambda>i. module_env (clk (Suc i))) en = Some (True,
      \<lparr>cl_mgr = \<lparr>mgr_ctx = Some c1, mgr_hold = t_mods, mgr_tbl = ?tbl\<rparr>,
       cl_tls = no_tls, cl_env = en1\<rparr>)"
    using assms s
    by (simp add: test_setup_def set_log_cb_def coseq_set_log_cb_def new_manager_def create_coseq_def lib_call_def
       all_ok_def manager_setup_def numbered_fold t_mods_def Let_def module_env_logging del: number_modules.simps)
  moreover have "errors_in [] = 0" by (simp add: errors_in_def)
  ultimately show ?thesis
    using ok(1,2) e by (simp add: between_def m at_rest_module t_module_logs MAX_MODULE_def)
qed

section \<open>The tests, one by one\<close>

text \<open>What the object that is returned shows, as long as it is not kept over the next request.\<close>

lemma shown: "get_result (new_source (Some s)) = Some (pp_of_c (s_result s))" "src_message (new_source (Some s)) = s_msg s"
  by (simp_all add: get_result_def new_source_def source_set_def)

lemmas seen = run_look pp_sync_reading shown pp_of_c.simps

lemma let_run_nothing: "let_run [] mgr = Some mgr"
  by (cases mgr) (simp add: let_run_def split: option.split)

lemma test_echo:
  assumes "between ab clk rid u nid ncs e cl" and "paced clk"
    and go_on: "\<And>cl'. between ab clk (rid + 1) u nid ncs e cl' \<Longrightarrow> run_client (pp_ops (g_log_errors render) no_console) k sched cl' = r"
  shows "run_client (pp_ops (g_log_errors render) no_console) (main_echo k) ([0] # sched) cl = r"
  using run_echo [OF assms(1,2)] go_on by (auto simp: main_echo_def seen message_is_def check_def pp_ops_def written_since_def console_silent)

lemma test_chain:
  assumes "between ab clk rid u nid ncs e cl" and "paced clk"
    and go_on: "\<And>cl'. between ab clk (rid + 1) u nid ncs e cl' \<Longrightarrow> run_client (pp_ops (g_log_errors render) no_console) k sched cl' = r"
  shows "run_client (pp_ops (g_log_errors render) no_console) (main_chain k) ([0, 1, 2, 2, 1, 0] # sched) cl = r"
  using run_chain [OF assms(1,2)] go_on by (auto simp: main_chain_def seen message_is_def check_def pp_ops_def written_since_def console_silent)

lemma test_reqto:
  assumes "between ab clk rid u nid ncs e cl" and "paced clk"
    and go_on: "\<And>cl'. between ab clk (rid + 1) u nid ncs e cl' \<Longrightarrow> run_client (pp_ops (g_log_errors render) no_console) k sched cl' = r"
  shows "run_client (pp_ops (g_log_errors render) no_console) (main_reqto k) ([0, 1, 0, 1, 0] # sched) cl = r"
  using run_reqto [OF assms(1,2)] go_on by (auto simp: main_reqto_def seen message_is_def check_def pp_ops_def written_since_def console_silent)

lemma test_fanout:
  assumes "between ab clk rid u nid ncs e cl" and "paced clk"
    and go_on: "\<And>cl'. between ab clk (rid + 1) u nid ncs e cl' \<Longrightarrow> run_client (pp_ops (g_log_errors render) no_console) k sched cl' = r"
  shows "run_client (pp_ops (g_log_errors render) no_console) (main_fanout k) ([0, 1, 2, 2, 0, 1, 0] # sched) cl = r"
  using run_fanout [OF assms(1,2)] go_on by (auto simp: main_fanout_def seen message_is_def check_def pp_ops_def written_since_def console_silent)

lemma test_gather:
  assumes "between ab clk rid u nid ncs e cl" and "paced clk"
    and go_on: "\<And>cl'. between ab clk (rid + 1) u nid ncs e cl' \<Longrightarrow> run_client (pp_ops (g_log_errors render) no_console) k sched cl' = r"
  shows "run_client (pp_ops (g_log_errors render) no_console) (main_gather k) ([0, 1, 2, 2, 0, 1, 0] # sched) cl = r"
  using run_gather [OF assms(1,2)] go_on by (auto simp: main_gather_def seen message_is_def check_def pp_ops_def written_since_def console_silent)

lemma test_notify:
  assumes "between ab clk rid test_globals 0 [] e cl" and "paced clk"
    and go_on: "\<And>cl' u. between ab clk (rid + 5) u 1 [] e cl' \<Longrightarrow> run_client (pp_ops (g_log_errors render) no_console) k sched cl' = r"
  shows "run_client (pp_ops (g_log_errors render) no_console) (main_notify k) ([0, 2, 0] # [2] # [0] # [2] # [0] # [2] # [2] # [] # sched) cl = r"
proof -
  let ?u1 = "test_globals(''g_notify_count'' := [1], ''g_notify_last_len'' := [5])"
  let ?u2 = "?u1(''g_notify_count'' := [2], ''g_notify_last_len'' := [0])"
  note p = assms(2)
  obtain s1 cl1 where 1: "pp_sync MOD_A T_SUBSCRIBE None 0 [0, 2, 0] cl = Some (s1, cl1)"
    "between ab clk (rid + 1) test_globals 1 [listener] e cl1" "s_result (tls_s (cl_tls cl1)) = COSEQ_RSLT_SUCCESS" "s_msg (tls_s (cl_tls cl1)) = [0]"
    using run_subscribe [OF assms(1,2)] by blast
  obtain s2 cl2 m2 where 2: "pp_sync MOD_C TC_NOTIFY_ONCE None 0 [2] cl1 = Some (s2, cl2)"
    "let_run [0] (cl_mgr cl2) = Some m2" "between ab clk (rid + 1 + 1) ?u1 1 [listener] e (cl2\<lparr>cl_mgr := m2\<rparr>)"
    using run_notify_once [OF 1(2) p] by (auto simp: test_globals_def counter_def)
  obtain s3 cl3 m3 where 3: "pp_sync MOD_C TC_NOTIFY_EMPTY None 0 [2] (cl2\<lparr>cl_mgr := m2\<rparr>) = Some (s3, cl3)"
    "let_run [0] (cl_mgr cl3) = Some m3" "between ab clk (rid + 1 + 1 + 1) ?u2 1 [listener] e (cl3\<lparr>cl_mgr := m3\<rparr>)"
    using run_notify_empty [OF 2(3) p] by (auto simp: test_globals_def counter_def)
  obtain s4 cl4 where 4: "pp_sync MOD_C TC_UNREGISTER (Some [0]) 1 [2] (cl3\<lparr>cl_mgr := m3\<rparr>) = Some (s4, cl4)"
    "between ab clk (rid + 1 + 1 + 1 + 1) ?u2 1 [] e cl4" "s_result (tls_s (cl_tls cl4)) = COSEQ_RSLT_SUCCESS"
    using run_unregister [OF 3(3) p] by blast
  obtain s5 cl5 where 5: "pp_sync MOD_C TC_NOTIFY_ONCE None 0 [2] cl4 = Some (s5, cl5)"
    "between ab clk (rid + 1 + 1 + 1 + 1 + 1) ?u2 1 [] e cl5"
    using run_notify_none [OF 4(2) p] by blast
  have mem: "\<exists>c. mgr_ctx (cl_mgr cl) = Some c \<and> user_mem c = u" if "between ab clk rid u nid ncs e cl" for cl rid u nid ncs
    using that by (auto simp: between_def split: option.splits)
  show ?thesis
    using 1(1,3,4) 2(1,2) 3(1,2) 4(1,3) 5(1,2) mem [OF 2(3)] mem [OF 3(3)] mem [OF 5(2)] go_on
    by (auto simp: main_notify_def notified_def seen check_def let_run_nothing pp_sleep_def pp_ops_def written_since_def console_silent counter_def add.assoc)
qed

lemma test_reqmsg:
  assumes "between ab clk rid u nid ncs e cl" and "paced clk"
    and go_on: "\<And>cl'. between ab clk (rid + 1) u nid ncs e cl' \<Longrightarrow> run_client (pp_ops (g_log_errors render) no_console) k sched cl' = r"
  shows "run_client (pp_ops (g_log_errors render) no_console) (main_reqmsg k) ([0, 1, 0] # sched) cl = r"
  using run_reqmsg [OF assms(1,2)] go_on by (auto simp: main_reqmsg_def seen message_is_def check_def pp_ops_def written_since_def console_silent)

lemma log_bytes: "map of_int (chars s) = bytes s"
proof -
  have "of_int (of_char x) = (of_char x :: u8)" for x
    by (cases x) simp
  then show ?thesis by (simp add: chars_def bytes_def)
qed

lemma test_lock:
  assumes "between ab clk rid u nid ncs e cl" and "paced clk" and "rid \<noteq> - 1" and "rid + 1 \<noteq> - 1"
    and go_on: "\<And>cl' u'. between ab clk (rid + 2 + 1) u' nid ncs e cl' \<Longrightarrow> run_client (pp_ops (g_log_errors render) no_console) k sched cl' = r"
  shows "run_client (pp_ops (g_log_errors render) no_console) (main_lock k) ([0] # [0, 1, 1, 0, 0] # [0] # sched) cl = r"
proof -
  obtain cl1 m1 cl2 m2 where 1: "pp_async MOD_A T_LOCK None 0 cl = Some cl1" "let_run [0] (cl_mgr cl1) = Some m1"
    "pp_async MOD_A T_PROBE None 0 (cl1\<lparr>cl_mgr := m1\<rparr>) = Some cl2" "let_run [0, 1, 1, 0, 0] (cl_mgr cl2) = Some m2"
    "between ab clk (rid + 2) (u(''g_log'' := chars ''[]P'')) nid ncs e (cl2\<lparr>cl_mgr := m2\<rparr>)"
    using run_lock [OF assms(1-4)] by blast
  show ?thesis
    using 1(1-4) run_getlog [OF 1(5) assms(2)] go_on
    by (auto simp: main_lock_def main_probe_def seen check_def message_is_def log_bytes pp_sleep_def pp_ops_def written_since_def console_silent)
qed

lemma test_nolock:
  assumes "between ab clk rid u nid ncs e cl" and "paced clk" and "rid \<noteq> - 1" and "rid + 1 \<noteq> - 1"
    and go_on: "\<And>cl' u'. between ab clk (rid + 2 + 1) u' nid ncs e cl' \<Longrightarrow> run_client (pp_ops (g_log_errors render) no_console) k sched cl' = r"
  shows "run_client (pp_ops (g_log_errors render) no_console) (main_nolock k) ([0] # [0, 1, 1, 0] # [0] # sched) cl = r"
proof -
  obtain cl1 m1 cl2 m2 where 1: "pp_async MOD_A T_NOLOCK None 0 cl = Some cl1" "let_run [0] (cl_mgr cl1) = Some m1"
    "pp_async MOD_A T_PROBE None 0 (cl1\<lparr>cl_mgr := m1\<rparr>) = Some cl2" "let_run [0, 1, 1, 0] (cl_mgr cl2) = Some m2"
    "between ab clk (rid + 2) (u(''g_log'' := chars ''[P]'')) nid ncs e (cl2\<lparr>cl_mgr := m2\<rparr>)"
    using run_nolock [OF assms(1-4)] by blast
  show ?thesis
    using 1(1-4) run_getlog [OF 1(5) assms(2)] go_on
    by (auto simp: main_nolock_def main_probe_def seen check_def message_is_def log_bytes pp_sleep_def pp_ops_def written_since_def console_silent)
qed

lemma between_memory:
  assumes "between ab clk rid u nid ncs e cl"
  shows "\<exists>c. mgr_ctx (cl_mgr cl) = Some c \<and> user_mem c = u"
  using assms by (auto simp: between_def split: option.splits)

lemma test_send:
  assumes "between ab clk rid u nid ncs e cl" and "paced clk"
    and go_on: "\<And>cl' u'. between ab clk (rid + 2) u' nid ncs e cl' \<Longrightarrow> run_client (pp_ops (g_log_errors render) no_console) k sched cl' = r"
  shows "run_client (pp_ops (g_log_errors render) no_console) (main_send k) ([0] # [2] # sched) cl = r"
proof -
  obtain s cl1 cl2 m2 where 1: "pp_sync MOD_A T_DO_SEND None 0 [0] cl = Some (s, cl1)"
    "pp_async MOD_C TC_SINK None 0 cl1 = Some cl2" "let_run [2] (cl_mgr cl2) = Some m2"
    "between ab clk (rid + 2) (u(''g_sink_count'' := [2 + counter u ''g_sink_count''])) nid ncs e (cl2\<lparr>cl_mgr := m2\<rparr>)"
    using run_send [OF assms(1,2)] by blast
  show ?thesis
    using 1 between_memory [OF assms(1)] between_memory [OF 1(4)] go_on
    by (auto simp: main_send_def check_def counter_def pp_sleep_def pp_ops_def written_since_def console_silent)
qed

lemma test_errors:
  assumes "between ab clk rid u nid ncs 0 cl" and "paced clk"
    and go_on: "\<And>cl'. between ab clk (rid + 2 + 1) u nid ncs 2 cl' \<Longrightarrow> run_client (pp_ops (g_log_errors render) no_console) k sched cl' = r"
  shows "run_client (pp_ops (g_log_errors render) no_console) (main_no_errors (main_errors k)) ([2] # [2] # sched) cl = r"
proof -
  obtain cl1 cl2 m2 where 1: "pp_async 99 0 (Some [1, 2, 3, 4]) 4 cl = Some cl1"
    "pp_async MOD_C 99 None 0 cl1 = Some cl2" "let_run [2] (cl_mgr cl2) = Some m2"
    "between ab clk (rid + 2) u nid ncs (0 + 2) (cl2\<lparr>cl_mgr := m2\<rparr>)"
    using run_bad_calls [OF assms(1,2)] by blast
  show ?thesis
    using 1(1-3) run_register [OF 1(4) assms(2)] between_errors [OF assms(1)] between_errors [OF 1(4)] go_on
    by (auto simp: main_no_errors_def main_errors_def seen check_def pp_sleep_def pp_ops_def written_since_def console_silent)
qed

lemma test_end:
  assumes "between ab clk rid u nid ncs e cl"
  shows "run_client (pp_ops (g_log_errors render) no_console) (Teardown (Print txt (Destroy (Exit n)))) sched cl = (txt, Exited n)"
  using between_memory [OF assms]
  by (auto simp: pp_ops_def written_since_def console_silent pp_teardown_def pp_destroy_def manager_teardown_def split_def Let_def)

section \<open>All of them\<close>

text \<open>
  The turns in the order in which the timers of 100 and 300 ms and the sleeps of the client put them.
\<close>

definition test_schedule :: "nat list list" where
  "test_schedule = [[0], [0, 1, 2, 2, 1, 0], [0, 1, 0, 1, 0], [0, 1, 2, 2, 0, 1, 0], [0, 1, 2, 2, 0, 1, 0],
     [0, 2, 0], [2], [0], [2], [0], [2], [2], [], [0, 1, 0], [0], [0, 1, 1, 0, 0], [0], [0], [0, 1, 1, 0], [0],
     [0], [2], [2], [2]]"

text \<open>
  C7: The tests of the C++ binding pass. With clocks that move on, no failing library call and the log
  callback set, there is an order of the threads' turns in which \<open>main\<close> goes through \<open>setup\<close>, all its tests
  and \<open>teardown\<close> and exits with 0: every \<open>CHECK\<close> holds, among them that a probe sent while the module is
  locked runs after the unlock (``[]P'') and one sent to the unlocked module runs in between (``[P]''), that a
  notification arrives once and no longer after \<open>unreg_notify\<close>, and that exactly the two calls of the
  error test are logged as errors. Every \<open>assert\<close> in a member holds as well: \<open>ab\<close>, what a failed one would do,
  is arbitrary.
\<close>

theorem tests_pass:
  assumes "all_ok en" and "logs en = []" and "paced clk"
  shows "test_program es rc ab (\<lambda>i. module_env (clk (Suc i))) en test_schedule =
    (''ALL TESTS PASSED'' @ nl, Exited 0)"
proof -
  note p = assms(3)
  obtain cl where s: "test_setup ab (\<lambda>i. module_env (clk (Suc i))) en = Some (True, cl)"
    and b: "between ab clk 1 test_globals 0 [] 0 cl"
    using run_setup [OF assms(1,2)] by blast
  have "run_client (pp_ops (g_log_errors (log_line es rc)) no_console) test_main test_schedule cl = (''ALL TESTS PASSED'' @ nl, Exited 0)"
    unfolding test_main_def test_schedule_def
    by (rule test_echo [OF b p])
      (rule test_chain test_reqto test_fanout test_gather test_notify test_reqmsg test_lock test_nolock test_send
        test_errors test_end p | assumption | (simp; fail))+
  then show ?thesis by (simp add: test_program_def s check_def pp_ops_def written_since_def console_silent)
qed

theorem tests_pass_witness:
  "test_program [] 0 Return (\<lambda>i. module_env (\<lambda>n. Timespec (int n) 0)) no_env test_schedule =
    (''ALL TESTS PASSED'' @ nl, Exited 0)"
proof -
  have "paced (\<lambda>i n. Timespec (int n) 0)"
    by (simp add: paced_def ts_add_ms_def Let_def ts_lt_def del: ts_lt_less)
  then show ?thesis
    using tests_pass [where clk = "\<lambda>i n. Timespec (int n) 0" and en = no_env] by (simp add: no_env_def all_ok_def)
qed

end
