(* ===== verification/Spec2Isabelle.thy ===== *)
theory Spec2Isabelle
  imports CoseqIntrude CoseqHeap CoseqCounter CoseqSampleRun CoseqTestRuns
begin

text \<open>
  A verification development for coseq, a library of actor-like modules for C
  (\<open>src/coseq/coseq.c\<close>, \<open>src/coseq/coseq_if.h\<close>), its binding for C++ (\<open>src/coseqpp\<close>), its samples and its
  tests.

  \<^bold>\<open>The program.\<close> An instance holds up to 32 modules. Each module is a thread that runs a scheduler
  (\<open>sched_loop\<close>) and, on it, any number of fibers, which are sequences of the user with a stack of
  their own. A sequence calls the sequence API; a request, a wait for replies and a wait for a timer
  switch back to the scheduler. Modules share nothing but their inboxes: \<open>post\<close> appends an event to
  the inbox of another module under its mutex, and the scheduler takes the whole inbox at the
  start of a turn, fires the timers that are due, handles the events, and frees the fibers that
  have returned. Threads outside the modules send requests through the methods of the instance;
  one of them at a time may wait for its reply in the mailbox of the instance.

  \<^bold>\<open>The theories.\<close>
  \<^item> \<open>CoseqPrelude\<close>: machine integers, outcomes (a value, undefined behaviour, or no return), loops over
    lists that stop at the first bad outcome, the collection \<open>eval_defs\<close> of the equations a concrete
    run is evaluated with.
  \<^item> \<open>CoseqEnv\<close>: what a thread gets from its surroundings (the result of each fallible library call, the
    clock, the log callback); \<open>now_ts\<close>, \<open>ts_add_ms\<close>, \<open>ts_lt\<close> and the log macros.
  \<^item> \<open>CoseqTypes\<close>: the structures of \<open>coseq.c\<close> as records and the public types. A sequence is a \<open>seq_prog\<close>: the
    next call it makes and how it goes on with the result; \<open>Access\<close> stands for what it does in between to
    the memory it shares with the rest of the program (\<open>user_mem\<close>).
  \<^item> \<open>CoseqEvents\<close>: \<open>make_ev\<close>, \<open>post\<close>, \<open>defer_ev\<close>. The locale \<open>fifo\<close> is the contract of both queues.
  \<^item> \<open>CoseqFiber\<close>: \<open>pending_add\<close>, \<open>pending_peek\<close>, \<open>pending_take\<close>, \<open>set_src\<close>, \<open>new_fiber\<close>. The locale
    \<open>waiting_table\<close> is the contract of the table of outstanding requests.
  \<^item> \<open>CoseqApi\<close>: every call of the sequence API, \<open>run_fiber\<close> (a fiber from its switch in to its yield),
    \<open>resume\<close> and \<open>coseq_gather\<close>.
  \<^item> \<open>CoseqSched\<close>: \<open>handle_reply\<close>, \<open>reap_done\<close> and one turn of \<open>sched_loop\<close> (\<open>sched_iter\<close>), with the choice of
    how long to sleep (\<open>sched_wait\<close>).
  \<^item> \<open>CoseqSteps\<close>, \<open>CoseqInv\<close>: the effect of a call and of a switch on the private data of a module, as step
    relations. The locale \<open>module_steps\<close> proves once that a property these steps keep holds after
    every piece of a turn, that undefined behaviour has the cause named, and that the piece ends.
  \<^item> \<open>CoseqLife\<close>: the life cycle of fibers and the module lock; the locale \<open>module_invariant\<close> extends
    \<open>module_steps\<close> to whole turns. \<open>CoseqAccounting\<close>: sequences that collect their replies, and the balance of
    outstanding requests. \<open>CoseqLive\<close>: sequences that reach a wait point, and the end of every turn.
    Each interprets the locales on the model.
  \<^item> \<open>CoseqInstance\<close>: \<open>create_coseq\<close>, \<open>_setup\<close>, \<open>_teardown\<close>, \<open>_destroy\<close>, \<open>_request_sync\<close> (cut at its wait) and
    \<open>_request_async\<close>.
  \<^item> \<open>CoseqSystem\<close>: the instance as a transition system whose steps are turns and external calls, its
    reachable states, and the properties that hold in all of them.
  \<^item> \<open>CoseqBuffers\<close>: sequences that pass buffers as long as they say (\<open>honest\<close>), and the fact that all stored
    sizes are then the sizes of the stored bytes, whatever allocations fail; with a directory of the
    sequences each module knows (\<open>views\<close>), the addresses of requests are followed as well.
  \<^item> \<open>CoseqCausal\<close>: sequences that reply before they return (\<open>answers\<close>), and the invariant of the whole
    instance that each outstanding request is on its way, being worked on, or on its way back.
  \<^item> \<open>CoseqDeadlock\<close>: standstills, in which every thread sleeps without limit: an outstanding request then lies on
    an endless chain of waiting requests. \<open>CoseqLayers\<close>: modules in layers, where the lock alone can close such
    a chain, and a run in which it does. \<open>CoseqIntrude\<close>: a notification handler that takes the lock from its
    holder.
  \<^item> \<open>CoseqText\<close>: strings and bytes, numbers as \<open>printf\<close> writes them, the console as memory that sequences append to
    (\<open>put_text\<close>), and the line of each message of the log, which fits its buffer.
  \<^item> \<open>CoseqSample\<close>, \<open>CoseqScenario\<close>: the sequences and the table of \<open>samples/sample.c\<close>, and evaluated runs. \<open>CoseqChain\<close>: the
    chain of the sample through three modules, turn by turn.
  \<^item> \<open>CoseqLists\<close>: the pointer code of the linked lists and queues, which refines the lists of the model.
    \<open>CoseqHeap\<close>: the loops that free nodes, of \<open>reap_done\<close> and at the end of \<open>stop_modules\<close>, over a set of allocated
    blocks: what they free, that they free it once, and what \<open>reap_done\<close> leaves allocated.
  \<^item> \<open>CoseqCounter\<close>: the counter of outstanding requests of a fiber, an \<open>int\<close> in C, stays below the number of
    requests of its module.
  \<^item> \<open>CoseqWrapper\<close>: the classes \<open>source\<close>, \<open>iface\<close>, \<open>module_base\<close> and \<open>manager\<close> of \<open>src/coseqpp\<close>, a method of \<open>iface\<close>
    being the call of the C interface it makes followed by what it returns, and the log callback.
    \<open>CoseqSamplePP\<close>: the sequences of \<open>samplespp/sample.cpp\<close>, which make the calls of the C sample; \<open>same_calls\<close> compares
    two sequences up to the lines they write.
  \<^item> \<open>CoseqSource\<close>: the objects of class \<open>source\<close> that the manager returns, which point to variables of the calling
    thread: what one shows after the next request of that thread.
  \<^item> \<open>CoseqClient\<close>: programs of a thread outside the modules, over the C interface or the manager, and their
    runs under a schedule of the modules' turns. A program reads a reply through the pointer or object it
    got (\<open>deref_src\<close>, \<open>look\<close>), from the variables as they are at that moment. The locale \<open>client_simulation\<close> relates
    two interfaces; it is interpreted on the manager and the instance it holds. \<open>CoseqSampleMain\<close>, \<open>CoseqSampleRun\<close>: \<open>main\<close> of the samples, and
    the C sample run to its end, with the transcript of its console.
  \<^item> \<open>CoseqTests\<close>, \<open>CoseqTestMain\<close>, \<open>CoseqTestRuns\<close>: the modules of \<open>testpp/main.cpp\<close> with their assertions, its \<open>main\<close> with
    its checks, and a run in which all of them hold.

  \<^bold>\<open>How the state corresponds.\<close> A linked list of the code is the list of its nodes from the head. A
  fiber has an address (\<open>f_self\<close>) that is never used again, so a use of a freed fiber is a lookup
  that fails, and is reported as undefined behaviour. What is freed with a fiber or a module besides its place in
  the lists is the matter of \<open>CoseqHeap\<close>. The machine context of a fiber is the rest
  of its sequence. The counter of request ids is a natural number and is cast to 32 bits wherever
  the code uses it; the theorems that need it say that it has not wrapped. A library call takes its
  result from an oracle, so the theorems hold for every pattern of failures unless they ask for
  \<open>all_ok\<close>. The counter of outstanding requests of a fiber is an integer without bounds, which agrees with the \<open>int\<close>
  of the code while a module has made fewer than \<open>2 ^ 31\<close> requests (\<open>counter_in_range\<close>). What \<open>coseq_source\<close> and the
  waiting calls return to a sequence is a copy of the source at that moment; the code returns a pointer to
  it, which the next wait overwrites. \<open>request_sync\<close> returns a pointer as well, to a structure of the calling thread with
  a buffer that may move: there the pointer is kept (\<open>src_addr\<close>, \<open>source_obj\<close>) and read when the client reads it.

  \<^bold>\<open>Concurrency.\<close> A turn is one step, which counts as happening when it takes its inbox. The data of a
  scheduler is touched by its own thread only (\<open>turn_isolates_modules\<close>), and what a turn posts may reach
  an inbox later than the step says: the next turns of the receiver find any part of what has been
  posted, in any order that keeps the posts of each module in theirs (\<open>arrived\<close>), so the reachable states
  cover turns of several modules that overlap. Three things are serialised by turns although the code
  does not guarantee it: the counter \<open>next_client_id\<close>, which the threads of all modules share without a
  lock; the accesses of sequences to memory they share (\<open>Access\<close>); and the mailbox, guarded by \<open>ext_mtx\<close>,
  from which a thread outside reads what the turn has left there, not what it held between two
  replies of one turn.

  \<^bold>\<open>Loops and fuel.\<close> No definition uses fuel. A sequence may run for ever, so \<open>run_fiber\<close> is a partial
  function and a turn may have no outcome; \<open>polite_turns_return\<close> gives the condition under which every
  turn has one. The loops of the code over its lists are structural recursion.

  \<^bold>\<open>Callers.\<close> An external caller passes a buffer that is at least as long as it says (\<open>readable\<close>), which C
    cannot check; the steps of \<open>CoseqSystem\<close> require it.

  \<^bold>\<open>Runs.\<close> A run of a client is relative to a schedule, a list of turns for each of its waits; the theorems
  about whole programs name one, which puts the timers of 100 and 300 ms and the sleeps in their order, and
  hold for all clocks whose readings are 300 ms or more apart (\<open>paced\<close>). What holds under every schedule is
  stated over the reachable states of \<open>CoseqSystem\<close>.

  \<^bold>\<open>The console.\<close> What a sequence prints is appended to the console in the turn in which it runs, and what
  \<open>main\<close> prints between its calls. So lines of threads that run at the same time are in the order of the turns,
  and the lines the log callback prints are not merged into them; \<open>logged\<close> gives the lines of each thread.

  \<^bold>\<open>Not modelled.\<close> \<open>prctl\<close>, which names the thread for debuggers; the sleep itself (\<open>pthread_cond_wait\<close>: the time
  between two turns); a failing \<open>swapcontext\<close>, with the lines logged for it; stack overflow of a fiber; the
  mutexes as such; the message \<open>assert\<close> prints before a test aborts; the build files. The text of \<open>strerror\<close> and
  the codes that pthread functions return are parameters of the lines of the log (\<open>es\<close>, \<open>rc\<close>).
\<close>

end
